(* ===== verification/MD_Prelude.thy ===== *)
theory MD_Prelude
  imports Main "HOL-Library.AList" "HOL-Library.Char_ord" "HOL-Library.List_Lexorder"
    "HOL-Library.Multiset" "HOL-Library.Sublist"
begin

section \<open>Prelude: shared types, result plumbing and generic lemmas\<close>

text \<open>
  What every component of the development shares: the types that stand for Go's basic types, the
  wrap-around of 64-bit integers, the error plumbing (an error return is \<open>Inl\<close>, a value is \<open>Inr\<close>),
  Go maps as association lists, and the generic lemmas on lists and maps that the component proofs
  use. The collections \<open>go_simps\<close> (unfolding of the small Go helpers) and \<open>result_simps\<close> (error
  plumbing) are filled along the development.
\<close>

named_theorems go_simps \<open>definitions of the small Go helper functions\<close>
named_theorems result_simps \<open>rewriting of the error plumbing\<close>

subsection \<open>Basic types\<close>

text \<open>
  A Go \<open>int64\<close> (and \<open>int\<close> on the 64-bit targets the project builds for) is an \<open>int\<close>; where the
  code adds or subtracts, the model writes the wrap-around out with \<open>wrap64\<close>. A \<open>time.Time\<close> is its
  instant in nanoseconds since the Unix epoch, a \<open>time.Duration\<close> a number of nanoseconds. A Go
  string and a byte slice are byte lists (\<open>char\<close> is a byte).
\<close>

type_synonym int64 = int
type_synonym goint = int
type_synonym time = int
type_synonym duration = int
type_synonym bytes = string

definition min_int64 :: int where
  "min_int64 = - (2 ^ 63)"

definition max_int64 :: int where
  "max_int64 = 2 ^ 63 - 1"

definition wrap64 :: "int \<Rightarrow> int64" where
  "wrap64 x = (x + 2 ^ 63) mod 2 ^ 64 - 2 ^ 63"

definition in_int64 :: "int \<Rightarrow> bool" where
  "in_int64 x \<longleftrightarrow> min_int64 \<le> x \<and> x \<le> max_int64"

text \<open>The zero \<open>time.Time\<close> is January 1, year 1, 00:00:00 UTC.\<close>

definition zero_time :: time where
  "zero_time = -62135596800 * 10 ^ 9"

definition second :: duration where
  "second = 10 ^ 9"

definition millisecond :: duration where
  "millisecond = 10 ^ 6"

definition hour :: duration where
  "hour = 3600 * 10 ^ 9"

lemma wrap64_in_range: "in_int64 (wrap64 x)"
  by (simp add: in_int64_def wrap64_def min_int64_def max_int64_def)

lemma wrap64_id: "in_int64 x \<Longrightarrow> wrap64 x = x"
  by (simp add: in_int64_def wrap64_def min_int64_def max_int64_def)

lemma wrap64_succ: "in_int64 x \<Longrightarrow> x \<noteq> max_int64 \<Longrightarrow> wrap64 (x + 1) = x + 1"
  by (rule wrap64_id) (auto simp: in_int64_def max_int64_def min_int64_def)

lemma wrap64_succ_max: "wrap64 (max_int64 + 1) = min_int64"
  by (simp add: wrap64_def max_int64_def min_int64_def)

lemma wrap64_succ_neq: "in_int64 x \<Longrightarrow> wrap64 (x + 1) \<noteq> x"
  by (cases "x = max_int64")
     (auto simp: wrap64_succ wrap64_succ_max, simp add: max_int64_def min_int64_def)

subsection \<open>Results\<close>

text \<open>Sequencing of a Go call that returns \<open>(value, err)\<close>: an error is returned at once.\<close>

definition bind_r :: "'e + 'a \<Rightarrow> ('a \<Rightarrow> 'e + 'b) \<Rightarrow> 'e + 'b" where
  "bind_r r f = (case r of Inl e \<Rightarrow> Inl e | Inr x \<Rightarrow> f x)"

definition map_err :: "('e \<Rightarrow> 'f) \<Rightarrow> 'e + 'a \<Rightarrow> 'f + 'a" where
  "map_err g r = (case r of Inl e \<Rightarrow> Inl (g e) | Inr x \<Rightarrow> Inr x)"

definition guard_r :: "bool \<Rightarrow> 'e \<Rightarrow> 'e + 'a \<Rightarrow> 'e + 'a" where
  "guard_r bad e k = (if bad then Inl e else k)"

lemma bind_r_simps [simp, result_simps]:
  "bind_r (Inl e) f = Inl e"
  "bind_r (Inr x) f = f x"
  by (simp_all add: bind_r_def)

lemma map_err_simps [simp, result_simps]:
  "map_err g (Inl e) = Inl (g e)"
  "map_err g (Inr x) = Inr x"
  by (simp_all add: map_err_def)

lemma bind_r_Inr_iff [result_simps]:
  "bind_r r f = Inr y \<longleftrightarrow> (\<exists>x. r = Inr x \<and> f x = Inr y)"
  by (cases r) auto

lemma bind_r_Inl_iff:
  "bind_r r f = Inl e \<longleftrightarrow> r = Inl e \<or> (\<exists>x. r = Inr x \<and> f x = Inl e)"
  by (cases r) auto

lemma map_err_Inr_iff [result_simps]: "map_err g r = Inr y \<longleftrightarrow> r = Inr y"
  by (cases r) auto

lemma guard_r_Inr_iff [result_simps]: "guard_r bad e k = Inr y \<longleftrightarrow> \<not> bad \<and> k = Inr y"
  by (simp add: guard_r_def)

subsection \<open>Go maps\<close>

text \<open>
  A Go map that the code iterates over is an association list with distinct keys: lookup is
  \<open>map_of\<close>, assignment \<open>AList.update\<close>, \<open>delete\<close> is \<open>AList.delete\<close>. The order of the list stands
  for the (unspecified) iteration order, so a statement that holds for every such list holds for
  every iteration order.
\<close>

type_synonym ('k, 'v) gomap = "('k \<times> 'v) list"

abbreviation gomap_ok :: "('k, 'v) gomap \<Rightarrow> bool" where
  "gomap_ok m \<equiv> distinct (map fst m)"

lemma map_of_alist_update [simp]: "map_of (AList.update k v m) = (map_of m)(k \<mapsto> v)"
  by (rule AList.update_conv')

lemma map_of_alist_delete [simp]: "map_of (AList.delete k m) = (map_of m)(k := None)"
  by (rule AList.delete_conv')

lemma gomap_ok_update [simp, intro]: "gomap_ok m \<Longrightarrow> gomap_ok (AList.update k v m)"
  by (rule AList.distinct_update)

lemma gomap_ok_delete [simp, intro]: "gomap_ok m \<Longrightarrow> gomap_ok (AList.delete k m)"
  by (rule AList.distinct_delete)

lemma gomap_ok_mem_iff: "gomap_ok m \<Longrightarrow> (k, v) \<in> set m \<longleftrightarrow> map_of m k = Some v"
  by (rule map_of_eq_Some_iff [symmetric])

text \<open>Two maps with the same content are permutations of each other.\<close>

lemma gomap_same_content_mset:
  assumes "gomap_ok m" "gomap_ok m'" "map_of m = map_of m'"
  shows "mset m = mset m'"
proof -
  have "(k, v) \<in> set m \<longleftrightarrow> (k, v) \<in> set m'" for k v
    using assms by (simp only: gomap_ok_mem_iff)
  then have "set m = set m'"
    by (simp add: set_eq_iff)
  moreover have "distinct m" "distinct m'"
    using assms by (simp_all add: distinct_map)
  ultimately show ?thesis
    by (simp add: set_eq_iff_mset_eq_distinct)
qed

subsection \<open>Lists\<close>

text \<open>Strictly increasing lists of integers and their last element.\<close>

lemma sorted_wrt_less_last:
  fixes xs :: "int list"
  shows "sorted_wrt (<) xs \<Longrightarrow> x \<in> set xs \<Longrightarrow> x \<le> last xs"
  by (induction xs) (auto split: if_splits intro: order.strict_implies_order)

lemma filter_gt_above: "\<forall>x \<in> set xs. f x \<le> (b::int) \<Longrightarrow> filter (\<lambda>x. b < f x) xs = []"
  by (auto simp: filter_empty_conv)

lemma filter_gt_below: "\<forall>x \<in> set xs. (b::int) < f x \<Longrightarrow> filter (\<lambda>x. b < f x) xs = xs"
  by (simp add: filter_id_conv)

lemma find_Some_iff_mem: "find P xs = Some x \<Longrightarrow> x \<in> set xs \<and> P x"
  by (auto simp: find_Some_iff)

text \<open>Sorting by a key is independent of the order of its input when the keys are distinct.\<close>

lemma filter_eq_const: "filter (\<lambda>x. x = k) ys = replicate (count (mset ys) k) k"
  by (induction ys) auto

lemma sort_key_perm_eq:
  assumes "mset xs = mset ys" and "inj_on f (set xs)"
  shows "sort_key f xs = sort_key f ys"
proof -
  have set_eq: "set xs = set ys" using assms(1) by (rule mset_eq_setD)
  have one: "filter (\<lambda>x. f k = f x) zs = replicate (count (mset zs) k) k"
    if "k \<in> set ys" "set zs = set ys" for k zs
  proof -
    have "filter (\<lambda>x. f k = f x) zs = filter (\<lambda>x. x = k) zs"
      using that assms(2) set_eq by (intro filter_cong) (auto simp: inj_on_def)
    then show ?thesis by (simp add: filter_eq_const)
  qed
  have "sort_key f ys = sort_key f xs"
  proof (rule properties_for_sort_key)
    show "mset (sort_key f xs) = mset ys" using assms by simp
    show "sorted (map f (sort_key f xs))" by simp
    fix k assume k: "k \<in> set (sort_key f xs)"
    then have "k \<in> set ys" using set_eq by simp
    then show "filter (\<lambda>x. f k = f x) (sort_key f xs) = filter (\<lambda>x. f k = f x) ys"
      using assms(1) set_eq by (simp add: one)
  qed
  then show ?thesis ..
qed

subsection \<open>Runs of a step function\<close>

text \<open>
  Many components process a sequence of events one at a time. An invariant that one step keeps is
  kept by every run; the locale states the contract once, and each component interprets it on its
  own step function.
\<close>

locale stepper =
  fixes step :: "'s \<Rightarrow> 'e \<Rightarrow> 's"
    and inv :: "'s \<Rightarrow> bool"
    and ok :: "'e \<Rightarrow> bool"
  assumes step_inv: "inv s \<Longrightarrow> ok e \<Longrightarrow> inv (step s e)"
begin

lemma run_inv: "inv s \<Longrightarrow> list_all ok es \<Longrightarrow> inv (foldl step s es)"
  by (induction es arbitrary: s) (auto intro: step_inv)

lemma run_snoc_inv: "inv (foldl step s es) \<Longrightarrow> ok e \<Longrightarrow> inv (foldl step s (es @ [e]))"
  by (simp add: step_inv)

end

end
