(* ===== verification/Go_Strings.thy ===== *)
theory Go_Strings
  imports MD_Prelude
begin

section \<open>The Go string and number routines the code uses\<close>

text \<open>
  Models of the functions of Go's standard library that the source calls on strings:
  \<open>strings.TrimSpace\<close>, \<open>strings.ToLower\<close>, \<open>strings.HasPrefix\<close>, \<open>strings.TrimPrefix\<close>,
  \<open>strings.Cut\<close>, \<open>strings.LastIndexByte\<close>, \<open>strings.SplitN\<close>, \<open>strings.Join\<close>, \<open>strconv.ParseInt\<close>,
  \<open>strconv.Atoi\<close>, \<open>strconv.FormatInt\<close>. Strings are UTF-8 byte lists, as in Go. The lemmas are
  the ones the components rest on: trimming is idempotent, parsing inverts formatting, and cutting
  at a separator inverts joining.
\<close>

subsection \<open>White space\<close>

text \<open>
  The UTF-8 encodings of the code points \<open>unicode.IsSpace\<close> accepts: the six ASCII ones, U+0085,
  U+00A0, U+1680, U+2000 to U+200A, U+2028, U+2029, U+202F, U+205F and U+3000.
\<close>

definition space_encodings :: "string list" where
  "space_encodings =
     map (\<lambda>n. [char_of (n :: nat)]) [9, 10, 11, 12, 13, 32] @
     map (map (char_of :: nat \<Rightarrow> char))
       ([[194, 133], [194, 160], [225, 154, 128]] @
        map (\<lambda>k. [226, 128, k]) ([128..<139] @ [168, 169, 175]) @
        [[226, 129, 159], [227, 128, 128]])"

text \<open>Removing encodings of a set from the front, as \<open>TrimLeftFunc\<close> does rune by rune.\<close>

function trim_front :: "string list \<Rightarrow> string \<Rightarrow> string" where
  "trim_front ws s =
     (case find (\<lambda>w. w \<noteq> [] \<and> prefix w s) ws of
        None \<Rightarrow> s
      | Some w \<Rightarrow> trim_front ws (drop (length w) s))"
  by pat_completeness auto
termination
proof (relation "measure (\<lambda>(ws, s). length s)")
  fix ws :: "string list" and s w
  assume "find (\<lambda>w. w \<noteq> [] \<and> prefix w s) ws = Some w"
  then have "w \<noteq> []" "prefix w s" by (auto dest: find_Some_iff_mem)
  then show "((ws, drop (length w) s), (ws, s)) \<in> measure (\<lambda>(ws, s). length s)"
    by (cases w; cases s) auto
qed simp

declare trim_front.simps [simp del]

definition trim_left :: "string \<Rightarrow> string" where
  "trim_left s = trim_front space_encodings s"

definition trim_right :: "string \<Rightarrow> string" where
  "trim_right s = rev (trim_front (map rev space_encodings) (rev s))"

definition TrimSpace :: "string \<Rightarrow> string" where
  "TrimSpace s = trim_right (trim_left s)"

subsection \<open>Lower case\<close>

text \<open>
  \<open>strings.ToLower\<close> on the strings the code compares with ASCII constants. ASCII letters are
  mapped; two code points outside ASCII have an ASCII lower case (U+0130 and U+212A); every other
  byte sequence outside ASCII stays outside ASCII in Go and is left as it is here, which is the
  same for a comparison with an ASCII constant.
\<close>

definition lower_char :: "char \<Rightarrow> char" where
  "lower_char c = (if 65 \<le> (of_char c :: nat) \<and> (of_char c :: nat) \<le> 90
                   then char_of ((of_char c :: nat) + 32) else c)"

fun ToLower :: "string \<Rightarrow> string" where
  "ToLower (a # b # c # s) =
     (if a = char_of (226::nat) \<and> b = char_of (132::nat) \<and> c = char_of (170::nat)
      then CHR ''k'' # ToLower s
      else if a = char_of (196::nat) \<and> b = char_of (176::nat) then CHR ''i'' # ToLower (c # s)
      else lower_char a # ToLower (b # c # s))"
| "ToLower [a, b] =
     (if a = char_of (196::nat) \<and> b = char_of (176::nat) then ''i''
      else [lower_char a, lower_char b])"
| "ToLower [a] = [lower_char a]"
| "ToLower [] = []"

subsection \<open>Prefixes, cutting and splitting\<close>

definition HasPrefix :: "string \<Rightarrow> string \<Rightarrow> bool" where
  "HasPrefix s p \<longleftrightarrow> prefix p s"

definition TrimPrefix :: "string \<Rightarrow> string \<Rightarrow> string" where
  "TrimPrefix s p = (if prefix p s then drop (length p) s else s)"

text \<open>\<open>strings.Cut(s, sep)\<close> at a one-byte separator: the parts around the first occurrence.\<close>

definition cut_first :: "char \<Rightarrow> string \<Rightarrow> (string \<times> string) option" where
  "cut_first c s =
     (case dropWhile (\<lambda>x. x \<noteq> c) s of [] \<Rightarrow> None
      | _ # r \<Rightarrow> Some (takeWhile (\<lambda>x. x \<noteq> c) s, r))"

text \<open>The parts around the last occurrence, as \<open>LastIndexByte\<close> and two slices give them.\<close>

definition cut_last :: "char \<Rightarrow> string \<Rightarrow> (string \<times> string) option" where
  "cut_last c s =
     (case cut_first c (rev s) of None \<Rightarrow> None | Some (a, b) \<Rightarrow> Some (rev b, rev a))"

text \<open>\<open>strings.Split\<close> at a one-byte separator; \<open>SplitN(s, sep, n)\<close> with at most \<open>n\<close> parts.\<close>

fun split_on :: "char \<Rightarrow> string \<Rightarrow> string list" where
  "split_on c [] = [[]]"
| "split_on c (x # xs) =
     (if x = c then [] # split_on c xs
      else (case split_on c xs of [] \<Rightarrow> [[x]] | w # ws \<Rightarrow> (x # w) # ws))"

fun splitN :: "nat \<Rightarrow> char \<Rightarrow> string \<Rightarrow> string list" where
  "splitN 0 c s = []"
| "splitN (Suc 0) c s = [s]"
| "splitN (Suc (Suc n)) c s =
     (case cut_first c s of None \<Rightarrow> [s] | Some (a, b) \<Rightarrow> a # splitN (Suc n) c b)"

text \<open>\<open>strings.Join\<close>.\<close>

fun Join :: "string list \<Rightarrow> string \<Rightarrow> string" where
  "Join [] sep = []"
| "Join [x] sep = x"
| "Join (x # y # ys) sep = x @ sep @ Join (y # ys) sep"

subsection \<open>Decimal integers\<close>

definition is_digit :: "char \<Rightarrow> bool" where
  "is_digit c \<longleftrightarrow> 48 \<le> (of_char c :: nat) \<and> (of_char c :: nat) \<le> 57"

definition digit_val :: "char \<Rightarrow> nat" where
  "digit_val c = of_char c - 48"

definition digit_char :: "nat \<Rightarrow> char" where
  "digit_char d = char_of (48 + d)"

definition digits_val :: "string \<Rightarrow> nat" where
  "digits_val s = foldl (\<lambda>acc c. 10 * acc + digit_val c) 0 s"

fun nat_string :: "nat \<Rightarrow> string" where
  "nat_string n =
     (if n < 10 then [digit_char n] else nat_string (n div 10) @ [digit_char (n mod 10)])"

declare nat_string.simps [simp del]

definition FormatInt :: "int \<Rightarrow> string" where
  "FormatInt i = (if i < 0 then CHR ''-'' # nat_string (nat (- i)) else nat_string (nat i))"

text \<open>\<open>strconv.ParseInt(s, 10, bits)\<close>: \<open>None\<close> is a syntax or range error.\<close>

definition parse_unsigned :: "string \<Rightarrow> nat option" where
  "parse_unsigned s = (if s \<noteq> [] \<and> list_all is_digit s then Some (digits_val s) else None)"

definition split_sign :: "string \<Rightarrow> bool \<times> string" where
  "split_sign s =
     (case s of [] \<Rightarrow> (False, [])
      | c # r \<Rightarrow> if c = CHR ''-'' then (True, r) else if c = CHR ''+'' then (False, r)
                 else (False, s))"

definition ParseInt :: "nat \<Rightarrow> string \<Rightarrow> int option" where
  "ParseInt bits s =
     (case split_sign s of (neg, r) \<Rightarrow>
        (case parse_unsigned r of None \<Rightarrow> None
         | Some n \<Rightarrow>
             let v = (if neg then - int n else int n)
             in if - (2 ^ (bits - 1)) \<le> v \<and> v < 2 ^ (bits - 1) then Some v else None))"

definition Atoi :: "string \<Rightarrow> int option" where
  "Atoi s = ParseInt 64 s"

subsection \<open>Trimming\<close>

lemma trim_front_suffix: "\<exists>p. s = p @ trim_front ws s"
proof (induction ws s rule: trim_front.induct)
  case (1 ws s)
  show ?case
  proof (cases "find (\<lambda>w. w \<noteq> [] \<and> prefix w s) ws")
    case None
    then show ?thesis by (simp add: trim_front.simps [of ws s])
  next
    case (Some w)
    then have "prefix w s" by (auto dest: find_Some_iff_mem)
    then have "s = w @ drop (length w) s" by (auto elim: prefixE)
    moreover from 1 [OF Some] obtain p where "drop (length w) s = p @ trim_front ws (drop (length w) s)"
      by blast
    ultimately have "s = (w @ p) @ trim_front ws s"
      using Some by (simp add: trim_front.simps [of ws s])
    then show ?thesis by blast
  qed
qed

lemma trim_front_done: "find (\<lambda>w. w \<noteq> [] \<and> prefix w (trim_front ws s)) ws = None"
proof (induction ws s rule: trim_front.induct)
  case (1 ws s)
  then show ?case
    by (cases "find (\<lambda>w. w \<noteq> [] \<and> prefix w s) ws") (simp_all add: trim_front.simps [of ws s])
qed

lemma trim_front_id: "find (\<lambda>w. w \<noteq> [] \<and> prefix w s) ws = None \<Longrightarrow> trim_front ws s = s"
  by (simp add: trim_front.simps)

lemma trim_right_prefix: "prefix (trim_right s) s"
proof -
  obtain p where "rev s = p @ trim_front (map rev space_encodings) (rev s)"
    using trim_front_suffix by blast
  then have "s = trim_right s @ rev p"
    unfolding trim_right_def by (metis rev_append rev_rev_ident)
  then show ?thesis by (rule prefixI)
qed

lemma trim_left_done: "find (\<lambda>w. w \<noteq> [] \<and> prefix w (TrimSpace s)) space_encodings = None"
proof -
  have "find (\<lambda>w. w \<noteq> [] \<and> prefix w (trim_left s)) space_encodings = None"
    unfolding trim_left_def by (rule trim_front_done)
  then show ?thesis
    using trim_right_prefix [of "trim_left s"]
    by (auto simp: TrimSpace_def find_None_iff dest: prefix_order.trans)
qed

text \<open>A trimmed string is not changed by trimming again.\<close>

lemma TrimSpace_idem [simp]: "TrimSpace (TrimSpace s) = TrimSpace s"
proof -
  have "trim_left (TrimSpace s) = TrimSpace s"
    unfolding trim_left_def by (rule trim_front_id) (rule trim_left_done)
  moreover have "trim_right (trim_right t) = trim_right t" for t
    by (simp add: trim_right_def trim_front_id trim_front_done)
  ultimately show ?thesis by (simp add: TrimSpace_def)
qed

lemma TrimSpace_Nil [simp]: "TrimSpace [] = []"
  using trim_right_prefix [of "[]"] trim_front_suffix [of "[]"]
  by (simp add: TrimSpace_def trim_left_def)

text \<open>
  A string that starts and ends with a graphic ASCII character has nothing to trim; this decides
  trimming on concrete strings.
\<close>

definition graphic :: "char \<Rightarrow> bool" where
  "graphic c \<longleftrightarrow> 33 \<le> (of_char c :: nat) \<and> (of_char c :: nat) \<le> 126"

lemma space_encodings_not_graphic:
  "w \<in> set space_encodings \<Longrightarrow> \<not> graphic (hd w) \<and> \<not> graphic (last w)"
  by (auto simp: space_encodings_def graphic_def upt_rec)

lemma TrimSpace_graphic: "graphic (hd s) \<Longrightarrow> graphic (last s) \<Longrightarrow> TrimSpace s = s"
proof (cases "s = []")
  case False
  assume hd: "graphic (hd s)" and lst: "graphic (last s)"
  have "\<not> prefix w s" if "w \<in> set space_encodings" "w \<noteq> []" for w
    using that hd False space_encodings_not_graphic [OF that(1)] by (auto simp: prefix_def)
  then have "trim_left s = s"
    by (auto simp: trim_left_def find_None_iff intro!: trim_front_id)
  moreover have "\<not> prefix (rev w) (rev s)" if "w \<in> set space_encodings" "w \<noteq> []" for w
    using that lst False space_encodings_not_graphic [OF that(1)]
    by (auto simp: prefix_def hd_rev rev_eq_append_conv)
  then have "trim_front (map rev space_encodings) (rev s) = rev s"
    by (intro trim_front_id) (auto simp: find_None_iff)
  then have "trim_right s = s"
    by (simp add: trim_right_def)
  ultimately show ?thesis by (simp add: TrimSpace_def)
qed simp

subsection \<open>Cutting and splitting\<close>

lemma cut_first_Some [simp]: "c \<notin> set a \<Longrightarrow> cut_first c (a @ c # b) = Some (a, b)"
  by (simp add: cut_first_def dropWhile_append takeWhile_append)

lemma cut_first_None [simp]: "c \<notin> set s \<Longrightarrow> cut_first c s = None"
  by (auto simp: cut_first_def dropWhile_eq_Cons_conv split: list.splits)
     (metis in_set_conv_decomp takeWhile_dropWhile_id)

lemma cut_first_join: "cut_first c s = Some (a, b) \<Longrightarrow> s = a @ c # b \<and> c \<notin> set a"
proof -
  assume "cut_first c s = Some (a, b)"
  then obtain x where d: "dropWhile (\<lambda>x. x \<noteq> c) s = x # b" and a: "a = takeWhile (\<lambda>x. x \<noteq> c) s"
    by (auto simp: cut_first_def split: list.splits)
  then have "x = c" by (metis (full_types) dropWhile_eq_Cons_conv)
  with d a show ?thesis
    by (metis (mono_tags, lifting) set_takeWhileD takeWhile_dropWhile_id)
qed

lemma cut_last_Some [simp]: "c \<notin> set b \<Longrightarrow> cut_last c (a @ c # b) = Some (a, b)"
  by (simp add: cut_last_def)

lemma cut_last_join: "cut_last c s = Some (a, b) \<Longrightarrow> s = a @ c # b \<and> c \<notin> set b"
  by (auto simp: cut_last_def split: option.splits dest!: cut_first_join)
     (metis append.assoc append_Cons append_Nil rev.simps(2) rev_append rev_rev_ident)

lemma split_on_append: "c \<notin> set a \<Longrightarrow> split_on c (a @ c # b) = a # split_on c b"
  by (induction a) auto

lemma split_on_Join:
  "xs \<noteq> [] \<Longrightarrow> list_all (\<lambda>x. c \<notin> set x) xs \<Longrightarrow> split_on c (Join xs [c]) = xs"
proof (induction xs "[c]" rule: Join.induct)
  case (2 x)
  have "c \<notin> set x \<Longrightarrow> split_on c x = [x]" for x by (induction x) auto
  with 2 show ?case by simp
qed (simp_all add: split_on_append)

lemma TrimPrefix_append [simp]: "TrimPrefix (p @ s) p = s"
  by (simp add: TrimPrefix_def)

lemma HasPrefix_append [simp]: "HasPrefix (p @ s) p"
  by (simp add: HasPrefix_def)

lemma HasPrefix_TrimPrefix: "HasPrefix s p \<Longrightarrow> p @ TrimPrefix s p = s"
  by (auto simp: HasPrefix_def TrimPrefix_def elim: prefixE)

subsection \<open>Integers\<close>

lemma digit_char_inverse: "d < 10 \<Longrightarrow> is_digit (digit_char d) \<and> digit_val (digit_char d) = d"
  by (simp add: is_digit_def digit_val_def digit_char_def)

lemma digits_val_snoc: "digits_val (s @ [c]) = 10 * digits_val s + digit_val c"
  by (simp add: digits_val_def)

lemma nat_string_digits: "list_all is_digit (nat_string n) \<and> nat_string n \<noteq> []"
proof (induction n rule: nat_string.induct)
  case (1 n)
  then show ?case
    by (cases "n < 10") (simp_all add: nat_string.simps [of n] digit_char_inverse)
qed

lemma digits_val_nat_string [simp]: "digits_val (nat_string n) = n"
proof (induction n rule: nat_string.induct)
  case (1 n)
  show ?case
  proof (cases "n < 10")
    case True
    then show ?thesis
      by (simp add: nat_string.simps [of n] digits_val_def digit_char_inverse)
  next
    case False
    then show ?thesis
      using 1 by (simp add: nat_string.simps [of n] digits_val_snoc digit_char_inverse)
  qed
qed

lemma parse_unsigned_nat_string [simp]: "parse_unsigned (nat_string n) = Some n"
  using nat_string_digits [of n] by (simp add: parse_unsigned_def)

lemma split_sign_nat_string [simp]: "split_sign (nat_string n) = (False, nat_string n)"
proof (cases "nat_string n")
  case Nil
  then show ?thesis using nat_string_digits [of n] by simp
next
  case (Cons c r)
  then have "is_digit c" using nat_string_digits [of n] by simp
  with Cons show ?thesis by (auto simp: split_sign_def is_digit_def)
qed

text \<open>\<open>ParseInt\<close> inverts \<open>FormatInt\<close> on the integers of its width.\<close>

lemma ParseInt_FormatInt:
  assumes "- (2 ^ (bits - 1)) \<le> i" "i < 2 ^ (bits - 1)"
  shows "ParseInt bits (FormatInt i) = Some i"
proof (cases "i < 0")
  case True
  then have "split_sign (FormatInt i) = (True, nat_string (nat (- i)))"
    by (simp add: FormatInt_def split_sign_def)
  with True assms show ?thesis by (simp add: ParseInt_def Let_def)
next
  case False
  then have "split_sign (FormatInt i) = (False, nat_string (nat i))"
    by (simp add: FormatInt_def)
  with False assms show ?thesis by (simp add: ParseInt_def Let_def)
qed

lemma ParseInt_range: "ParseInt bits s = Some v \<Longrightarrow> - (2 ^ (bits - 1)) \<le> v \<and> v < 2 ^ (bits - 1)"
  by (auto simp: ParseInt_def Let_def split: prod.splits option.splits if_splits)

lemma ParseInt64_range: "ParseInt 64 s = Some v \<Longrightarrow> in_int64 v"
  by (drule ParseInt_range) (simp add: in_int64_def min_int64_def max_int64_def)

lemma FormatInt_no_bar: "CHR ''|'' \<notin> set (FormatInt i)"
proof -
  have "CHR ''|'' \<notin> set (nat_string n)" for n
    using nat_string_digits [of n] by (auto simp: list_all_iff is_digit_def)
  then show ?thesis by (simp add: FormatInt_def)
qed

subsection \<open>A blank text\<close>

lemma trim_front_Nil: "trim_front ws [] = []"
proof -
  have "find (\<lambda>w. w \<noteq> [] \<and> prefix w []) ws = None" by (auto simp: find_None_iff)
  then show ?thesis by (simp add: trim_front.simps)
qed

lemma trim_front_single:
  assumes "[c] \<in> set ws"
  shows "trim_front ws [c] = []"
proof -
  obtain w where w: "find (\<lambda>w. w \<noteq> [] \<and> prefix w [c]) ws = Some w"
    using assms by (cases "find (\<lambda>w. w \<noteq> [] \<and> prefix w [c]) ws") (auto simp: find_None_iff)
  then have "w \<noteq> []" "prefix w [c]" by (auto dest: find_Some_iff_mem)
  then have "w = [c]" by (cases w) auto
  then show ?thesis using w by (subst trim_front.simps) (simp add: trim_front_Nil)
qed

lemma TrimSpace_blank: "TrimSpace '' '' = []"
proof -
  have "[char_of (32::nat)] \<in> set (map (\<lambda>n. [char_of (n :: nat)]) [9, 10, 11, 12, 13, 32])" unfolding set_map by (rule imageI) simp
  then have "[char_of (32::nat)] \<in> set space_encodings" unfolding space_encodings_def set_append by (rule UnI1)
  moreover have "char_of (32::nat) = CHR '' ''" by code_simp
  ultimately have "'' '' \<in> set space_encodings" by simp
  then show ?thesis by (simp add: TrimSpace_def trim_left_def trim_right_def trim_front_single trim_front_Nil)
qed

end
