(* ===== verification/Domain_Model.thy ===== *)
theory Domain_Model
  imports Go_Strings
begin

section \<open>Domain model: internal/model\<close>

text \<open>
  The data of the system, from \<^verbatim>\<open>internal/model/model.go\<close>, and the identifier scheme of
  \<^verbatim>\<open>internal/model/streamkey.go\<close>. A Go struct is a record whose fields carry a short type tag (Go
  has one namespace of fields per struct, Isabelle one per theory), a pointer field is an
  \<open>option\<close>, a slice a list. The string enumerations stay strings, as in the source.
  The lemmas show the stream-key scheme to be a bijection between valid (kind, interval) pairs and
  valid keys, and the derived group and input ids to be injective where their parts carry no colon.
\<close>

subsection \<open>Enumerations\<close>

definition DesiredStatusRunning :: string where "DesiredStatusRunning = ''running''"
definition DesiredStatusPaused :: string where "DesiredStatusPaused = ''paused''"
definition DesiredStatusDisabled :: string where "DesiredStatusDisabled = ''disabled''"

definition StreamKindTrade :: string where "StreamKindTrade = ''trade''"
definition StreamKindKline :: string where "StreamKindKline = ''kline''"
definition StreamKindOrderBookDelta :: string where "StreamKindOrderBookDelta = ''orderbook_delta''"
definition StreamKindOrderBookSnapshot :: string where
  "StreamKindOrderBookSnapshot = ''orderbook_snapshot''"

definition TradeSideBuy :: string where "TradeSideBuy = ''buy''"
definition TradeSideSell :: string where "TradeSideSell = ''sell''"

definition KlineSourceExchange :: string where "KlineSourceExchange = ''exchange''"
definition KlineSourceComputed :: string where "KlineSourceComputed = ''computed''"

definition NodeStatusAlive :: string where "NodeStatusAlive = ''alive''"
definition NodeStatusDraining :: string where "NodeStatusDraining = ''draining''"
definition NodeStatusDead :: string where "NodeStatusDead = ''dead''"

definition ActualStatusPending :: string where "ActualStatusPending = ''pending''"
definition ActualStatusStarting :: string where "ActualStatusStarting = ''starting''"
definition ActualStatusRunning :: string where "ActualStatusRunning = ''running''"
definition ActualStatusPaused :: string where "ActualStatusPaused = ''paused''"
definition ActualStatusError :: string where "ActualStatusError = ''error''"
definition ActualStatusStopped :: string where "ActualStatusStopped = ''stopped''"

definition DesiredStatuses :: "string list" where
  "DesiredStatuses = [DesiredStatusRunning, DesiredStatusPaused, DesiredStatusDisabled]"

definition StreamKinds :: "string list" where
  "StreamKinds =
     [StreamKindTrade, StreamKindKline, StreamKindOrderBookDelta, StreamKindOrderBookSnapshot]"

definition MarketTypes :: "string list" where
  "MarketTypes = [''spot'', ''margin'', ''futures'', ''swap'', ''option'']"

definition NodeStatuses :: "string list" where
  "NodeStatuses = [NodeStatusAlive, NodeStatusDraining, NodeStatusDead]"

definition IsValidDesiredStatus :: "string \<Rightarrow> bool" where
  "IsValidDesiredStatus s \<longleftrightarrow> s \<in> set DesiredStatuses"

definition IsValidStreamKind :: "string \<Rightarrow> bool" where
  "IsValidStreamKind s \<longleftrightarrow> s \<in> set StreamKinds"

definition IsValidMarketType :: "string \<Rightarrow> bool" where
  "IsValidMarketType s \<longleftrightarrow> s \<in> set MarketTypes"

definition IsValidNodeStatus :: "string \<Rightarrow> bool" where
  "IsValidNodeStatus s \<longleftrightarrow> s \<in> set NodeStatuses"

subsection \<open>Entities\<close>

record GroupInput =
  gi_InputID :: string
  gi_GroupID :: string
  gi_StreamKey :: string
  gi_StreamKind :: string
  gi_Interval :: string
  gi_Enabled :: bool
  gi_KafkaCluster :: string
  gi_KafkaTopic :: string
  gi_KafkaGroupID :: string
  gi_DesiredStatus :: string
  gi_SchemaVersion :: goint
  gi_CreatedAt :: time
  gi_UpdatedAt :: time

record MarketGroup =
  mg_GroupID :: string
  mg_Exchange :: string
  mg_MarketType :: string
  mg_Symbol :: string
  mg_BaseAsset :: string
  mg_QuoteAsset :: string
  mg_DesiredStatus :: string
  mg_Weight :: goint
  mg_Inputs :: "GroupInput list"
  mg_CreatedAt :: time
  mg_UpdatedAt :: time

record RuntimeNode =
  rn_NodeID :: string
  rn_Hostname :: string
  rn_PodName :: string
  rn_Status :: string
  rn_MaxGroups :: goint
  rn_CurrentGroups :: goint
  rn_MaxWeight :: goint
  rn_CurrentWeight :: goint
  rn_LastHeartbeatAt :: time
  rn_CreatedAt :: time
  rn_UpdatedAt :: time

record RuntimeCapacity =
  rc_CurrentGroups :: goint
  rc_CurrentWeight :: goint

record GroupLease =
  gl_GroupID :: string
  gl_NodeID :: string
  gl_LeaseExpiresAt :: time
  gl_Version :: int64
  gl_AcquiredAt :: time
  gl_UpdatedAt :: time

record StreamRuntimeStatus =
  ss_InputID :: string
  ss_GroupID :: string
  ss_StreamKey :: string
  ss_NodeID :: string
  ss_ActualStatus :: string
  ss_KafkaPartition :: "goint option"
  ss_KafkaLag :: "int64 option"
  ss_CommittedOffset :: "int64 option"
  ss_HighWatermarkOffset :: "int64 option"
  ss_LastEventTime :: "time option"
  ss_LastProcessedTime :: "time option"
  ss_LastError :: string
  ss_UpdatedAt :: time

record PriceLevel =
  pl_Price :: string
  pl_Quantity :: string

record Trade =
  tr_ID :: int64
  tr_GroupID :: string
  tr_InputID :: string
  tr_EventTime :: time
  tr_ExchangeTime :: "time option"
  tr_LocalReceiveTime :: "time option"
  tr_TradeID :: string
  tr_RawTradeID :: string
  tr_Price :: string
  tr_Quantity :: string
  tr_Side :: string
  tr_IsAggregated :: bool
  tr_KafkaTopic :: string
  tr_KafkaPartition :: goint
  tr_KafkaOffset :: int64
  tr_SchemaVersion :: goint
  tr_IngestedAt :: time

record Kline =
  kl_GroupID :: string
  kl_InputID :: string
  kl_Source :: string
  kl_Interval :: string
  kl_OpenTime :: time
  kl_CloseTime :: time
  kl_Open :: string
  kl_High :: string
  kl_Low :: string
  kl_Close :: string
  kl_Volume :: string
  kl_QuoteVolume :: string
  kl_TradeCount :: int64
  kl_IsClosed :: bool
  kl_Revision :: int64
  kl_KafkaTopic :: string
  kl_KafkaPartition :: goint
  kl_KafkaOffset :: int64
  kl_UpdatedAt :: time

record OrderBookDelta =
  ob_GroupID :: string
  ob_InputID :: string
  ob_EventTime :: time
  ob_ExchangeTime :: "time option"
  ob_LocalReceiveTime :: "time option"
  ob_RawEventID :: string
  ob_FirstUpdateID :: "int64 option"
  ob_LastUpdateID :: "int64 option"
  ob_PrevUpdateID :: "int64 option"
  ob_Sequence :: "int64 option"
  ob_Bids :: "PriceLevel list"
  ob_Asks :: "PriceLevel list"
  ob_RawPayload :: bytes
  ob_KafkaTopic :: string
  ob_KafkaPartition :: goint
  ob_KafkaOffset :: int64
  ob_IngestedAt :: time

record StreamWriteProgress =
  wp_InputID :: string
  wp_KafkaPartition :: goint
  wp_DurableOffset :: int64
  wp_LastRawEventID :: string
  wp_LastUpdateID :: "int64 option"
  wp_LastSequence :: "int64 option"
  wp_UpdatedAt :: time

record OrderBookSnapshot =
  sn_SnapshotID :: int64
  sn_GroupID :: string
  sn_InputID :: string
  sn_SnapshotTime :: time
  sn_Sequence :: "int64 option"
  sn_Bids :: "PriceLevel list"
  sn_Asks :: "PriceLevel list"
  sn_CreatedAt :: time

record PoisonRecord =
  pr_InputID :: string
  pr_GroupID :: string
  pr_StreamKind :: string
  pr_Topic :: string
  pr_Partition :: goint
  pr_Offset :: int64
  pr_ErrorMessage :: string
  pr_RawPayload :: bytes
  pr_RecordedAt :: time

text \<open>A consumed Kafka record (\<^verbatim>\<open>internal/kafka/consumer.go\<close>).\<close>

record KafkaMessage =
  km_Topic :: string
  km_Partition :: goint
  km_Offset :: int64
  km_Key :: bytes
  km_Value :: bytes
  km_Time :: time
  km_HighWatermark :: int64

text \<open>
  \<open>zero_delta\<close> is the zero \<open>OrderBookDelta\<close>, the value a Go composite literal gives to the fields
  it does not name and a lookup of a missing map key returns.
\<close>

definition zero_delta :: OrderBookDelta where
  "zero_delta =
     \<lparr> ob_GroupID = [], ob_InputID = [], ob_EventTime = zero_time, ob_ExchangeTime = None,
       ob_LocalReceiveTime = None, ob_RawEventID = [], ob_FirstUpdateID = None,
       ob_LastUpdateID = None, ob_PrevUpdateID = None, ob_Sequence = None, ob_Bids = [],
       ob_Asks = [], ob_RawPayload = [], ob_KafkaTopic = [], ob_KafkaPartition = 0,
       ob_KafkaOffset = 0, ob_IngestedAt = zero_time \<rparr>"

subsection \<open>Identifiers and stream keys\<close>

definition klineStreamKeyPrefix :: string where
  "klineStreamKeyPrefix = ''kline_''"

definition NewGroupID :: "string \<Rightarrow> string \<Rightarrow> string \<Rightarrow> string" where
  "NewGroupID exchange marketType symbol =
     TrimSpace exchange @ '':'' @ TrimSpace marketType @ '':'' @ TrimSpace symbol"

definition NewInputID :: "string \<Rightarrow> string \<Rightarrow> string" where
  "NewInputID groupID streamKey = groupID @ '':'' @ streamKey"

definition DefaultKafkaGroupID :: "string \<Rightarrow> string \<Rightarrow> string" where
  "DefaultKafkaGroupID groupID streamKey = ''md-runtime.'' @ groupID @ ''.'' @ streamKey"

datatype stream_key_error =
    MustNotCarryInterval string
  | KlineRequiresInterval
  | InvalidStreamKind string
  | MissingInterval string
  | UnrecognizedStreamKey string

definition StreamKeyFor :: "string \<Rightarrow> string \<Rightarrow> stream_key_error + string" where
  "StreamKeyFor kind interval =
     (if kind = StreamKindTrade \<or> kind = StreamKindOrderBookDelta \<or> kind = StreamKindOrderBookSnapshot
      then (if interval \<noteq> [] then Inl (MustNotCarryInterval kind) else Inr kind)
      else if kind = StreamKindKline
      then (if interval = [] then Inl KlineRequiresInterval else Inr (klineStreamKeyPrefix @ interval))
      else Inl (InvalidStreamKind kind))"

definition ParseStreamKey :: "string \<Rightarrow> stream_key_error + (string \<times> string)" where
  "ParseStreamKey streamKey =
     (if streamKey = StreamKindTrade \<or> streamKey = StreamKindOrderBookDelta
         \<or> streamKey = StreamKindOrderBookSnapshot
      then Inr (streamKey, [])
      else if HasPrefix streamKey klineStreamKeyPrefix
      then (let interval = TrimPrefix streamKey klineStreamKeyPrefix
            in if interval = [] then Inl (MissingInterval streamKey)
               else Inr (StreamKindKline, interval))
      else Inl (UnrecognizedStreamKey streamKey))"

lemmas kind_defs = StreamKindTrade_def StreamKindKline_def StreamKindOrderBookDelta_def
  StreamKindOrderBookSnapshot_def

lemmas status_defs = DesiredStatusRunning_def DesiredStatusPaused_def DesiredStatusDisabled_def
  ActualStatusPending_def ActualStatusStarting_def ActualStatusRunning_def ActualStatusPaused_def
  ActualStatusError_def ActualStatusStopped_def NodeStatusAlive_def NodeStatusDraining_def
  NodeStatusDead_def

declare kind_defs [go_simps] status_defs [go_simps] klineStreamKeyPrefix_def [go_simps]

subsection \<open>The stream-key scheme\<close>

lemma kinds_distinct [simp]:
  "StreamKindKline \<noteq> StreamKindTrade" "StreamKindTrade \<noteq> StreamKindKline"
  "StreamKindKline \<noteq> StreamKindOrderBookDelta" "StreamKindOrderBookDelta \<noteq> StreamKindKline"
  "StreamKindKline \<noteq> StreamKindOrderBookSnapshot" "StreamKindOrderBookSnapshot \<noteq> StreamKindKline"
  "StreamKindTrade \<noteq> StreamKindOrderBookDelta" "StreamKindOrderBookDelta \<noteq> StreamKindTrade"
  "StreamKindTrade \<noteq> StreamKindOrderBookSnapshot" "StreamKindOrderBookSnapshot \<noteq> StreamKindTrade"
  "StreamKindOrderBookDelta \<noteq> StreamKindOrderBookSnapshot"
  "StreamKindOrderBookSnapshot \<noteq> StreamKindOrderBookDelta"
  by (simp_all add: kind_defs)

lemma kline_key_not_plain:
  "klineStreamKeyPrefix @ i \<noteq> StreamKindTrade"
  "klineStreamKeyPrefix @ i \<noteq> StreamKindOrderBookDelta"
  "klineStreamKeyPrefix @ i \<noteq> StreamKindOrderBookSnapshot"
  by (simp_all add: klineStreamKeyPrefix_def kind_defs)

lemma plain_kind_no_kline_prefix:
  "\<not> HasPrefix StreamKindTrade klineStreamKeyPrefix"
  "\<not> HasPrefix StreamKindOrderBookDelta klineStreamKeyPrefix"
  "\<not> HasPrefix StreamKindOrderBookSnapshot klineStreamKeyPrefix"
  by (simp_all add: HasPrefix_def klineStreamKeyPrefix_def kind_defs)

lemma ParseStreamKey_StreamKeyFor:
  assumes "StreamKeyFor kind interval = Inr key"
  shows "ParseStreamKey key = Inr (kind, interval)"
  using assms
  by (auto simp: StreamKeyFor_def ParseStreamKey_def Let_def kline_key_not_plain
      split: if_splits)

lemma StreamKeyFor_ParseStreamKey:
  assumes "ParseStreamKey key = Inr (kind, interval)"
  shows "StreamKeyFor kind interval = Inr key"
  using assms
  by (auto simp: StreamKeyFor_def ParseStreamKey_def Let_def HasPrefix_TrimPrefix split: if_splits)

lemma StreamKeyFor_defined_iff:
  "(\<exists>key. StreamKeyFor kind interval = Inr key) \<longleftrightarrow>
     IsValidStreamKind kind \<and> (kind = StreamKindKline \<longleftrightarrow> interval \<noteq> [])"
  by (auto simp: StreamKeyFor_def IsValidStreamKind_def StreamKinds_def)

text \<open>
  \<^verbatim>\<open>StreamKeyFor\<close> and \<^verbatim>\<open>ParseStreamKey\<close> are inverse to each other: a key built from a (kind,
  interval) pair parses back to that pair, a key that parses is rebuilt from its parts, and a key
  can be built exactly for the valid kinds with an interval exactly for klines.
\<close>

theorem stream_key_roundtrip:
  "(StreamKeyFor kind interval = Inr key \<longleftrightarrow> ParseStreamKey key = Inr (kind, interval)) \<and>
   ((\<exists>k. StreamKeyFor kind interval = Inr k) \<longleftrightarrow>
      IsValidStreamKind kind \<and> (kind = StreamKindKline \<longleftrightarrow> interval \<noteq> []))"
  using ParseStreamKey_StreamKeyFor StreamKeyFor_ParseStreamKey StreamKeyFor_defined_iff by blast

subsection \<open>Injectivity of the derived ids\<close>

lemma first_colon_split:
  fixes c :: char
  assumes "a @ c # b = a' @ c # b'" "c \<notin> set a" "c \<notin> set a'"
  shows "a = a' \<and> b = b'"
proof -
  have "cut_first c (a @ c # b) = Some (a', b')"
    unfolding assms(1) by (rule cut_first_Some) (rule assms(3))
  then show ?thesis by (simp add: assms(2))
qed

lemma market_type_no_colon: "IsValidMarketType m \<Longrightarrow> CHR '':'' \<notin> set m \<and> TrimSpace m = m"
proof -
  have "TrimSpace ''spot'' = ''spot''" "TrimSpace ''margin'' = ''margin''"
    "TrimSpace ''futures'' = ''futures''" "TrimSpace ''swap'' = ''swap''"
    "TrimSpace ''option'' = ''option''"
    by (simp_all add: TrimSpace_graphic graphic_def)
  then show "IsValidMarketType m \<Longrightarrow> CHR '':'' \<notin> set m \<and> TrimSpace m = m"
    by (auto simp: IsValidMarketType_def MarketTypes_def)
qed

lemma NewGroupID_inj:
  assumes "NewGroupID e m s = NewGroupID e' m' s'"
    and "IsValidMarketType m" "IsValidMarketType m'"
    and "CHR '':'' \<notin> set (TrimSpace e)" "CHR '':'' \<notin> set (TrimSpace e')"
  shows "TrimSpace e = TrimSpace e' \<and> m = m' \<and> TrimSpace s = TrimSpace s'"
proof -
  from assms(1) have eq: "TrimSpace e @ CHR '':'' # (TrimSpace m @ CHR '':'' # TrimSpace s) =
      TrimSpace e' @ CHR '':'' # (TrimSpace m' @ CHR '':'' # TrimSpace s')"
    by (simp add: NewGroupID_def)
  from first_colon_split [OF eq assms(4,5)]
  have "TrimSpace e = TrimSpace e'"
    and "TrimSpace m @ CHR '':'' # TrimSpace s = TrimSpace m' @ CHR '':'' # TrimSpace s'"
    by auto
  moreover from this(2) have "TrimSpace m = TrimSpace m' \<and> TrimSpace s = TrimSpace s'"
    by (rule first_colon_split) (simp_all add: market_type_no_colon assms(2,3))
  ultimately show ?thesis using assms(2,3) by (simp add: market_type_no_colon)
qed

end
