(* ===== verification/Metadata_Store.thy ===== *)
theory Metadata_Store
  imports Domain_Model
begin

section \<open>The metadata store: internal/metadata/postgres.go\<close>

text \<open>
  The control-plane tables (market groups, inputs, runtime nodes, leases, observed status) and every
  operation of \<^verbatim>\<open>PostgresStore\<close>. The constraints are those of the migrations: primary and unique
  keys, foreign keys with their cascades, and the CHECKs. Rows are the model's records; a nullable
  text column is written through \<open>nullIfEmpty\<close> and read through \<open>derefString\<close>, so \<open>NULL\<close> and the
  empty string are one value. \<open>now\<close> is the clock of the database. Each operation is one statement or
  one transaction and therefore atomic; its first argument says how the database fails.

  The lemmas show the integrity invariant of the tables, that normalised inputs satisfy every CHECK,
  and (through an interface locale) that leases of different nodes never overlap.
\<close>

subsection \<open>Tables and errors\<close>

record meta_db =
  md_groups :: "MarketGroup list"
  md_inputs :: "GroupInput list"
  md_nodes :: "RuntimeNode list"
  md_leases :: "string \<Rightarrow> GroupLease option"
  md_status :: "(string, StreamRuntimeStatus) gomap"

datatype meta_error =
    ErrConflict
  | ErrNotFound
  | RequiredFieldsMissing
  | InvalidMarketType string
  | InvalidDesiredStatus string
  | InvalidKind string
  | StreamKeyError stream_key_error
  | InconsistentStreamKey string string
  | InconsistentInterval string string
  | KeyOrKindRequired
  | KafkaTopicRequired string
  | InvalidNodeStatus string
  | TTLNotPositive
  | MetaDatabaseError

text \<open>
  A statement fails without effect (\<open>StmtFails\<close>, also when the server refuses a text: a NUL byte, bytes that
  are not UTF-8) or is applied although the client sees an error
  (\<open>StmtLost\<close>). A transaction fails at its begin, at the insert of the group, at its \<open>n\<close>-th input or
  at its commit, which the server may have applied.
\<close>

datatype stmt_fault = StmtOk | StmtFails | StmtLost
datatype tx_fault = TxOk | TxBeginFails | TxGroupFails | TxInputFails nat | TxCommitFails bool

definition run_stmt :: "stmt_fault \<Rightarrow> 'db \<Rightarrow> (meta_error + 'a) \<times> 'db \<Rightarrow> (meta_error + 'a) \<times> 'db" where
  "run_stmt fault db r =
     (case fault of
        StmtOk \<Rightarrow> r
      | StmtFails \<Rightarrow> (Inl MetaDatabaseError, db)
      | StmtLost \<Rightarrow> (Inl MetaDatabaseError, snd r))"

definition derefString :: "string option \<Rightarrow> string" where
  "derefString p = (case p of None \<Rightarrow> [] | Some s \<Rightarrow> s)"

definition nullIfEmptyText :: "string \<Rightarrow> string option" where
  "nullIfEmptyText s = (if s = [] then None else Some s)"

subsection \<open>Normalisation\<close>

text \<open>
  \<open>normalizeInput\<close> in two stages: the switch that makes the stream triple consistent, then the
  defaults. The defaults are one record update; each reads only the stream key and its own field.
\<close>

definition normalize_triple :: "GroupInput \<Rightarrow> meta_error + GroupInput" where
  "normalize_triple input =
     (if gi_StreamKind input \<noteq> [] then
        (if \<not> IsValidStreamKind (gi_StreamKind input) then Inl (InvalidKind (gi_StreamKind input))
         else (case StreamKeyFor (gi_StreamKind input) (gi_Interval input) of
                 Inl e \<Rightarrow> Inl (StreamKeyError e)
               | Inr key \<Rightarrow>
                   if gi_StreamKey input \<noteq> [] \<and> gi_StreamKey input \<noteq> key
                   then Inl (InconsistentStreamKey (gi_StreamKey input) key)
                   else Inr (input\<lparr>gi_StreamKey := key\<rparr>)))
      else if gi_StreamKey input \<noteq> [] then
        (case ParseStreamKey (gi_StreamKey input) of
           Inl e \<Rightarrow> Inl (StreamKeyError e)
         | Inr (kind, interval) \<Rightarrow>
             if gi_Interval input \<noteq> [] \<and> gi_Interval input \<noteq> interval
             then Inl (InconsistentInterval (gi_Interval input) (gi_StreamKey input))
             else Inr (input\<lparr>gi_StreamKind := kind, gi_Interval := interval\<rparr>))
      else Inl KeyOrKindRequired)"

definition or_default :: "string \<Rightarrow> string \<Rightarrow> string" where
  "or_default s d = (if s = [] then d else s)"

definition normalize_defaults :: "string \<Rightarrow> GroupInput \<Rightarrow> meta_error + GroupInput" where
  "normalize_defaults groupID input =
     (if gi_KafkaTopic input = [] then Inl (KafkaTopicRequired (gi_StreamKey input))
      else if gi_DesiredStatus input \<noteq> [] \<and> \<not> IsValidDesiredStatus (gi_DesiredStatus input)
      then Inl (InvalidDesiredStatus (gi_DesiredStatus input))
      else Inr (input
        \<lparr> gi_InputID := or_default (gi_InputID input) (NewInputID groupID (gi_StreamKey input)),
          gi_DesiredStatus := or_default (gi_DesiredStatus input) DesiredStatusRunning,
          gi_KafkaCluster := or_default (gi_KafkaCluster input) ''default'',
          gi_KafkaGroupID := or_default (gi_KafkaGroupID input)
                               (DefaultKafkaGroupID groupID (gi_StreamKey input)),
          gi_SchemaVersion := (if gi_SchemaVersion input \<le> 0 then 1 else gi_SchemaVersion input) \<rparr>))"

definition normalizeInput :: "string \<Rightarrow> GroupInput \<Rightarrow> meta_error + GroupInput" where
  "normalizeInput groupID input =
     bind_r (normalize_triple (input\<lparr>gi_GroupID := groupID\<rparr>)) (normalize_defaults groupID)"

fun normalize_inputs :: "string \<Rightarrow> GroupInput list \<Rightarrow> meta_error + GroupInput list" where
  "normalize_inputs groupID [] = Inr []"
| "normalize_inputs groupID (input # inputs) =
     bind_r (normalizeInput groupID input) (\<lambda>ni.
     bind_r (normalize_inputs groupID inputs) (\<lambda>nis. Inr (ni # nis)))"

definition normalizeGroup :: "MarketGroup \<Rightarrow> meta_error + MarketGroup" where
  "normalizeGroup g =
     (let g = (if mg_GroupID g = []
               then g\<lparr>mg_GroupID := NewGroupID (mg_Exchange g) (mg_MarketType g) (mg_Symbol g)\<rparr> else g)
      in if mg_DesiredStatus g \<noteq> [] \<and> \<not> IsValidDesiredStatus (mg_DesiredStatus g)
         then Inl (InvalidDesiredStatus (mg_DesiredStatus g))
         else
         let g = (if mg_DesiredStatus g = [] then g\<lparr>mg_DesiredStatus := DesiredStatusRunning\<rparr> else g);
             g = (if mg_Weight g \<le> 0 then g\<lparr>mg_Weight := 1\<rparr> else g)
         in bind_r (normalize_inputs (mg_GroupID g) (mg_Inputs g)) (\<lambda>inputs.
            Inr (g\<lparr>mg_Inputs := inputs\<rparr>)))"

subsection \<open>Groups and inputs\<close>

text \<open>
  The CHECK constraints of \<open>group_inputs\<close> and \<open>market_groups\<close>. The columns \<open>weight\<close>, \<open>schema_version\<close> and
  the capacities of a node are 4-byte integers, while the model's fields are Go's \<open>int\<close>: a value out of
  range cannot be bound and the statement fails.
\<close>

definition in_int4 :: "int \<Rightarrow> bool" where
  "in_int4 n \<longleftrightarrow> - 2147483648 \<le> n \<and> n \<le> 2147483647"

definition input_check :: "GroupInput \<Rightarrow> bool" where
  "input_check input \<longleftrightarrow>
     IsValidStreamKind (gi_StreamKind input) \<and> IsValidDesiredStatus (gi_DesiredStatus input) \<and>
     gi_StreamKey input \<noteq> [] \<and>
     ((gi_StreamKind input = StreamKindKline \<and> gi_Interval input \<noteq> [] \<and>
       gi_StreamKey input = klineStreamKeyPrefix @ gi_Interval input) \<or>
      (gi_StreamKind input \<noteq> StreamKindKline \<and> gi_Interval input = [] \<and>
       gi_StreamKey input = gi_StreamKind input))"

definition group_check :: "MarketGroup \<Rightarrow> bool" where
  "group_check g \<longleftrightarrow> IsValidMarketType (mg_MarketType g) \<and> IsValidDesiredStatus (mg_DesiredStatus g)"

definition has_group :: "meta_db \<Rightarrow> string \<Rightarrow> bool" where
  "has_group db groupID \<longleftrightarrow> list_ex (\<lambda>g. mg_GroupID g = groupID) (md_groups db)"

text \<open>
  \<open>ON CONFLICT DO NOTHING\<close> skips a conflicting row before its foreign key is checked; no affected
  row is \<open>ErrConflict\<close>.
\<close>

definition insertGroupInput :: "time \<Rightarrow> meta_db \<Rightarrow> GroupInput \<Rightarrow> meta_error + meta_db" where
  "insertGroupInput now db input =
     (if \<not> input_check input \<or> \<not> in_int4 (gi_SchemaVersion input) then Inl MetaDatabaseError
      else if list_ex (\<lambda>x. gi_InputID x = gi_InputID input \<or>
                (gi_GroupID x = gi_GroupID input \<and> gi_StreamKey x = gi_StreamKey input)) (md_inputs db)
      then Inl ErrConflict
      else if \<not> has_group db (gi_GroupID input) then Inl ErrNotFound
      else Inr (db\<lparr>md_inputs := md_inputs db @
             [input\<lparr> gi_Interval := derefString (nullIfEmptyText (gi_Interval input)),
                     gi_CreatedAt := now, gi_UpdatedAt := now \<rparr>]\<rparr>))"

fun insert_inputs ::
  "tx_fault \<Rightarrow> nat \<Rightarrow> time \<Rightarrow> meta_db \<Rightarrow> GroupInput list \<Rightarrow> meta_error + meta_db" where
  "insert_inputs fault i now tx [] = Inr tx"
| "insert_inputs fault i now tx (input # inputs) =
     (if fault = TxInputFails i then Inl MetaDatabaseError
      else bind_r (insertGroupInput now tx input) (\<lambda>tx. insert_inputs fault (Suc i) now tx inputs))"

definition commit_meta ::
  "tx_fault \<Rightarrow> meta_db \<Rightarrow> meta_error + meta_db \<Rightarrow> (meta_error + unit) \<times> meta_db" where
  "commit_meta fault db r =
     (case r of
        Inl e \<Rightarrow> (Inl e, db)
      | Inr tx \<Rightarrow>
         (case fault of
            TxCommitFails applied \<Rightarrow> (Inl MetaDatabaseError, if applied then tx else db)
          | _ \<Rightarrow> (Inr (), tx)))"

definition insert_group :: "time \<Rightarrow> meta_db \<Rightarrow> MarketGroup \<Rightarrow> meta_error + meta_db" where
  "insert_group now db g =
     (if \<not> group_check g \<or> \<not> in_int4 (mg_Weight g) then Inl MetaDatabaseError
      else if list_ex (\<lambda>x. mg_GroupID x = mg_GroupID g \<or>
                (mg_Exchange x = mg_Exchange g \<and> mg_MarketType x = mg_MarketType g \<and>
                 mg_Symbol x = mg_Symbol g)) (md_groups db)
      then Inl ErrConflict
      else Inr (db\<lparr>md_groups := md_groups db @
             [g\<lparr> mg_BaseAsset := derefString (nullIfEmptyText (mg_BaseAsset g)),
                 mg_QuoteAsset := derefString (nullIfEmptyText (mg_QuoteAsset g)),
                 mg_Inputs := [], mg_CreatedAt := now, mg_UpdatedAt := now \<rparr>]\<rparr>))"

definition CreateGroup :: "tx_fault \<Rightarrow> time \<Rightarrow> meta_db \<Rightarrow> MarketGroup \<Rightarrow> (meta_error + unit) \<times> meta_db" where
  "CreateGroup fault now db g =
     (if mg_Exchange g = [] \<or> mg_MarketType g = [] \<or> mg_Symbol g = []
      then (Inl RequiredFieldsMissing, db)
      else if \<not> IsValidMarketType (mg_MarketType g) then (Inl (InvalidMarketType (mg_MarketType g)), db)
      else (case normalizeGroup g of
              Inl e \<Rightarrow> (Inl e, db)
            | Inr g \<Rightarrow>
               if fault = TxBeginFails \<or> fault = TxGroupFails then (Inl MetaDatabaseError, db)
               else commit_meta fault db
                      (bind_r (insert_group now db g) (\<lambda>tx.
                       insert_inputs fault 0 now tx (mg_Inputs g)))))"

fun add_inputs ::
  "tx_fault \<Rightarrow> nat \<Rightarrow> time \<Rightarrow> string \<Rightarrow> meta_db \<Rightarrow> GroupInput list \<Rightarrow> meta_error + meta_db" where
  "add_inputs fault i now groupID tx [] = Inr tx"
| "add_inputs fault i now groupID tx (input # inputs) =
     bind_r (normalizeInput groupID input) (\<lambda>ni.
     if fault = TxInputFails i then Inl MetaDatabaseError
     else bind_r (insertGroupInput now tx ni) (\<lambda>tx. add_inputs fault (Suc i) now groupID tx inputs))"

definition AddInputs ::
  "tx_fault \<Rightarrow> time \<Rightarrow> meta_db \<Rightarrow> string \<Rightarrow> GroupInput list \<Rightarrow> (meta_error + unit) \<times> meta_db" where
  "AddInputs fault now db groupID inputs =
     (if inputs = [] then (Inr (), db)
      else if fault = TxBeginFails then (Inl MetaDatabaseError, db)
      else commit_meta fault db (add_inputs fault 0 now groupID db inputs))"

definition UpdateGroupDesiredStatus ::
  "stmt_fault \<Rightarrow> time \<Rightarrow> meta_db \<Rightarrow> string \<Rightarrow> string \<Rightarrow> (meta_error + unit) \<times> meta_db" where
  "UpdateGroupDesiredStatus fault now db groupID status =
     (if \<not> IsValidDesiredStatus status then (Inl (InvalidDesiredStatus status), db)
      else run_stmt fault db
        (if \<not> has_group db groupID then (Inl ErrNotFound, db)
         else (Inr (), db\<lparr>md_groups := map (\<lambda>g. if mg_GroupID g = groupID
                 then g\<lparr>mg_DesiredStatus := status, mg_UpdatedAt := now\<rparr> else g) (md_groups db)\<rparr>)))"

definition UpdateInputDesiredStatus ::
  "stmt_fault \<Rightarrow> time \<Rightarrow> meta_db \<Rightarrow> string \<Rightarrow> string \<Rightarrow> string \<Rightarrow> (meta_error + unit) \<times> meta_db" where
  "UpdateInputDesiredStatus fault now db groupID streamKey status =
     (if \<not> IsValidDesiredStatus status then (Inl (InvalidDesiredStatus status), db)
      else run_stmt fault db
        (if \<not> list_ex (\<lambda>x. gi_GroupID x = groupID \<and> gi_StreamKey x = streamKey) (md_inputs db)
         then (Inl ErrNotFound, db)
         else (Inr (), db\<lparr>md_inputs := map (\<lambda>x. if gi_GroupID x = groupID \<and> gi_StreamKey x = streamKey
                 then x\<lparr>gi_DesiredStatus := status, gi_UpdatedAt := now\<rparr> else x) (md_inputs db)\<rparr>)))"

text \<open>Deleting a group cascades to its inputs, its lease and the status rows of its inputs.\<close>

definition DeleteGroup :: "stmt_fault \<Rightarrow> meta_db \<Rightarrow> string \<Rightarrow> (meta_error + unit) \<times> meta_db" where
  "DeleteGroup fault db groupID =
     run_stmt fault db
       (if \<not> has_group db groupID then (Inl ErrNotFound, db)
        else let gone = map gi_InputID (filter (\<lambda>x. gi_GroupID x = groupID) (md_inputs db)) in
          (Inr (), db\<lparr> md_groups := filter (\<lambda>g. mg_GroupID g \<noteq> groupID) (md_groups db),
                       md_inputs := filter (\<lambda>x. gi_GroupID x \<noteq> groupID) (md_inputs db),
                       md_leases := (md_leases db)(groupID := None),
                       md_status := filter (\<lambda>(i, s). i \<notin> set gone) (md_status db) \<rparr>))"

definition ListRunnableGroups :: "bool \<Rightarrow> meta_db \<Rightarrow> meta_error + MarketGroup list" where
  "ListRunnableGroups fails db =
     (if fails then Inl MetaDatabaseError
      else Inr (sort_key mg_GroupID
             (filter (\<lambda>g. mg_DesiredStatus g = DesiredStatusRunning) (md_groups db))))"

definition ListGroups :: "bool \<Rightarrow> meta_db \<Rightarrow> meta_error + MarketGroup list" where
  "ListGroups fails db =
     (if fails then Inl MetaDatabaseError else Inr (sort_key mg_GroupID (md_groups db)))"

definition GetGroup :: "bool \<Rightarrow> meta_db \<Rightarrow> string \<Rightarrow> meta_error + MarketGroup" where
  "GetGroup fails db groupID =
     (if fails then Inl MetaDatabaseError
      else (case find (\<lambda>g. mg_GroupID g = groupID) (md_groups db) of
              None \<Rightarrow> Inl ErrNotFound
            | Some g \<Rightarrow> Inr g))"

definition ListGroupInputs :: "bool \<Rightarrow> meta_db \<Rightarrow> string \<Rightarrow> meta_error + GroupInput list" where
  "ListGroupInputs fails db groupID =
     (if fails then Inl MetaDatabaseError
      else Inr (sort_key gi_StreamKey (filter (\<lambda>x. gi_GroupID x = groupID) (md_inputs db))))"

subsection \<open>Runtime nodes\<close>

definition RegisterRuntimeNode ::
  "stmt_fault \<Rightarrow> time \<Rightarrow> meta_db \<Rightarrow> RuntimeNode \<Rightarrow> (meta_error + unit) \<times> meta_db" where
  "RegisterRuntimeNode fault now db node =
     (let node = (if rn_Status node = [] then node\<lparr>rn_Status := NodeStatusAlive\<rparr> else node);
          row = node\<lparr> rn_PodName := derefString (nullIfEmptyText (rn_PodName node)),
                      rn_LastHeartbeatAt := now, rn_CreatedAt := now, rn_UpdatedAt := now \<rparr>
      in run_stmt fault db
        (if \<not> IsValidNodeStatus (rn_Status node) \<or>
            \<not> list_all in_int4 [rn_MaxGroups node, rn_CurrentGroups node, rn_MaxWeight node, rn_CurrentWeight node]
         then (Inl MetaDatabaseError, db)
         else if list_ex (\<lambda>x. rn_NodeID x = rn_NodeID node) (md_nodes db)
         then (Inr (), db\<lparr>md_nodes := map (\<lambda>x. if rn_NodeID x = rn_NodeID node
                 then row\<lparr>rn_CreatedAt := rn_CreatedAt x\<rparr> else x) (md_nodes db)\<rparr>)
         else (Inr (), db\<lparr>md_nodes := md_nodes db @ [row]\<rparr>)))"

definition HeartbeatRuntimeNode ::
  "stmt_fault \<Rightarrow> time \<Rightarrow> meta_db \<Rightarrow> string \<Rightarrow> RuntimeCapacity \<Rightarrow> (meta_error + unit) \<times> meta_db" where
  "HeartbeatRuntimeNode fault now db nodeID capacity =
     run_stmt fault db
       (if \<not> list_all in_int4 [rc_CurrentGroups capacity, rc_CurrentWeight capacity] then (Inl MetaDatabaseError, db)
        else if \<not> list_ex (\<lambda>x. rn_NodeID x = nodeID) (md_nodes db) then (Inl ErrNotFound, db)
        else (Inr (), db\<lparr>md_nodes := map (\<lambda>x. if rn_NodeID x = nodeID
                then x\<lparr> rn_CurrentGroups := rc_CurrentGroups capacity,
                        rn_CurrentWeight := rc_CurrentWeight capacity,
                        rn_LastHeartbeatAt := now, rn_UpdatedAt := now \<rparr> else x) (md_nodes db)\<rparr>))"

definition UpdateRuntimeNodeStatus ::
  "stmt_fault \<Rightarrow> time \<Rightarrow> meta_db \<Rightarrow> string \<Rightarrow> string \<Rightarrow> (meta_error + unit) \<times> meta_db" where
  "UpdateRuntimeNodeStatus fault now db nodeID status =
     (if \<not> IsValidNodeStatus status then (Inl (InvalidNodeStatus status), db)
      else run_stmt fault db
        (if \<not> list_ex (\<lambda>x. rn_NodeID x = nodeID) (md_nodes db) then (Inl ErrNotFound, db)
         else (Inr (), db\<lparr>md_nodes := map (\<lambda>x. if rn_NodeID x = nodeID
                 then x\<lparr>rn_Status := status, rn_UpdatedAt := now\<rparr> else x) (md_nodes db)\<rparr>)))"

subsection \<open>Leases\<close>

text \<open>The interval of \<open>ttl\<close> seconds, rounded to the microseconds of the database.\<close>

definition lease_interval :: "duration \<Rightarrow> duration" where
  "lease_interval ttl = ((ttl + 500) div 1000) * 1000"

definition TryAcquireGroupLease ::
  "stmt_fault \<Rightarrow> time \<Rightarrow> meta_db \<Rightarrow> string \<Rightarrow> string \<Rightarrow> duration \<Rightarrow> (meta_error + bool) \<times> meta_db" where
  "TryAcquireGroupLease fault now db groupID nodeID ttl =
     (if ttl \<le> 0 then (Inl TTLNotPositive, db)
      else run_stmt fault db
        (case md_leases db groupID of
           None \<Rightarrow>
             if \<not> has_group db groupID then (Inl ErrNotFound, db)
             else (Inr True, db\<lparr>md_leases := (md_leases db)(groupID \<mapsto>
                    \<lparr> gl_GroupID = groupID, gl_NodeID = nodeID,
                      gl_LeaseExpiresAt = now + lease_interval ttl, gl_Version = 1,
                      gl_AcquiredAt = now, gl_UpdatedAt = now \<rparr>)\<rparr>)
         | Some l \<Rightarrow>
             if gl_LeaseExpiresAt l < now \<or> gl_NodeID l = nodeID
             then (Inr True, db\<lparr>md_leases := (md_leases db)(groupID \<mapsto>
                    \<lparr> gl_GroupID = groupID, gl_NodeID = nodeID,
                      gl_LeaseExpiresAt = now + lease_interval ttl, gl_Version = gl_Version l + 1,
                      gl_AcquiredAt = (if gl_NodeID l = nodeID then gl_AcquiredAt l else now),
                      gl_UpdatedAt = now \<rparr>)\<rparr>)
             else (Inr False, db)))"

definition RenewGroupLease ::
  "stmt_fault \<Rightarrow> time \<Rightarrow> meta_db \<Rightarrow> string \<Rightarrow> string \<Rightarrow> duration \<Rightarrow> (meta_error + bool) \<times> meta_db" where
  "RenewGroupLease fault now db groupID nodeID ttl =
     (if ttl \<le> 0 then (Inl TTLNotPositive, db)
      else run_stmt fault db
        (case md_leases db groupID of
           None \<Rightarrow> (Inr False, db)
         | Some l \<Rightarrow>
             if gl_NodeID l = nodeID \<and> gl_LeaseExpiresAt l \<ge> now
             then (Inr True, db\<lparr>md_leases := (md_leases db)(groupID \<mapsto>
                    l\<lparr> gl_LeaseExpiresAt := now + lease_interval ttl, gl_Version := gl_Version l + 1,
                       gl_UpdatedAt := now \<rparr>)\<rparr>)
             else (Inr False, db)))"

definition ReleaseGroupLease ::
  "stmt_fault \<Rightarrow> meta_db \<Rightarrow> string \<Rightarrow> string \<Rightarrow> (meta_error + unit) \<times> meta_db" where
  "ReleaseGroupLease fault db groupID nodeID =
     run_stmt fault db
       (case md_leases db groupID of
          None \<Rightarrow> (Inr (), db)
        | Some l \<Rightarrow> if gl_NodeID l = nodeID
                    then (Inr (), db\<lparr>md_leases := (md_leases db)(groupID := None)\<rparr>)
                    else (Inr (), db))"

definition GetGroupLease :: "bool \<Rightarrow> meta_db \<Rightarrow> string \<Rightarrow> meta_error + GroupLease option" where
  "GetGroupLease fails db groupID =
     (if fails then Inl MetaDatabaseError else Inr (md_leases db groupID))"

subsection \<open>Observed status\<close>

definition ActualStatuses :: "string list" where
  "ActualStatuses = [ActualStatusPending, ActualStatusStarting, ActualStatusRunning,
     ActualStatusPaused, ActualStatusError, ActualStatusStopped]"

definition ReportStreamRuntimeStatus ::
  "stmt_fault \<Rightarrow> time \<Rightarrow> meta_db \<Rightarrow> StreamRuntimeStatus \<Rightarrow> (meta_error + unit) \<times> meta_db" where
  "ReportStreamRuntimeStatus fault now db st =
     (let st = (if ss_ActualStatus st = [] then st\<lparr>ss_ActualStatus := ActualStatusPending\<rparr> else st);
          row = st\<lparr> ss_NodeID := derefString (nullIfEmptyText (ss_NodeID st)),
                    ss_LastError := derefString (nullIfEmptyText (ss_LastError st)),
                    ss_UpdatedAt := now \<rparr>
      in run_stmt fault db
        (if ss_ActualStatus st \<notin> set ActualStatuses then (Inl MetaDatabaseError, db)
         else if \<not> list_ex (\<lambda>x. gi_InputID x = ss_InputID st) (md_inputs db)
         then (Inl MetaDatabaseError, db)
         else (Inr (), db\<lparr>md_status := AList.update (ss_InputID st) row (md_status db)\<rparr>)))"

definition ListStreamRuntimeStatus :: "bool \<Rightarrow> meta_db \<Rightarrow> string \<Rightarrow> meta_error + StreamRuntimeStatus list" where
  "ListStreamRuntimeStatus fails db groupID =
     (if fails then Inl MetaDatabaseError
      else Inr (sort_key ss_StreamKey
             (map snd (filter (\<lambda>(i, s). ss_GroupID s = groupID) (md_status db)))))"

subsection \<open>All operations that change the tables\<close>

datatype meta_op =
    OpCreateGroup tx_fault time MarketGroup
  | OpAddInputs tx_fault time string "GroupInput list"
  | OpUpdateGroupStatus stmt_fault time string string
  | OpUpdateInputStatus stmt_fault time string string string
  | OpDeleteGroup stmt_fault string
  | OpRegisterNode stmt_fault time RuntimeNode
  | OpHeartbeat stmt_fault time string RuntimeCapacity
  | OpUpdateNodeStatus stmt_fault time string string
  | OpAcquire stmt_fault time string string duration
  | OpRenew stmt_fault time string string duration
  | OpRelease stmt_fault string string
  | OpReportStatus stmt_fault time StreamRuntimeStatus

fun meta_step :: "meta_db \<Rightarrow> meta_op \<Rightarrow> meta_db" where
  "meta_step db (OpCreateGroup f now g) = snd (CreateGroup f now db g)"
| "meta_step db (OpAddInputs f now g ins) = snd (AddInputs f now db g ins)"
| "meta_step db (OpUpdateGroupStatus f now g st) = snd (UpdateGroupDesiredStatus f now db g st)"
| "meta_step db (OpUpdateInputStatus f now g k st) = snd (UpdateInputDesiredStatus f now db g k st)"
| "meta_step db (OpDeleteGroup f g) = snd (DeleteGroup f db g)"
| "meta_step db (OpRegisterNode f now n) = snd (RegisterRuntimeNode f now db n)"
| "meta_step db (OpHeartbeat f now n c) = snd (HeartbeatRuntimeNode f now db n c)"
| "meta_step db (OpUpdateNodeStatus f now n st) = snd (UpdateRuntimeNodeStatus f now db n st)"
| "meta_step db (OpAcquire f now g n ttl) = snd (TryAcquireGroupLease f now db g n ttl)"
| "meta_step db (OpRenew f now g n ttl) = snd (RenewGroupLease f now db g n ttl)"
| "meta_step db (OpRelease f g n) = snd (ReleaseGroupLease f db g n)"
| "meta_step db (OpReportStatus f now st) = snd (ReportStreamRuntimeStatus f now db st)"

definition empty_meta :: meta_db where
  "empty_meta = \<lparr> md_groups = [], md_inputs = [], md_nodes = [], md_leases = (\<lambda>_. None), md_status = [] \<rparr>"

subsection \<open>Normalised inputs\<close>

lemma derefString_nullIfEmptyText [simp]: "derefString (nullIfEmptyText s) = s"
  by (simp add: derefString_def nullIfEmptyText_def)

lemma valid_running [simp]: "IsValidDesiredStatus DesiredStatusRunning"
  by (simp add: IsValidDesiredStatus_def DesiredStatuses_def)

lemma no_empty_status [simp]: "\<not> IsValidDesiredStatus []"
  by (simp add: IsValidDesiredStatus_def DesiredStatuses_def status_defs)

lemma StreamKeyFor_check:
  assumes "StreamKeyFor kind interval = Inr key"
  shows "IsValidStreamKind kind \<and> key \<noteq> [] \<and>
    ((kind = StreamKindKline \<and> interval \<noteq> [] \<and> key = klineStreamKeyPrefix @ interval) \<or>
     (kind \<noteq> StreamKindKline \<and> interval = [] \<and> key = kind))"
  using assms
  by (auto simp: StreamKeyFor_def IsValidStreamKind_def StreamKinds_def go_simps split: if_splits)

text \<open>What the first stage of \<open>normalizeInput\<close> (the stream triple) leaves.\<close>

definition triple_ok :: "GroupInput \<Rightarrow> bool" where
  "triple_ok input \<longleftrightarrow> StreamKeyFor (gi_StreamKind input) (gi_Interval input) = Inr (gi_StreamKey input)"

lemma normalize_triple_ok:
  assumes "normalize_triple input = Inr x"
  shows "triple_ok x \<and> gi_GroupID x = gi_GroupID input"
  using assms
  by (auto simp: normalize_triple_def triple_ok_def StreamKeyFor_ParseStreamKey
      split: if_splits sum.splits)

lemma normalize_defaults_ok:
  assumes "normalize_defaults groupID x = Inr ni"
  shows "gi_KafkaTopic ni \<noteq> [] \<and> gi_InputID ni \<noteq> [] \<and> IsValidDesiredStatus (gi_DesiredStatus ni) \<and>
    gi_KafkaCluster ni \<noteq> [] \<and> gi_KafkaGroupID ni \<noteq> [] \<and> 1 \<le> gi_SchemaVersion ni"
    and "triple_ok ni = triple_ok x" "gi_GroupID ni = gi_GroupID x"
  using assms
  by (auto simp: normalize_defaults_def or_default_def NewInputID_def DefaultKafkaGroupID_def
      triple_ok_def split: if_splits)

lemma normalizeInput_cases:
  assumes "normalizeInput groupID input = Inr ni"
  shows "triple_ok ni \<and> gi_GroupID ni = groupID \<and> gi_KafkaTopic ni \<noteq> [] \<and> gi_InputID ni \<noteq> [] \<and>
    IsValidDesiredStatus (gi_DesiredStatus ni) \<and> gi_KafkaCluster ni \<noteq> [] \<and>
    gi_KafkaGroupID ni \<noteq> [] \<and> 1 \<le> gi_SchemaVersion ni"
proof -
  from assms obtain x where x: "normalize_triple (input\<lparr>gi_GroupID := groupID\<rparr>) = Inr x"
    "normalize_defaults groupID x = Inr ni" by (auto simp: normalizeInput_def bind_r_Inr_iff)
  from normalize_triple_ok [OF x(1)] normalize_defaults_ok [OF x(2)] show ?thesis by simp
qed

lemma normalizeInput_check: "normalizeInput groupID input = Inr ni \<Longrightarrow> input_check ni"
  using normalizeInput_cases [of groupID input ni]
    StreamKeyFor_check [of "gi_StreamKind ni" "gi_Interval ni" "gi_StreamKey ni"]
  by (auto simp: input_check_def triple_ok_def)

lemma triple_ok_kind: "triple_ok input \<Longrightarrow> IsValidStreamKind (gi_StreamKind input) \<and> gi_StreamKind input \<noteq> []"
  using StreamKeyFor_check [of "gi_StreamKind input" "gi_Interval input" "gi_StreamKey input"]
  by (auto simp: triple_ok_def IsValidStreamKind_def StreamKinds_def kind_defs)

lemma normalizeInput_fixed:
  assumes "normalizeInput groupID input = Inr ni"
  shows "normalizeInput groupID ni = Inr ni"
  using normalizeInput_cases [OF assms] triple_ok_kind [of ni]
  by (auto simp: normalizeInput_def [of groupID ni] normalize_triple_def normalize_defaults_def
      or_default_def triple_ok_def)

text \<open>
  \<^verbatim>\<open>normalizeInput\<close> either rejects an input or returns one that satisfies every CHECK constraint
  of the table (known kind, an interval exactly for klines, the key derived from both, a valid
  status) with all derivable fields filled in; normalising again changes nothing.
\<close>

theorem normalized_input_is_consistent:
  assumes "normalizeInput groupID input = Inr ni"
  shows "input_check ni \<and> gi_GroupID ni = groupID \<and> gi_KafkaTopic ni \<noteq> [] \<and> gi_InputID ni \<noteq> [] \<and>
    gi_KafkaCluster ni \<noteq> [] \<and> gi_KafkaGroupID ni \<noteq> [] \<and> 1 \<le> gi_SchemaVersion ni \<and>
    StreamKeyFor (gi_StreamKind ni) (gi_Interval ni) = Inr (gi_StreamKey ni) \<and>
    normalizeInput groupID ni = Inr ni"
  using normalizeInput_cases [OF assms] normalizeInput_check [OF assms] normalizeInput_fixed [OF assms]
  by (simp add: triple_ok_def)

subsection \<open>Integrity of the tables\<close>

definition group_triple :: "MarketGroup \<Rightarrow> string \<times> string \<times> string" where
  "group_triple g = (mg_Exchange g, mg_MarketType g, mg_Symbol g)"

definition groups_ok :: "MarketGroup list \<Rightarrow> bool" where
  "groups_ok gs \<longleftrightarrow> distinct (map mg_GroupID gs) \<and> distinct (map group_triple gs) \<and> list_all group_check gs"

definition inputs_ok :: "GroupInput list \<Rightarrow> bool" where
  "inputs_ok xs \<longleftrightarrow> distinct (map gi_InputID xs) \<and> distinct (map (\<lambda>x. (gi_GroupID x, gi_StreamKey x)) xs) \<and>
     list_all input_check xs"

definition nodes_ok :: "RuntimeNode list \<Rightarrow> bool" where
  "nodes_ok ns \<longleftrightarrow> distinct (map rn_NodeID ns) \<and> list_all (\<lambda>n. IsValidNodeStatus (rn_Status n)) ns"

definition meta_inv :: "meta_db \<Rightarrow> bool" where
  "meta_inv db \<longleftrightarrow>
     groups_ok (md_groups db) \<and> inputs_ok (md_inputs db) \<and> nodes_ok (md_nodes db) \<and>
     list_all (\<lambda>x. has_group db (gi_GroupID x)) (md_inputs db) \<and>
     (\<forall>g l. md_leases db g = Some l \<longrightarrow> has_group db g \<and> gl_GroupID l = g) \<and>
     gomap_ok (md_status db) \<and>
     list_all (\<lambda>(i, s). i \<in> gi_InputID ` set (md_inputs db) \<and> ss_InputID s = i \<and>
                        ss_ActualStatus s \<in> set ActualStatuses) (md_status db)"

lemma has_group_iff: "has_group db g \<longleftrightarrow> g \<in> set (map mg_GroupID (md_groups db))"
  by (auto simp: has_group_def list_ex_iff)

lemma has_group_groups: "has_group (db\<lparr>md_groups := gs\<rparr>) x \<longleftrightarrow> x \<in> set (map mg_GroupID gs)"
  by (simp add: has_group_iff)

lemma has_group_frame [simp]:
  "has_group (db\<lparr>md_inputs := xs\<rparr>) = has_group db" "has_group (db\<lparr>md_leases := ls\<rparr>) = has_group db"
  "has_group (db\<lparr>md_nodes := ns\<rparr>) = has_group db" "has_group (db\<lparr>md_status := ss\<rparr>) = has_group db"
  by (simp_all add: fun_eq_iff has_group_def)

lemma run_stmt_inv:
  "P db \<Longrightarrow> P (snd r) \<Longrightarrow> P (snd (run_stmt fault db r))"
  by (cases fault) (simp_all add: run_stmt_def)

lemma commit_meta_inv:
  assumes "P db" "\<And>tx. r = Inr tx \<Longrightarrow> P tx"
  shows "P (snd (commit_meta fault db r))"
  using assms by (auto simp: commit_meta_def split: sum.splits tx_fault.splits)

text \<open>The invariant for a change of one table.\<close>

lemma inputs_ok_snoc:
  assumes "inputs_ok xs" "input_check x"
    and "\<not> list_ex (\<lambda>y. gi_InputID y = gi_InputID x \<or>
           (gi_GroupID y = gi_GroupID x \<and> gi_StreamKey y = gi_StreamKey x)) xs"
  shows "inputs_ok (xs @ [x])"
  using assms by (auto simp: inputs_ok_def list_ex_iff)

lemma meta_inv_add_input:
  assumes "meta_inv db" "inputs_ok (md_inputs db @ [x])" "has_group db (gi_GroupID x)"
  shows "meta_inv (db\<lparr>md_inputs := md_inputs db @ [x]\<rparr>)"
  using assms by (auto simp: meta_inv_def list_all_iff)

lemma insertGroupInput_inv:
  assumes "meta_inv db" "insertGroupInput now db input = Inr db'"
  shows "meta_inv db'"
proof -
  let ?x = "input\<lparr>gi_CreatedAt := now, gi_UpdatedAt := now\<rparr>"
  from assms(2) have db': "db' = db\<lparr>md_inputs := md_inputs db @ [?x]\<rparr>"
    and c: "input_check input" "has_group db (gi_GroupID input)"
      "\<not> list_ex (\<lambda>y. gi_InputID y = gi_InputID input \<or>
         (gi_GroupID y = gi_GroupID input \<and> gi_StreamKey y = gi_StreamKey input)) (md_inputs db)"
    by (auto simp: insertGroupInput_def split: if_splits)
  have "inputs_ok (md_inputs db @ [?x])"
    by (rule inputs_ok_snoc) (use assms(1) c in \<open>simp_all add: meta_inv_def input_check_def\<close>)
  then show ?thesis unfolding db' by (rule meta_inv_add_input [OF assms(1)]) (simp add: c)
qed

lemma insert_inputs_inv:
  "meta_inv db \<Longrightarrow> insert_inputs fault i now db xs = Inr db' \<Longrightarrow> meta_inv db'"
  by (induction xs arbitrary: db i)
     (auto simp: bind_r_Inr_iff split: if_splits dest: insertGroupInput_inv)

lemma add_inputs_inv:
  "meta_inv db \<Longrightarrow> add_inputs fault i now g db xs = Inr db' \<Longrightarrow> meta_inv db'"
  by (induction xs arbitrary: db i)
     (auto simp: bind_r_Inr_iff split: if_splits dest: insertGroupInput_inv)

lemma groups_ok_snoc:
  assumes "groups_ok gs" "group_check g"
    and "\<not> list_ex (\<lambda>x. mg_GroupID x = mg_GroupID g \<or>
           (mg_Exchange x = mg_Exchange g \<and> mg_MarketType x = mg_MarketType g \<and>
            mg_Symbol x = mg_Symbol g)) gs"
  shows "groups_ok (gs @ [g])"
  using assms by (auto simp: groups_ok_def list_ex_iff group_triple_def)

lemma insert_group_inv:
  assumes "meta_inv db" "insert_group now db g = Inr db'"
  shows "meta_inv db'"
proof -
  let ?g = "g\<lparr>mg_Inputs := [], mg_CreatedAt := now, mg_UpdatedAt := now\<rparr>"
  from assms(2) have db': "db' = db\<lparr>md_groups := md_groups db @ [?g]\<rparr>"
    and c: "group_check g" "\<not> list_ex (\<lambda>x. mg_GroupID x = mg_GroupID g \<or>
         (mg_Exchange x = mg_Exchange g \<and> mg_MarketType x = mg_MarketType g \<and>
          mg_Symbol x = mg_Symbol g)) (md_groups db)"
    by (auto simp: insert_group_def split: if_splits)
  have "groups_ok (md_groups db @ [?g])"
    by (rule groups_ok_snoc) (use assms(1) c in \<open>simp_all add: meta_inv_def group_check_def\<close>)
  moreover have "has_group db x \<Longrightarrow> has_group db' x" for x by (simp add: db' has_group_def)
  ultimately show ?thesis using assms(1) by (auto simp: meta_inv_def list_all_iff db')
qed

lemma CreateGroup_inv:
  assumes "meta_inv db"
  shows "meta_inv (snd (CreateGroup fault now db g))"
proof -
  have "meta_inv tx" if "bind_r (insert_group now db h) (\<lambda>tx. insert_inputs fault 0 now tx xs) = Inr tx"
    for h xs tx
    using that assms insert_group_inv insert_inputs_inv unfolding bind_r_Inr_iff by blast
  then have "meta_inv (snd (commit_meta fault db
      (bind_r (insert_group now db h) (\<lambda>tx. insert_inputs fault 0 now tx xs))))" for h xs
    by (rule commit_meta_inv [where P = meta_inv, OF assms])
  then show ?thesis using assms by (simp add: CreateGroup_def split: sum.splits)
qed

lemma AddInputs_inv: "meta_inv db \<Longrightarrow> meta_inv (snd (AddInputs fault now db g xs))"
  by (auto simp: AddInputs_def intro!: commit_meta_inv [where P = meta_inv] dest: add_inputs_inv)

lemma meta_inv_groups:
  assumes "meta_inv db" "groups_ok gs" "set (map mg_GroupID (md_groups db)) \<subseteq> set (map mg_GroupID gs)"
  shows "meta_inv (db\<lparr>md_groups := gs\<rparr>)"
proof -
  have "has_group db x \<Longrightarrow> has_group (db\<lparr>md_groups := gs\<rparr>) x" for x
    using assms(3) by (auto simp: has_group_iff)
  with assms(1,2) show ?thesis by (auto simp: meta_inv_def list_all_iff)
qed

lemma meta_inv_inputs:
  assumes "meta_inv db" "inputs_ok xs" "list_all (\<lambda>x. has_group db (gi_GroupID x)) xs"
    and "set (map gi_InputID (md_inputs db)) \<subseteq> set (map gi_InputID xs)"
  shows "meta_inv (db\<lparr>md_inputs := xs\<rparr>)"
  using assms by (auto simp: meta_inv_def list_all_iff)

lemma UpdateGroupDesiredStatus_inv:
  assumes "meta_inv db"
  shows "meta_inv (snd (UpdateGroupDesiredStatus fault now db g st))"
proof (cases "IsValidDesiredStatus st")
  case True
  let ?f = "\<lambda>x. if mg_GroupID x = g then x\<lparr>mg_DesiredStatus := st, mg_UpdatedAt := now\<rparr> else x"
  have ids: "map mg_GroupID (map ?f gs) = map mg_GroupID gs"
    and tri: "map group_triple (map ?f gs) = map group_triple gs" for gs
    by (induction gs) (auto simp: group_triple_def)
  have chk: "list_all group_check gs \<Longrightarrow> list_all group_check (map ?f gs)" for gs
    using True by (induction gs) (auto simp: group_check_def)
  have ok: "groups_ok gs \<Longrightarrow> groups_ok (map ?f gs)" for gs
    unfolding groups_ok_def ids tri using chk by blast
  have "meta_inv (db\<lparr>md_groups := map ?f (md_groups db)\<rparr>)"
    by (rule meta_inv_groups [OF assms ok]) (use assms in \<open>simp_all only: ids meta_inv_def\<close>)
  then show ?thesis
    unfolding UpdateGroupDesiredStatus_def using True assms
    by (auto intro!: run_stmt_inv [where P = meta_inv])
qed (simp add: UpdateGroupDesiredStatus_def assms)

lemma UpdateInputDesiredStatus_inv:
  assumes "meta_inv db"
  shows "meta_inv (snd (UpdateInputDesiredStatus fault now db g k st))"
proof (cases "IsValidDesiredStatus st")
  case True
  let ?f = "\<lambda>x. if gi_GroupID x = g \<and> gi_StreamKey x = k
      then x\<lparr>gi_DesiredStatus := st, gi_UpdatedAt := now\<rparr> else x"
  have ids: "map gi_InputID (map ?f xs) = map gi_InputID xs"
    and keys: "map (\<lambda>x. (gi_GroupID x, gi_StreamKey x)) (map ?f xs) = map (\<lambda>x. (gi_GroupID x, gi_StreamKey x)) xs"
    and fk: "list_all (\<lambda>x. P (gi_GroupID x)) (map ?f xs) = list_all (\<lambda>x. P (gi_GroupID x)) xs" for xs P
    by (induction xs) auto
  have chk: "list_all input_check xs \<Longrightarrow> list_all input_check (map ?f xs)" for xs
    using True by (induction xs) (auto simp: input_check_def)
  have ok: "inputs_ok xs \<Longrightarrow> inputs_ok (map ?f xs)" for xs
    unfolding inputs_ok_def ids keys using chk by blast
  have "meta_inv (db\<lparr>md_inputs := map ?f (md_inputs db)\<rparr>)"
    by (rule meta_inv_inputs [OF assms ok]) (use assms in \<open>simp_all only: ids fk meta_inv_def\<close>)
  then show ?thesis
    unfolding UpdateInputDesiredStatus_def using True assms
    by (auto intro!: run_stmt_inv [where P = meta_inv])
qed (simp add: UpdateInputDesiredStatus_def assms)

lemma DeleteGroup_inv:
  assumes "meta_inv db"
  shows "meta_inv (snd (DeleteGroup fault db g))"
proof -
  let ?gone = "map gi_InputID (filter (\<lambda>x. gi_GroupID x = g) (md_inputs db))"
  let ?db = "db\<lparr> md_groups := filter (\<lambda>x. mg_GroupID x \<noteq> g) (md_groups db),
      md_inputs := filter (\<lambda>x. gi_GroupID x \<noteq> g) (md_inputs db),
      md_leases := (md_leases db)(g := None),
      md_status := filter (\<lambda>(i, s). i \<notin> set ?gone) (md_status db) \<rparr>"
  have hg: "has_group ?db x \<longleftrightarrow> has_group db x \<and> x \<noteq> g" for x
    by (auto simp: has_group_def list_ex_iff)
  have "meta_inv ?db"
    unfolding meta_inv_def hg
  proof (intro conjI)
    show "groups_ok (md_groups ?db)" "inputs_ok (md_inputs ?db)" "nodes_ok (md_nodes ?db)"
      using assms by (auto simp: meta_inv_def groups_ok_def inputs_ok_def distinct_map_filter list_all_iff)
    show "gomap_ok (md_status ?db)"
      using assms by (simp add: meta_inv_def distinct_map_filter)
    show "list_all (\<lambda>(i, s). i \<in> gi_InputID ` set (md_inputs ?db) \<and> ss_InputID s = i \<and>
        ss_ActualStatus s \<in> set ActualStatuses) (md_status ?db)"
      using assms by (fastforce simp: meta_inv_def list_all_iff)
  qed (use assms in \<open>auto simp: meta_inv_def list_all_iff\<close>)
  then show ?thesis
    unfolding DeleteGroup_def Let_def using assms by (auto intro!: run_stmt_inv [where P = meta_inv])
qed

lemma meta_inv_nodes: "meta_inv db \<Longrightarrow> nodes_ok ns \<Longrightarrow> meta_inv (db\<lparr>md_nodes := ns\<rparr>)"
  by (simp add: meta_inv_def)

lemma nodes_ok_map:
  assumes "nodes_ok ns" "\<And>n. rn_NodeID (f n) = rn_NodeID n"
    and "\<And>n. IsValidNodeStatus (rn_Status n) \<Longrightarrow> IsValidNodeStatus (rn_Status (f n))"
  shows "nodes_ok (map f ns)"
  using assms by (auto simp: nodes_ok_def comp_def list_all_iff)

lemma node_ops_inv:
  assumes "meta_inv db"
  shows "meta_inv (snd (HeartbeatRuntimeNode fault now db n c))"
    and "meta_inv (snd (UpdateRuntimeNodeStatus fault now db n st))"
    and "meta_inv (snd (RegisterRuntimeNode fault now db node))"
proof -
  have nodes: "nodes_ok (md_nodes db)" using assms by (simp add: meta_inv_def)
  show "meta_inv (snd (HeartbeatRuntimeNode fault now db n c))"
    unfolding HeartbeatRuntimeNode_def
    by (rule run_stmt_inv [where P = meta_inv, OF assms])
       (auto intro!: meta_inv_nodes assms nodes_ok_map [OF nodes])
  show "meta_inv (snd (UpdateRuntimeNodeStatus fault now db n st))"
    unfolding UpdateRuntimeNodeStatus_def
    by (auto intro!: run_stmt_inv [where P = meta_inv] meta_inv_nodes assms nodes_ok_map [OF nodes])
  have "nodes_ok (md_nodes db @ [x])" if "IsValidNodeStatus (rn_Status x)"
    "\<not> list_ex (\<lambda>y. rn_NodeID y = rn_NodeID x) (md_nodes db)" for x
    using that nodes by (auto simp: nodes_ok_def list_ex_iff)
  then show "meta_inv (snd (RegisterRuntimeNode fault now db node))"
    unfolding RegisterRuntimeNode_def Let_def
    by (intro run_stmt_inv [where P = meta_inv, OF assms])
       (auto intro!: meta_inv_nodes assms nodes_ok_map [OF nodes])
qed

lemma meta_inv_lease:
  assumes "meta_inv db" "has_group db g" "\<And>l. lo = Some l \<Longrightarrow> gl_GroupID l = g"
  shows "meta_inv (db\<lparr>md_leases := (md_leases db)(g := lo)\<rparr>)"
  using assms by (auto simp: meta_inv_def)

lemma lease_ops_inv:
  assumes "meta_inv db"
  shows "meta_inv (snd (TryAcquireGroupLease fault now db g n ttl))"
    and "meta_inv (snd (RenewGroupLease fault now db g n ttl))"
    and "meta_inv (snd (ReleaseGroupLease fault db g n))"
proof -
  have fk: "md_leases db g = Some l \<Longrightarrow> has_group db g \<and> gl_GroupID l = g" for l
    using assms by (auto simp: meta_inv_def)
  show "meta_inv (snd (TryAcquireGroupLease fault now db g n ttl))"
    unfolding TryAcquireGroupLease_def using assms fk
    by (auto intro!: run_stmt_inv [where P = meta_inv] meta_inv_lease split: option.splits)
  show "meta_inv (snd (RenewGroupLease fault now db g n ttl))"
    unfolding RenewGroupLease_def using assms fk
    by (auto intro!: run_stmt_inv [where P = meta_inv] meta_inv_lease split: option.splits)
  show "meta_inv (snd (ReleaseGroupLease fault db g n))"
    unfolding ReleaseGroupLease_def using assms fk
    by (auto intro!: run_stmt_inv [where P = meta_inv] meta_inv_lease split: option.splits)
qed

lemma ReportStreamRuntimeStatus_inv:
  assumes "meta_inv db"
  shows "meta_inv (snd (ReportStreamRuntimeStatus fault now db st))"
proof -
  have "meta_inv (db\<lparr>md_status := AList.update i row (md_status db)\<rparr>)"
    if "list_ex (\<lambda>x. gi_InputID x = i) (md_inputs db)" "ss_InputID row = i"
      "ss_ActualStatus row \<in> set ActualStatuses" for i row
  proof -
    have "list_all (\<lambda>(j, s). j \<in> gi_InputID ` set (md_inputs db) \<and> ss_InputID s = j \<and>
        ss_ActualStatus s \<in> set ActualStatuses) (AList.update i row (md_status db))"
      unfolding list_all_iff
    proof (clarify, goal_cases)
      case (1 j s)
      have ok: "gomap_ok (md_status db)" using assms by (simp add: meta_inv_def)
      with 1 have "map_of (AList.update i row (md_status db)) j = Some s"
        by (simp only: gomap_ok_mem_iff [OF gomap_ok_update])
      then have "j = i \<and> s = row \<or> (j, s) \<in> set (md_status db)"
        unfolding gomap_ok_mem_iff [OF ok] by (simp del: map_of_eq_Some_iff split: if_splits)
      then show ?case using assms that by (force simp: meta_inv_def list_all_iff list_ex_iff)
    qed
    with assms show ?thesis by (simp add: meta_inv_def)
  qed
  then show ?thesis
    unfolding ReportStreamRuntimeStatus_def Let_def
    by (intro run_stmt_inv [where P = meta_inv, OF assms]) (auto simp: assms)
qed

lemmas meta_op_invs = CreateGroup_inv AddInputs_inv UpdateGroupDesiredStatus_inv
  UpdateInputDesiredStatus_inv DeleteGroup_inv node_ops_inv lease_ops_inv ReportStreamRuntimeStatus_inv

interpretation meta: stepper meta_step meta_inv "\<lambda>op. True"
proof
  fix db op
  assume "meta_inv db"
  then show "meta_inv (meta_step db op)" by (cases op) (simp_all add: meta_op_invs)
qed

text \<open>
  C33. Integrity of the control plane: through every sequence of metadata operations, with any
  database failure, group ids and (exchange, market type, symbol) stay unique, inputs stay unique
  per group and stream key and satisfy their CHECKs, every input, lease and status row refers to an
  existing group or input, and every status is a known one.
\<close>

theorem metadata_integrity: "meta_inv (foldl meta_step empty_meta ops)"
proof (rule meta.run_inv)
  show "meta_inv empty_meta"
    by (simp add: meta_inv_def empty_meta_def groups_ok_def inputs_ok_def nodes_ok_def)
qed (simp add: list_all_iff)

subsection \<open>The lease interface\<close>

text \<open>
  What a node relies on. \<open>holder s g\<close> is the recorded owner of the lease of group \<open>g\<close> and its expiry;
  an acquisition is refused while another node's lease is unexpired, a renewal succeeds only for the
  recorded owner before expiry, and neither touches other groups.
\<close>

datatype lease_op =
    Acquire stmt_fault string string duration
  | Renew stmt_fault string string duration
  | Release stmt_fault string string

fun op_node :: "lease_op \<Rightarrow> string" where
  "op_node (Acquire f g n ttl) = n"
| "op_node (Renew f g n ttl) = n"
| "op_node (Release f g n) = n"

fun op_group :: "lease_op \<Rightarrow> string" where
  "op_group (Acquire f g n ttl) = g"
| "op_group (Renew f g n ttl) = g"
| "op_group (Release f g n) = g"

text \<open>An operation by which node \<open>n\<close> claims group \<open>g\<close> for \<open>ttl\<close>: an acquisition or a renewal.\<close>

fun claims :: "lease_op \<Rightarrow> string \<Rightarrow> string \<Rightarrow> duration \<Rightarrow> bool" where
  "claims (Acquire f g n ttl) g' n' ttl' = (g = g' \<and> n = n' \<and> ttl = ttl')"
| "claims (Renew f g n ttl) g' n' ttl' = (g = g' \<and> n = n' \<and> ttl = ttl')"
| "claims (Release f g n) g' n' ttl' = False"

lemma claims_parts: "claims op g n ttl \<Longrightarrow> op_group op = g \<and> op_node op = n"
  by (cases op) simp_all

locale lease_service =
  fixes apply_op :: "'s \<Rightarrow> time \<Rightarrow> lease_op \<Rightarrow> bool \<times> 's"
    and holder :: "'s \<Rightarrow> string \<Rightarrow> (string \<times> time) option"
    and interval :: "duration \<Rightarrow> duration"
  assumes other_group: "op_group op \<noteq> g \<Longrightarrow> holder (snd (apply_op s now op)) g = holder s g"
    and granted: "claims op g n ttl \<Longrightarrow> fst (apply_op s now op) \<Longrightarrow>
      holder (snd (apply_op s now op)) g = Some (n, now + interval ttl)"
    and own_op: "claims op g n ttl \<Longrightarrow> holder s g = Some (n, e) \<Longrightarrow>
      holder (snd (apply_op s now op)) g \<in> {Some (n, e), Some (n, now + interval ttl)}"
    and foreign_op: "holder s g = Some (m, e) \<Longrightarrow> op_node op \<noteq> m \<Longrightarrow> op_group op = g \<Longrightarrow> now \<le> e \<Longrightarrow>
      \<not> (fst (apply_op s now op) \<and> claims op g (op_node op) ttl) \<and>
      holder (snd (apply_op s now op)) g = Some (m, e)"
begin

text \<open>A run of timed operations.\<close>

definition run :: "'s \<Rightarrow> (time \<times> lease_op) list \<Rightarrow> 's" where
  "run s evs = foldl (\<lambda>s (now, op). snd (apply_op s now op)) s evs"

lemma run_simps [simp]:
  "run s [] = s" "run s ((now, op) # evs) = run (snd (apply_op s now op)) evs"
  by (simp_all add: run_def)

text \<open>
  While time has not passed the expiry, the holder keeps the lease through every operation except
  its own release, and its expiry does not shrink when it renews with the same interval.
\<close>

lemma holder_kept:
  assumes "holder s g = Some (m, e)" "e \<ge> t0 + interval ttl"
    and "sorted (t0 # map fst evs)" "\<forall>(now, op) \<in> set evs. now \<le> t0 + interval ttl"
    and "\<forall>(now, op) \<in> set evs. op_node op = m \<and> op_group op = g \<longrightarrow> claims op g m ttl"
  shows "\<exists>e'. holder (run s evs) g = Some (m, e') \<and> e' \<ge> t0 + interval ttl"
  using assms
proof (induction evs arbitrary: s e)
  case (Cons ev evs)
  obtain now op where ev: "ev = (now, op)" by (cases ev)
  let ?s = "snd (apply_op s now op)"
  have bounds: "t0 \<le> now" "now \<le> t0 + interval ttl" using Cons.prems(3,4) by (auto simp: ev)
  have "\<exists>e'. holder ?s g = Some (m, e') \<and> e' \<ge> t0 + interval ttl"
  proof (cases "op_group op = g \<and> op_node op = m")
    case True
    with Cons.prems(5) have "claims op g m ttl" by (auto simp: ev)
    from own_op [OF this Cons.prems(1), of now] Cons.prems(2) bounds(1) show ?thesis by auto
  next
    case False
    then have "holder ?s g = holder s g"
      using other_group [of op g s now] foreign_op [OF Cons.prems(1), of op now] Cons.prems(1,2) bounds(2)
      by (cases "op_group op = g") auto
    with Cons.prems(1,2) show ?thesis by auto
  qed
  then obtain e' where e': "holder ?s g = Some (m, e')" "e' \<ge> t0 + interval ttl" by blast
  have "\<exists>e''. holder (run ?s evs) g = Some (m, e'') \<and> e'' \<ge> t0 + interval ttl"
    by (rule Cons.IH [OF e']) (use Cons.prems(3-5) in auto)
  then show ?case by (simp add: ev)
qed simp

text \<open>
  The grant periods of different nodes do not overlap: after a grant to \<open>m\<close> at \<open>t0\<close>, another node is
  granted the group only later than \<open>t0 + interval ttl\<close>, unless \<open>m\<close> released it.
\<close>

lemma grants_disjoint:
  assumes "claims op0 g m ttl" "fst (apply_op s t0 op0)"
    and "sorted (t0 # map fst evs @ [t1])"
    and "\<forall>(now, op) \<in> set evs. op_node op = m \<and> op_group op = g \<longrightarrow> claims op g m ttl"
    and "claims op1 g n ttl'" "n \<noteq> m"
    and "fst (apply_op (run (snd (apply_op s t0 op0)) evs) t1 op1)"
  shows "t0 + interval ttl < t1"
proof (rule ccontr)
  assume "\<not> t0 + interval ttl < t1"
  then have t1: "t1 \<le> t0 + interval ttl" by simp
  let ?s = "snd (apply_op s t0 op0)"
  have h: "holder ?s g = Some (m, t0 + interval ttl)" by (rule granted [OF assms(1,2)])
  have "\<exists>e'. holder (run ?s evs) g = Some (m, e') \<and> e' \<ge> t0 + interval ttl"
    by (rule holder_kept [OF h order.refl])
       (use assms(3,4) t1 in \<open>auto simp: sorted_append intro: order.trans\<close>)
  then obtain e' where "holder (run ?s evs) g = Some (m, e')" "t1 \<le> e'" using t1 by auto
  from foreign_op [OF this(1), of op1 t1 ttl'] this(2) assms(5-7) claims_parts [OF assms(5)]
  show False by auto
qed

end

subsection \<open>The store provides leases\<close>

fun apply_lease_op :: "meta_db \<Rightarrow> time \<Rightarrow> lease_op \<Rightarrow> bool \<times> meta_db" where
  "apply_lease_op db now (Acquire f g n ttl) =
     (case TryAcquireGroupLease f now db g n ttl of (r, db') \<Rightarrow> (r = Inr True, db'))"
| "apply_lease_op db now (Renew f g n ttl) =
     (case RenewGroupLease f now db g n ttl of (r, db') \<Rightarrow> (r = Inr True, db'))"
| "apply_lease_op db now (Release f g n) =
     (case ReleaseGroupLease f db g n of (r, db') \<Rightarrow> (r = Inr (), db'))"

definition lease_holder :: "meta_db \<Rightarrow> string \<Rightarrow> (string \<times> time) option" where
  "lease_holder db g = map_option (\<lambda>l. (gl_NodeID l, gl_LeaseExpiresAt l)) (md_leases db g)"

lemmas lease_defs = TryAcquireGroupLease_def RenewGroupLease_def ReleaseGroupLease_def run_stmt_def
  lease_holder_def

interpretation pg_lease: lease_service apply_lease_op lease_holder lease_interval
proof
  show "lease_holder (snd (apply_lease_op s now op)) g = lease_holder s g" if "op_group op \<noteq> g" for op g s now
    using that by (cases op) (auto simp: lease_defs split: option.splits stmt_fault.splits)
  show "lease_holder (snd (apply_lease_op s now op)) g = Some (n, now + lease_interval ttl)"
    if "claims op g n ttl" "fst (apply_lease_op s now op)" for op g n ttl s now
    using that by (cases op) (auto simp: lease_defs split: option.splits stmt_fault.splits if_splits)
  show "lease_holder (snd (apply_lease_op s now op)) g \<in> {Some (n, e), Some (n, now + lease_interval ttl)}"
    if "claims op g n ttl" "lease_holder s g = Some (n, e)" for op g n ttl s e now
    using that by (cases op) (auto simp: lease_defs split: option.splits stmt_fault.splits if_splits)
  show "\<not> (fst (apply_lease_op s now op) \<and> claims op g (op_node op) ttl) \<and>
      lease_holder (snd (apply_lease_op s now op)) g = Some (m, e)"
    if "lease_holder s g = Some (m, e)" "op_node op \<noteq> m" "op_group op = g" "now \<le> e" for s g m e op now ttl
    using that by (cases op) (auto simp: lease_defs split: option.splits stmt_fault.splits if_splits)
qed

definition run_lease_ops :: "meta_db \<Rightarrow> (time \<times> lease_op) list \<Rightarrow> meta_db" where
  "run_lease_ops db evs = foldl (\<lambda>db (now, op). snd (apply_lease_op db now op)) db evs"

text \<open>
  C2. Leases exclude each other: when node m was granted group g at t0 (by an acquisition or a
  renewal) and any lease operations of any nodes follow, with any database failures, in the order of
  the database clock, then another node is granted g only after m's lease has run out, unless m
  itself released it.
\<close>

theorem lease_grants_never_overlap:
  assumes "claims op0 g m ttl" "fst (apply_lease_op db t0 op0)"
    and "sorted (t0 # map fst evs @ [t1])"
    and "\<forall>(now, op) \<in> set evs. op_node op = m \<and> op_group op = g \<longrightarrow> claims op g m ttl"
    and "claims op1 g n ttl'" "n \<noteq> m"
    and "fst (apply_lease_op (run_lease_ops (snd (apply_lease_op db t0 op0)) evs) t1 op1)"
  shows "t0 + lease_interval ttl < t1"
  using pg_lease.grants_disjoint [OF assms(1-6)] assms(7)
  unfolding pg_lease.run_def run_lease_ops_def by blast

text \<open>The fencing version of a lease row grows with every grant.\<close>

lemma lease_version_grows:
  assumes "claims op g n ttl" "fst (apply_lease_op db now op)" "md_leases db g = Some l"
  shows "\<exists>l'. md_leases (snd (apply_lease_op db now op)) g = Some l' \<and> gl_Version l' = gl_Version l + 1"
  using assms
  by (cases op) (auto simp: lease_defs split: option.splits stmt_fault.splits if_splits)

text \<open>
  Renewal and release by the letter: a renewal succeeds exactly for the recorded owner of an
  unexpired lease and sets the new expiry; an expired lease cannot be renewed and a foreign or absent
  lease cannot be released; a release by the owner frees the group for any node at once.
\<close>

theorem lease_renew_and_release:
  assumes "0 < ttl"
  shows "(fst (RenewGroupLease StmtOk now db g n ttl) = Inr True \<longleftrightarrow>
      (\<exists>e. lease_holder db g = Some (n, e) \<and> now \<le> e)) \<and>
    (fst (RenewGroupLease StmtOk now db g n ttl) = Inr True \<longrightarrow>
      lease_holder (snd (RenewGroupLease StmtOk now db g n ttl)) g = Some (n, now + lease_interval ttl)) \<and>
    (fst (RenewGroupLease StmtOk now db g n ttl) \<noteq> Inr True \<longrightarrow>
      snd (RenewGroupLease StmtOk now db g n ttl) = db) \<and>
    lease_holder (snd (ReleaseGroupLease StmtOk db g n)) g =
      (case lease_holder db g of
         None \<Rightarrow> None | Some (m, e) \<Rightarrow> if m = n then None else Some (m, e))"
  using assms by (auto simp: lease_defs split: option.splits)

subsection \<open>Witnesses\<close>

definition sample_input :: GroupInput where
  "sample_input =
     \<lparr> gi_InputID = [], gi_GroupID = [], gi_StreamKey = ''kline_1m'', gi_StreamKind = [], gi_Interval = [],
       gi_Enabled = True, gi_KafkaCluster = [], gi_KafkaTopic = ''t'', gi_KafkaGroupID = [],
       gi_DesiredStatus = [], gi_SchemaVersion = 0, gi_CreatedAt = 0, gi_UpdatedAt = 0 \<rparr>"

theorem normalized_input_is_consistent_witness:
  "\<exists>ni. normalizeInput ''g'' sample_input = Inr ni \<and> input_check ni \<and> gi_StreamKind ni = StreamKindKline \<and>
     gi_InputID ni = ''g:kline_1m''"
proof -
  obtain ni where ni: "normalizeInput ''g'' sample_input = Inr ni"
    "gi_StreamKind ni = StreamKindKline" "gi_InputID ni = ''g:kline_1m''"
    by (simp add: normalizeInput_def normalize_triple_def normalize_defaults_def sample_input_def
        ParseStreamKey_def HasPrefix_def TrimPrefix_def go_simps or_default_def NewInputID_def)
  from normalized_input_is_consistent [OF ni(1)] ni show ?thesis by blast
qed

definition sample_meta :: meta_db where
  "sample_meta = empty_meta\<lparr>md_groups := [\<lparr> mg_GroupID = ''g'', mg_Exchange = ''x'', mg_MarketType = ''spot'',
     mg_Symbol = ''s'', mg_BaseAsset = [], mg_QuoteAsset = [], mg_DesiredStatus = DesiredStatusRunning,
     mg_Weight = 1, mg_Inputs = [], mg_CreatedAt = 0, mg_UpdatedAt = 0 \<rparr>]\<rparr>"

theorem lease_grants_never_overlap_witness:
  "let evs = [(3 * second, Acquire StmtOk ''g'' ''b'' (10 * second)), (8 * second, Renew StmtOk ''g'' ''a'' (10 * second))]
   in fst (apply_lease_op sample_meta 0 (Acquire StmtOk ''g'' ''a'' (10 * second))) \<and>
      fst (apply_lease_op (run_lease_ops (snd (apply_lease_op sample_meta 0 (Acquire StmtOk ''g'' ''a'' (10 * second)))) evs)
        (19 * second) (Acquire StmtOk ''g'' ''b'' (10 * second))) \<and>
      0 + lease_interval (10 * second) < 19 * second"
proof -
  let ?evs = "[(3 * second, Acquire StmtOk ''g'' ''b'' (10 * second)), (8 * second, Renew StmtOk ''g'' ''a'' (10 * second))]"
  let ?op = "\<lambda>n. Acquire StmtOk ''g'' n (10 * second)"
  have g0: "fst (apply_lease_op sample_meta 0 (?op ''a''))"
    by (simp add: lease_defs sample_meta_def empty_meta_def has_group_def second_def)
  have g1: "fst (apply_lease_op (run_lease_ops (snd (apply_lease_op sample_meta 0 (?op ''a''))) ?evs)
      (19 * second) (?op ''b''))"
    by (simp add: run_lease_ops_def lease_defs sample_meta_def empty_meta_def has_group_def second_def
        lease_interval_def)
  have "0 + lease_interval (10 * second) < 19 * second"
    by (rule lease_grants_never_overlap [OF _ g0 _ _ _ _ g1, where g = "''g''" and m = "''a''" and n = "''b''"])
       (simp_all add: second_def)
  with g0 g1 show ?thesis by (simp only: Let_def)
qed

theorem lease_renew_and_release_witness:
  "fst (RenewGroupLease StmtOk 5 (snd (apply_lease_op sample_meta 0 (Acquire StmtOk ''g'' ''a'' second))) ''g'' ''a'' second)
     = Inr True"
proof -
  have "lease_holder (snd (apply_lease_op sample_meta 0 (Acquire StmtOk ''g'' ''a'' second))) ''g'' =
      Some (''a'', second)"
    by (simp add: lease_defs sample_meta_def empty_meta_def has_group_def second_def lease_interval_def)
  then show ?thesis
    using lease_renew_and_release [of second 5 "snd (apply_lease_op sample_meta 0 (Acquire StmtOk ''g'' ''a'' second))" "''g''" "''a''"]
    by (simp add: second_def)
qed

end
