(* ===== verification/Fact_Store.thy ===== *)
theory Fact_Store
  imports Domain_Model
begin

section \<open>The fact store: the write side of internal/storage/postgres.go\<close>

text \<open>
  The fact tables and the operations that write them. A table is the list of its rows in insertion
  order (klines: an association list by their unique key, the progress table: a map by its primary
  key); the columns and the unique keys are those of the migrations, and each SQL statement of the
  source is a function on the tables. A transaction is atomic: the \<open>FOR UPDATE\<close> lock on the progress
  row serialises the writers of one input partition.

  The database can fail at every call. A \<open>fact_fault\<close> says where: before the commit the transaction
  is rolled back (identity sequences are not), and a failed commit may still have been applied by
  the server. Constraint and conversion errors are among those failures.

  The lemmas show atomicity under every fault, idempotence of replays, the log-prefix invariant (the
  deltas of an input partition are stored in strictly increasing offset order up to the durable
  offset, so no offset is stored twice), the uniqueness of both trade keys, and that a candle never
  moves backwards.
\<close>

subsection \<open>Rows and tables\<close>

text \<open>A \<open>timestamptz\<close> keeps microseconds.\<close>

definition pg_time :: "time \<Rightarrow> time" where
  "pg_time t = (t div 1000) * 1000"

record trade_row =
  tw_id :: int64
  tw_group_id :: string
  tw_input_id :: string
  tw_event_time :: time
  tw_exchange_time :: "time option"
  tw_local_receive_time :: "time option"
  tw_trade_id :: "string option"
  tw_raw_trade_id :: "string option"
  tw_price :: string
  tw_quantity :: string
  tw_side :: string
  tw_is_aggregated :: bool
  tw_kafka_topic :: string
  tw_kafka_partition :: goint
  tw_kafka_offset :: int64
  tw_schema_version :: goint
  tw_ingested_at :: time

record kline_row =
  kw_input_id :: string
  kw_close_time :: time
  kw_open :: string
  kw_high :: string
  kw_low :: string
  kw_close :: string
  kw_volume :: string
  kw_quote_volume :: "string option"
  kw_trade_count :: int64
  kw_is_closed :: bool
  kw_revision :: int64
  kw_kafka_topic :: string
  kw_kafka_partition :: goint
  kw_kafka_offset :: int64
  kw_updated_at :: time

text \<open>The unique key (group_id, source, interval, open_time) of a candle.\<close>

type_synonym kline_key = "string \<times> string \<times> string \<times> time"

record delta_row =
  dw_group_id :: string
  dw_input_id :: string
  dw_event_time :: time
  dw_exchange_time :: "time option"
  dw_local_receive_time :: "time option"
  dw_raw_event_id :: "string option"
  dw_first_update_id :: "int64 option"
  dw_last_update_id :: "int64 option"
  dw_prev_update_id :: "int64 option"
  dw_sequence :: "int64 option"
  dw_bids :: "PriceLevel list"
  dw_asks :: "PriceLevel list"
  dw_raw_payload :: bytes
  dw_kafka_topic :: string
  dw_kafka_partition :: goint
  dw_kafka_offset :: int64
  dw_ingested_at :: time

record snapshot_row =
  sw_snapshot_id :: int64
  sw_group_id :: string
  sw_input_id :: string
  sw_snapshot_time :: time
  sw_sequence :: "int64 option"
  sw_bids :: "PriceLevel list"
  sw_asks :: "PriceLevel list"
  sw_created_at :: time

record poison_row =
  pw_input_id :: string
  pw_group_id :: string
  pw_stream_kind :: string
  pw_kafka_partition :: goint
  pw_kafka_offset :: int64
  pw_error_message :: string
  pw_raw_payload :: bytes

record progress_row =
  gw_durable_offset :: int64
  gw_last_raw_event_id :: "string option"
  gw_last_update_id :: "int64 option"
  gw_last_sequence :: "int64 option"
  gw_updated_at :: time

record fact_db =
  db_trades :: "trade_row list"
  db_trade_seq :: int64
  db_klines :: "(kline_key, kline_row) gomap"
  db_deltas :: "delta_row list"
  db_snapshots :: "snapshot_row list"
  db_snapshot_seq :: int64
  db_poison :: "poison_row list"
  db_progress :: "string \<times> goint \<Rightarrow> progress_row option"

record FactBatch =
  fb_Trades :: "Trade list"
  fb_Klines :: "Kline list"
  fb_OrderBookDeltas :: "OrderBookDelta list"
  fb_Progress :: StreamWriteProgress

datatype fact_kind = TradeFact | KlineFact | DeltaFact

datatype storage_error =
    InputIDRequired
  | PartitionNegative
  | DurableOffsetNegative
  | MixedStreamKinds
  | CoordinatesMismatch fact_kind
  | OffsetOutsidePrefix fact_kind int64 int64
  | OffsetsNotIncreasing fact_kind
  | DatabaseError string
  | ErrNotImplemented

text \<open>
  Where a fact-batch transaction fails. \<open>FailTrades n\<close> and \<open>FailKlines n\<close> fail after \<open>n\<close> statements
  of the batch; \<open>FailCommit True\<close> is a commit that the server applied although the client saw an
  error.
\<close>

datatype fact_fault =
    NoFault
  | FailBegin
  | FailInitProgress
  | FailLockProgress
  | FailTrades nat
  | FailKlines nat
  | FailDatabaseTime
  | FailCopyDeltas
  | FailUpdateProgress
  | FailCommit bool

text \<open>How a statement batch outside a transaction fails.\<close>

datatype batch_fault = BatchOk | BatchFails nat | BatchCommittedButLost

subsection \<open>Small helpers\<close>

definition nullIfEmpty :: "string \<Rightarrow> string option" where
  "nullIfEmpty s = (if s = [] then None else Some s)"

definition schemaVersionOrDefault :: "goint \<Rightarrow> goint" where
  "schemaVersionOrDefault v = (if v \<le> 0 then 1 else v)"

definition sourceOrDefault :: "string \<Rightarrow> string" where
  "sourceOrDefault s = (if s = [] then KlineSourceExchange else s)"

definition tradesAfterOffset :: "Trade list \<Rightarrow> StreamWriteProgress \<Rightarrow> int64 \<Rightarrow> Trade list" where
  "tradesAfterOffset rows p durable =
     filter (\<lambda>r. tr_InputID r = wp_InputID p \<and> tr_KafkaPartition r = wp_KafkaPartition p \<and>
                 tr_KafkaOffset r > durable \<and> tr_KafkaOffset r \<le> wp_DurableOffset p) rows"

definition klinesAfterOffset :: "Kline list \<Rightarrow> StreamWriteProgress \<Rightarrow> int64 \<Rightarrow> Kline list" where
  "klinesAfterOffset rows p durable =
     filter (\<lambda>r. kl_InputID r = wp_InputID p \<and> kl_KafkaPartition r = wp_KafkaPartition p \<and>
                 kl_KafkaOffset r > durable \<and> kl_KafkaOffset r \<le> wp_DurableOffset p) rows"

definition deltasAfterOffset ::
  "OrderBookDelta list \<Rightarrow> StreamWriteProgress \<Rightarrow> int64 \<Rightarrow> OrderBookDelta list" where
  "deltasAfterOffset rows p durable =
     filter (\<lambda>r. ob_InputID r = wp_InputID p \<and> ob_KafkaPartition r = wp_KafkaPartition p \<and>
                 ob_KafkaOffset r > durable \<and> ob_KafkaOffset r \<le> wp_DurableOffset p) rows"

subsection \<open>Validation of a batch\<close>

text \<open>The closure \<open>validate\<close> and the loop over the rows of one kind.\<close>

definition validate_coordinates ::
  "fact_kind \<Rightarrow> StreamWriteProgress \<Rightarrow> string \<Rightarrow> goint \<Rightarrow> int64 \<Rightarrow> storage_error option" where
  "validate_coordinates kind p inputID part offset =
     (if inputID \<noteq> wp_InputID p \<or> part \<noteq> wp_KafkaPartition p then Some (CoordinatesMismatch kind)
      else if offset < 0 \<or> offset > wp_DurableOffset p
      then Some (OffsetOutsidePrefix kind offset (wp_DurableOffset p))
      else None)"

fun validate_rows ::
  "fact_kind \<Rightarrow> StreamWriteProgress \<Rightarrow> int64 \<Rightarrow> (string \<times> goint \<times> int64) list \<Rightarrow> storage_error option"
where
  "validate_rows kind p previous [] = None"
| "validate_rows kind p previous ((inputID, part, offset) # rows) =
     (case validate_coordinates kind p inputID part offset of
        Some e \<Rightarrow> Some e
      | None \<Rightarrow> if offset \<le> previous then Some (OffsetsNotIncreasing kind)
                else validate_rows kind p offset rows)"

definition trade_coord :: "Trade \<Rightarrow> string \<times> goint \<times> int64" where
  "trade_coord r = (tr_InputID r, tr_KafkaPartition r, tr_KafkaOffset r)"

definition kline_coord :: "Kline \<Rightarrow> string \<times> goint \<times> int64" where
  "kline_coord r = (kl_InputID r, kl_KafkaPartition r, kl_KafkaOffset r)"

definition delta_coord :: "OrderBookDelta \<Rightarrow> string \<times> goint \<times> int64" where
  "delta_coord r = (ob_InputID r, ob_KafkaPartition r, ob_KafkaOffset r)"

definition validateFactBatch :: "FactBatch \<Rightarrow> storage_error option" where
  "validateFactBatch batch =
     (let p = fb_Progress batch;
          kinds = (if fb_Trades batch \<noteq> [] then 1 else 0) + (if fb_Klines batch \<noteq> [] then 1 else 0) +
                  (if fb_OrderBookDeltas batch \<noteq> [] then 1 else (0::nat))
      in if wp_InputID p = [] then Some InputIDRequired
         else if wp_KafkaPartition p < 0 then Some PartitionNegative
         else if wp_DurableOffset p < 0 then Some DurableOffsetNegative
         else if kinds > 1 then Some MixedStreamKinds
         else (case validate_rows TradeFact p (-1) (map trade_coord (fb_Trades batch)) of
                 Some e \<Rightarrow> Some e
               | None \<Rightarrow>
                  (case validate_rows KlineFact p (-1) (map kline_coord (fb_Klines batch)) of
                     Some e \<Rightarrow> Some e
                   | None \<Rightarrow>
                      validate_rows DeltaFact p (-1) (map delta_coord (fb_OrderBookDeltas batch)))))"

subsection \<open>Statements\<close>

text \<open>The identity column is drawn for every attempted insert, also when the row conflicts.\<close>

definition trade_row_of :: "int64 \<Rightarrow> time \<Rightarrow> Trade \<Rightarrow> trade_row" where
  "trade_row_of rowID now r =
     \<lparr> tw_id = rowID, tw_group_id = tr_GroupID r, tw_input_id = tr_InputID r,
       tw_event_time = pg_time (tr_EventTime r),
       tw_exchange_time = map_option pg_time (tr_ExchangeTime r),
       tw_local_receive_time = map_option pg_time (tr_LocalReceiveTime r),
       tw_trade_id = nullIfEmpty (tr_TradeID r), tw_raw_trade_id = nullIfEmpty (tr_RawTradeID r),
       tw_price = tr_Price r, tw_quantity = tr_Quantity r, tw_side = tr_Side r,
       tw_is_aggregated = tr_IsAggregated r, tw_kafka_topic = tr_KafkaTopic r,
       tw_kafka_partition = tr_KafkaPartition r, tw_kafka_offset = tr_KafkaOffset r,
       tw_schema_version = schemaVersionOrDefault (tr_SchemaVersion r), tw_ingested_at = pg_time now \<rparr>"

definition trade_conflict :: "trade_row \<Rightarrow> trade_row \<Rightarrow> bool" where
  "trade_conflict a b \<longleftrightarrow>
     tw_input_id a = tw_input_id b \<and>
     ((tw_kafka_partition a = tw_kafka_partition b \<and> tw_kafka_offset a = tw_kafka_offset b) \<or>
      (tw_raw_trade_id a \<noteq> None \<and> tw_raw_trade_id a = tw_raw_trade_id b))"

definition insert_trade :: "time \<Rightarrow> fact_db \<Rightarrow> Trade \<Rightarrow> fact_db" where
  "insert_trade now db r =
     (let row = trade_row_of (db_trade_seq db) now r; db = db\<lparr>db_trade_seq := db_trade_seq db + 1\<rparr>
      in if list_ex (\<lambda>x. trade_conflict x row) (db_trades db) then db
         else db\<lparr>db_trades := db_trades db @ [row]\<rparr>)"

definition kline_key_of :: "Kline \<Rightarrow> kline_key" where
  "kline_key_of r = (kl_GroupID r, sourceOrDefault (kl_Source r), kl_Interval r, pg_time (kl_OpenTime r))"

definition kline_row_of :: "time \<Rightarrow> Kline \<Rightarrow> kline_row" where
  "kline_row_of now r =
     \<lparr> kw_input_id = kl_InputID r, kw_close_time = pg_time (kl_CloseTime r), kw_open = kl_Open r,
       kw_high = kl_High r, kw_low = kl_Low r, kw_close = kl_Close r, kw_volume = kl_Volume r,
       kw_quote_volume = nullIfEmpty (kl_QuoteVolume r), kw_trade_count = kl_TradeCount r,
       kw_is_closed = kl_IsClosed r, kw_revision = kl_Revision r, kw_kafka_topic = kl_KafkaTopic r,
       kw_kafka_partition = kl_KafkaPartition r, kw_kafka_offset = kl_KafkaOffset r,
       kw_updated_at = pg_time now \<rparr>"

text \<open>The \<open>WHERE\<close> of the upsert.\<close>

definition kline_overwrites :: "kline_row \<Rightarrow> kline_row \<Rightarrow> bool" where
  "kline_overwrites old new \<longleftrightarrow>
     (\<not> kw_is_closed old \<and> kw_revision new \<ge> kw_revision old) \<or>
     (kw_is_closed old \<and> kw_revision new > kw_revision old \<and> kw_is_closed new)"

definition upsert_kline :: "time \<Rightarrow> fact_db \<Rightarrow> Kline \<Rightarrow> fact_db" where
  "upsert_kline now db r =
     (let key = kline_key_of r; row = kline_row_of now r in
      case map_of (db_klines db) key of
        None \<Rightarrow> db\<lparr>db_klines := AList.update key row (db_klines db)\<rparr>
      | Some old \<Rightarrow>
          if kline_overwrites old row then db\<lparr>db_klines := AList.update key row (db_klines db)\<rparr> else db)"

definition delta_row_of :: "time \<Rightarrow> OrderBookDelta \<Rightarrow> delta_row" where
  "delta_row_of dbNow r =
     \<lparr> dw_group_id = ob_GroupID r, dw_input_id = ob_InputID r,
       dw_event_time = pg_time (ob_EventTime r),
       dw_exchange_time = map_option pg_time (ob_ExchangeTime r),
       dw_local_receive_time = map_option pg_time (ob_LocalReceiveTime r),
       dw_raw_event_id = nullIfEmpty (ob_RawEventID r), dw_first_update_id = ob_FirstUpdateID r,
       dw_last_update_id = ob_LastUpdateID r, dw_prev_update_id = ob_PrevUpdateID r,
       dw_sequence = ob_Sequence r, dw_bids = ob_Bids r, dw_asks = ob_Asks r,
       dw_raw_payload = ob_RawPayload r, dw_kafka_topic = ob_KafkaTopic r,
       dw_kafka_partition = ob_KafkaPartition r, dw_kafka_offset = ob_KafkaOffset r,
       dw_ingested_at = pg_time (if ob_IngestedAt r = zero_time then dbNow else ob_IngestedAt r) \<rparr>"

definition insert_delta_if_new :: "time \<Rightarrow> fact_db \<Rightarrow> OrderBookDelta \<Rightarrow> fact_db" where
  "insert_delta_if_new now db r =
     (let row = delta_row_of now r in
      if list_ex (\<lambda>x. dw_input_id x = dw_input_id row \<and>
            ((dw_kafka_partition x = dw_kafka_partition row \<and> dw_kafka_offset x = dw_kafka_offset row) \<or>
             (dw_raw_event_id row \<noteq> None \<and> dw_raw_event_id x = dw_raw_event_id row))) (db_deltas db)
      then db
      else db\<lparr>db_deltas := db_deltas db @ [row]\<rparr>)"

definition insert_snapshot :: "time \<Rightarrow> fact_db \<Rightarrow> OrderBookSnapshot \<Rightarrow> fact_db" where
  "insert_snapshot now db r =
     (let row = \<lparr> sw_snapshot_id = db_snapshot_seq db, sw_group_id = sn_GroupID r,
                  sw_input_id = sn_InputID r, sw_snapshot_time = pg_time (sn_SnapshotTime r),
                  sw_sequence = sn_Sequence r, sw_bids = sn_Bids r, sw_asks = sn_Asks r,
                  sw_created_at = pg_time now \<rparr>;
          db = db\<lparr>db_snapshot_seq := db_snapshot_seq db + 1\<rparr>
      in if list_ex (\<lambda>x. sw_input_id x = sw_input_id row \<and>
                          sw_snapshot_time x = sw_snapshot_time row) (db_snapshots db)
         then db
         else db\<lparr>db_snapshots := db_snapshots db @ [row]\<rparr>)"

subsection \<open>Fact batches\<close>

definition writeTradesTx ::
  "fact_fault \<Rightarrow> time \<Rightarrow> fact_db \<Rightarrow> Trade list \<Rightarrow> storage_error option \<times> fact_db" where
  "writeTradesTx fault now tx rows =
     (if rows = [] then (None, tx)
      else (case fault of
              FailTrades n \<Rightarrow> (Some (DatabaseError ''write fact batch trades''),
                               foldl (insert_trade now) tx (take n rows))
            | _ \<Rightarrow> (None, foldl (insert_trade now) tx rows)))"

definition writeKlinesTx ::
  "fact_fault \<Rightarrow> time \<Rightarrow> fact_db \<Rightarrow> Kline list \<Rightarrow> storage_error option \<times> fact_db" where
  "writeKlinesTx fault now tx rows =
     (if rows = [] then (None, tx)
      else (case fault of
              FailKlines n \<Rightarrow> (Some (DatabaseError ''write fact batch klines''),
                               foldl (upsert_kline now) tx (take n rows))
            | _ \<Rightarrow> (None, foldl (upsert_kline now) tx rows)))"

definition writeOrderBookDeltasCopy ::
  "fact_fault \<Rightarrow> fact_db \<Rightarrow> OrderBookDelta list \<Rightarrow> time \<Rightarrow> storage_error option \<times> fact_db" where
  "writeOrderBookDeltasCopy fault tx rows dbNow =
     (if rows = [] then (None, tx)
      else if fault = FailCopyDeltas
      then (Some (DatabaseError ''write fact batch deltas: copy''), tx)
      else (None, tx\<lparr>db_deltas := db_deltas tx @ map (delta_row_of dbNow) rows\<rparr>))"

definition init_progress :: "time \<Rightarrow> fact_db \<Rightarrow> string \<times> goint \<Rightarrow> fact_db" where
  "init_progress now db k =
     (if db_progress db k \<noteq> None then db
      else db\<lparr>db_progress := (db_progress db)(k \<mapsto>
             \<lparr> gw_durable_offset = -1, gw_last_raw_event_id = None, gw_last_update_id = None,
               gw_last_sequence = None, gw_updated_at = pg_time now \<rparr>)\<rparr>)"

definition update_progress :: "time \<Rightarrow> fact_db \<Rightarrow> StreamWriteProgress \<Rightarrow> fact_db" where
  "update_progress now db p =
     db\<lparr>db_progress := (db_progress db)((wp_InputID p, wp_KafkaPartition p) \<mapsto>
          \<lparr> gw_durable_offset = wp_DurableOffset p,
            gw_last_raw_event_id = nullIfEmpty (wp_LastRawEventID p),
            gw_last_update_id = wp_LastUpdateID p, gw_last_sequence = wp_LastSequence p,
            gw_updated_at = pg_time now \<rparr>)\<rparr>"

text \<open>The deferred rollback: the tables as before, the identity sequence as drawn.\<close>

definition rolled_back :: "fact_db \<Rightarrow> fact_db \<Rightarrow> fact_db" where
  "rolled_back db tx = db\<lparr>db_trade_seq := db_trade_seq tx\<rparr>"

definition commit_tx ::
  "fact_fault \<Rightarrow> string \<Rightarrow> fact_db \<Rightarrow> fact_db \<Rightarrow> storage_error option \<times> fact_db" where
  "commit_tx fault msg db tx =
     (case fault of
        FailCommit applied \<Rightarrow> (Some (DatabaseError msg), if applied then tx else rolled_back db tx)
      | _ \<Rightarrow> (None, tx))"

definition WriteFactBatch ::
  "fact_fault \<Rightarrow> time \<Rightarrow> fact_db \<Rightarrow> FactBatch \<Rightarrow> storage_error option \<times> fact_db" where
  "WriteFactBatch fault now db batch =
     (let p = fb_Progress batch; k = (wp_InputID p, wp_KafkaPartition p) in
      case validateFactBatch batch of
        Some e \<Rightarrow> (Some e, db)
      | None \<Rightarrow>
        if fault = FailBegin then (Some (DatabaseError ''write fact batch: begin''), db)
        else if fault = FailInitProgress
        then (Some (DatabaseError ''write fact batch: initialize progress''), db)
        else
        let tx = init_progress now db k in
        if fault = FailLockProgress
        then (Some (DatabaseError ''write fact batch: lock progress''), rolled_back db tx)
        else
        (case db_progress tx k of
           None \<Rightarrow> (Some (DatabaseError ''write fact batch: lock progress''), rolled_back db tx)
         | Some row \<Rightarrow>
           let durable = gw_durable_offset row in
           if wp_DurableOffset p \<le> durable
           then commit_tx fault ''write fact batch replay commit'' db tx
           else
           (case writeTradesTx fault now tx (tradesAfterOffset (fb_Trades batch) p durable) of
              (Some e, tx) \<Rightarrow> (Some e, rolled_back db tx)
            | (None, tx) \<Rightarrow>
           (case writeKlinesTx fault now tx (klinesAfterOffset (fb_Klines batch) p durable) of
              (Some e, tx) \<Rightarrow> (Some e, rolled_back db tx)
            | (None, tx) \<Rightarrow>
           let deltas = deltasAfterOffset (fb_OrderBookDeltas batch) p durable in
           if deltas \<noteq> [] \<and> fault = FailDatabaseTime
           then (Some (DatabaseError ''write fact batch: database time''), rolled_back db tx)
           else
           (case writeOrderBookDeltasCopy fault tx deltas now of
              (Some e, tx) \<Rightarrow> (Some e, rolled_back db tx)
            | (None, tx) \<Rightarrow>
           if fault = FailUpdateProgress
           then (Some (DatabaseError ''write fact batch: update progress''), rolled_back db tx)
           else commit_tx fault ''write fact batch: commit'' db (update_progress now tx p))))))"

text \<open>The flag is false when the row does not exist; a failed query is an error.\<close>

definition LoadStreamWriteProgress ::
  "bool \<Rightarrow> fact_db \<Rightarrow> string \<Rightarrow> goint \<Rightarrow> storage_error + StreamWriteProgress option" where
  "LoadStreamWriteProgress fails db inputID part =
     (if fails then Inl (DatabaseError ''load stream write progress'')
      else (case db_progress db (inputID, part) of
              None \<Rightarrow> Inr None
            | Some row \<Rightarrow> Inr (Some
                \<lparr> wp_InputID = inputID, wp_KafkaPartition = part,
                  wp_DurableOffset = gw_durable_offset row,
                  wp_LastRawEventID = (case gw_last_raw_event_id row of None \<Rightarrow> [] | Some s \<Rightarrow> s),
                  wp_LastUpdateID = gw_last_update_id row, wp_LastSequence = gw_last_sequence row,
                  wp_UpdatedAt = gw_updated_at row \<rparr>)))"

subsection \<open>Direct writes\<close>

text \<open>\<open>exec\<close>: a statement batch in an implicit transaction.\<close>

definition exec_batch ::
  "batch_fault \<Rightarrow> string \<Rightarrow> (fact_db \<Rightarrow> 'r \<Rightarrow> fact_db) \<Rightarrow> fact_db \<Rightarrow> 'r list \<Rightarrow>
   storage_error option \<times> fact_db" where
  "exec_batch fault op stmt db rows =
     (case fault of
        BatchOk \<Rightarrow> (None, foldl stmt db rows)
      | BatchFails n \<Rightarrow>
          (let tx = foldl stmt db (take n rows)
           in (Some (DatabaseError op),
               db\<lparr>db_trade_seq := db_trade_seq tx, db_snapshot_seq := db_snapshot_seq tx\<rparr>))
      | BatchCommittedButLost \<Rightarrow> (Some (DatabaseError op), foldl stmt db rows))"

definition WriteTrades ::
  "batch_fault \<Rightarrow> time \<Rightarrow> fact_db \<Rightarrow> Trade list \<Rightarrow> storage_error option \<times> fact_db" where
  "WriteTrades fault now db rows =
     (if rows = [] then (None, db) else exec_batch fault ''write trades'' (insert_trade now) db rows)"

definition WriteKlines ::
  "batch_fault \<Rightarrow> time \<Rightarrow> fact_db \<Rightarrow> Kline list \<Rightarrow> storage_error option \<times> fact_db" where
  "WriteKlines fault now db rows =
     (if rows = [] then (None, db) else exec_batch fault ''write klines'' (upsert_kline now) db rows)"

definition WriteOrderBookDeltas ::
  "bool \<Rightarrow> batch_fault \<Rightarrow> time \<Rightarrow> fact_db \<Rightarrow> OrderBookDelta list \<Rightarrow> storage_error option \<times> fact_db" where
  "WriteOrderBookDeltas timeFails fault now db rows =
     (if rows = [] then (None, db)
      else if timeFails \<and> list_ex (\<lambda>r. ob_IngestedAt r = zero_time) rows
      then (Some (DatabaseError ''write deltas: database time''), db)
      else exec_batch fault ''write orderbook deltas'' (insert_delta_if_new now) db rows)"

definition WriteOrderBookSnapshots ::
  "batch_fault \<Rightarrow> time \<Rightarrow> fact_db \<Rightarrow> OrderBookSnapshot list \<Rightarrow> storage_error option \<times> fact_db" where
  "WriteOrderBookSnapshots fault now db rows =
     (if rows = [] then (None, db)
      else exec_batch fault ''write orderbook snapshots'' (insert_snapshot now) db rows)"

definition WritePoisonRecord ::
  "batch_fault \<Rightarrow> fact_db \<Rightarrow> PoisonRecord \<Rightarrow> storage_error option \<times> fact_db" where
  "WritePoisonRecord fault db r =
     (let row = \<lparr> pw_input_id = pr_InputID r, pw_group_id = pr_GroupID r,
                  pw_stream_kind = pr_StreamKind r, pw_kafka_partition = pr_Partition r,
                  pw_kafka_offset = pr_Offset r, pw_error_message = pr_ErrorMessage r,
                  pw_raw_payload = pr_RawPayload r \<rparr>;
          db' = (if list_ex (\<lambda>x. pw_input_id x = pw_input_id row \<and>
                        pw_kafka_partition x = pw_kafka_partition row \<and>
                        pw_kafka_offset x = pw_kafka_offset row) (db_poison db)
                 then db else db\<lparr>db_poison := db_poison db @ [row]\<rparr>)
      in case fault of
           BatchOk \<Rightarrow> (None, db')
         | BatchFails n \<Rightarrow> (Some (DatabaseError ''write poison record''), db)
         | BatchCommittedButLost \<Rightarrow> (Some (DatabaseError ''write poison record''), db'))"

definition WriteTradeMetrics :: "fact_db \<Rightarrow> 'a list \<Rightarrow> storage_error option \<times> fact_db" where
  "WriteTradeMetrics db rows = (Some ErrNotImplemented, db)"

definition WriteBookMetrics :: "fact_db \<Rightarrow> 'a list \<Rightarrow> storage_error option \<times> fact_db" where
  "WriteBookMetrics db rows = (Some ErrNotImplemented, db)"

definition WriteCrossMetrics :: "fact_db \<Rightarrow> 'a list \<Rightarrow> storage_error option \<times> fact_db" where
  "WriteCrossMetrics db rows = (Some ErrNotImplemented, db)"

subsection \<open>What a statement leaves alone\<close>

lemma insert_trade_frame [simp]:
  "db_klines (insert_trade now db r) = db_klines db" "db_deltas (insert_trade now db r) = db_deltas db"
  "db_progress (insert_trade now db r) = db_progress db" "db_poison (insert_trade now db r) = db_poison db"
  "db_snapshots (insert_trade now db r) = db_snapshots db"
  by (simp_all add: insert_trade_def Let_def)

lemma insert_trades_frame [simp]:
  "db_klines (foldl (insert_trade now) db rs) = db_klines db"
  "db_deltas (foldl (insert_trade now) db rs) = db_deltas db"
  "db_progress (foldl (insert_trade now) db rs) = db_progress db"
  "db_poison (foldl (insert_trade now) db rs) = db_poison db"
  "db_snapshots (foldl (insert_trade now) db rs) = db_snapshots db"
  by (induction rs arbitrary: db) simp_all

lemma upsert_kline_frame [simp]:
  "db_trades (upsert_kline now db r) = db_trades db" "db_deltas (upsert_kline now db r) = db_deltas db"
  "db_progress (upsert_kline now db r) = db_progress db" "db_poison (upsert_kline now db r) = db_poison db"
  "db_snapshots (upsert_kline now db r) = db_snapshots db"
  "db_trade_seq (upsert_kline now db r) = db_trade_seq db"
  by (simp_all add: upsert_kline_def Let_def split: option.splits)

lemma upsert_klines_frame [simp]:
  "db_trades (foldl (upsert_kline now) db rs) = db_trades db"
  "db_deltas (foldl (upsert_kline now) db rs) = db_deltas db"
  "db_progress (foldl (upsert_kline now) db rs) = db_progress db"
  "db_poison (foldl (upsert_kline now) db rs) = db_poison db"
  "db_snapshots (foldl (upsert_kline now) db rs) = db_snapshots db"
  "db_trade_seq (foldl (upsert_kline now) db rs) = db_trade_seq db"
  by (induction rs arbitrary: db) simp_all

lemma init_progress_frame [simp]:
  "db_trades (init_progress now db k) = db_trades db" "db_klines (init_progress now db k) = db_klines db"
  "db_deltas (init_progress now db k) = db_deltas db" "db_poison (init_progress now db k) = db_poison db"
  "db_snapshots (init_progress now db k) = db_snapshots db"
  "db_trade_seq (init_progress now db k) = db_trade_seq db"
  by (simp_all add: init_progress_def)

lemma update_progress_frame [simp]:
  "db_trades (update_progress now db p) = db_trades db" "db_klines (update_progress now db p) = db_klines db"
  "db_deltas (update_progress now db p) = db_deltas db" "db_poison (update_progress now db p) = db_poison db"
  "db_snapshots (update_progress now db p) = db_snapshots db"
  by (simp_all add: update_progress_def)

text \<open>The trades and klines statements read only their own table.\<close>

lemma insert_trade_local:
  assumes "db_trades db = db_trades db'" "db_trade_seq db = db_trade_seq db'"
  shows "db_trades (insert_trade now db r) = db_trades (insert_trade now db' r)"
    "db_trade_seq (insert_trade now db r) = db_trade_seq (insert_trade now db' r)"
  by (simp_all add: insert_trade_def Let_def assms)

lemma insert_trades_local:
  assumes "db_trades db = db_trades db'" "db_trade_seq db = db_trade_seq db'"
  shows "db_trades (foldl (insert_trade now) db rs) = db_trades (foldl (insert_trade now) db' rs)"
  using assms
proof (induction rs arbitrary: db db')
  case (Cons r rs)
  show ?case unfolding foldl.simps by (rule Cons.IH) (rule insert_trade_local; rule Cons.prems)+
qed simp

lemma upsert_kline_local:
  assumes "db_klines db = db_klines db'"
  shows "db_klines (upsert_kline now db r) = db_klines (upsert_kline now db' r)"
  by (simp add: upsert_kline_def Let_def assms split: option.splits)

lemma upsert_klines_local:
  assumes "db_klines db = db_klines db'"
  shows "db_klines (foldl (upsert_kline now) db rs) = db_klines (foldl (upsert_kline now) db' rs)"
  using assms
proof (induction rs arbitrary: db db')
  case (Cons r rs)
  show ?case unfolding foldl.simps by (rule Cons.IH) (rule upsert_kline_local, rule Cons.prems)
qed simp

subsection \<open>Effect and atomicity of a fact batch\<close>

definition durable_of :: "fact_db \<Rightarrow> string \<times> goint \<Rightarrow> int64" where
  "durable_of db k = (case db_progress db k of None \<Rightarrow> -1 | Some row \<Rightarrow> gw_durable_offset row)"

text \<open>The tables after a batch that was applied.\<close>

definition applied :: "time \<Rightarrow> fact_db \<Rightarrow> FactBatch \<Rightarrow> fact_db" where
  "applied now db batch = snd (WriteFactBatch NoFault now db batch)"

lemma init_progress_row:
  "\<exists>row. db_progress (init_progress now db k) k = Some row \<and> gw_durable_offset row = durable_of db k"
  by (auto simp: init_progress_def durable_of_def)

lemma init_progress_durable [simp]: "durable_of (init_progress now db k) = durable_of db"
  by (auto simp: init_progress_def durable_of_def fun_eq_iff)

lemma update_progress_durable:
  "durable_of (update_progress now db p) =
     (durable_of db)((wp_InputID p, wp_KafkaPartition p) := wp_DurableOffset p)"
  by (auto simp: fun_eq_iff durable_of_def update_progress_def)

lemma durable_of_frame [simp]:
  "durable_of (db\<lparr>db_deltas := x\<rparr>) = durable_of db"
  "durable_of (foldl (insert_trade now) db ts) = durable_of db"
  "durable_of (foldl (upsert_kline now) db ks) = durable_of db"
  by (simp_all add: fun_eq_iff durable_of_def)

lemma after_offset_replay:
  assumes "wp_DurableOffset p \<le> d"
  shows "tradesAfterOffset ts p d = []" "klinesAfterOffset ks p d = []" "deltasAfterOffset ds p d = []"
  using assms by (auto simp: tradesAfterOffset_def klinesAfterOffset_def deltasAfterOffset_def
      filter_empty_conv)

lemma write_facts_no_fault:
  "writeTradesTx NoFault now tx ts = (None, foldl (insert_trade now) tx ts)"
  "writeKlinesTx NoFault now tx ks = (None, foldl (upsert_kline now) tx ks)"
  "writeOrderBookDeltasCopy NoFault tx ds now =
     (None, tx\<lparr>db_deltas := db_deltas tx @ map (delta_row_of now) ds\<rparr>)"
  by (simp_all add: writeTradesTx_def writeKlinesTx_def writeOrderBookDeltasCopy_def)

lemma applied_tables:
  assumes "validateFactBatch batch = None" "p = fb_Progress batch"
    and "k = (wp_InputID p, wp_KafkaPartition p)" "d = durable_of db k"
  shows "db_trades (applied now db batch) =
      db_trades (foldl (insert_trade now) db (tradesAfterOffset (fb_Trades batch) p d)) \<and>
    db_klines (applied now db batch) =
      db_klines (foldl (upsert_kline now) db (klinesAfterOffset (fb_Klines batch) p d)) \<and>
    db_deltas (applied now db batch) =
      db_deltas db @ map (delta_row_of now) (deltasAfterOffset (fb_OrderBookDeltas batch) p d) \<and>
    durable_of (applied now db batch) = (durable_of db)(k := max d (wp_DurableOffset p)) \<and>
    db_poison (applied now db batch) = db_poison db \<and>
    db_snapshots (applied now db batch) = db_snapshots db"
proof -
  obtain row where row: "db_progress (init_progress now db k) k = Some row" "gw_durable_offset row = d"
    using init_progress_row assms(4) by blast
  let ?tx0 = "init_progress now db k"
  let ?tx1 = "foldl (insert_trade now) ?tx0 (tradesAfterOffset (fb_Trades batch) p d)"
  let ?tx2 = "foldl (upsert_kline now) ?tx1 (klinesAfterOffset (fb_Klines batch) p d)"
  have trades: "db_trades ?tx1 =
      db_trades (foldl (insert_trade now) db (tradesAfterOffset (fb_Trades batch) p d))"
    by (rule insert_trades_local) simp_all
  have klines: "db_klines ?tx2 =
      db_klines (foldl (upsert_kline now) db (klinesAfterOffset (fb_Klines batch) p d))"
    by (rule upsert_klines_local) simp
  have eq: "applied now db batch =
      (if wp_DurableOffset p \<le> d then ?tx0
       else update_progress now (?tx2\<lparr>db_deltas := db_deltas ?tx2 @
              map (delta_row_of now) (deltasAfterOffset (fb_OrderBookDeltas batch) p d)\<rparr>) p)"
    unfolding applied_def WriteFactBatch_def Let_def assms(1,2) [symmetric] assms(3) [symmetric]
    by (simp add: assms(1) row write_facts_no_fault commit_tx_def)
  show ?thesis
  proof (cases "wp_DurableOffset p \<le> d")
    case True
    then show ?thesis using assms(4) by (simp add: eq after_offset_replay max_def fun_eq_iff)
  next
    case False
    have "durable_of (update_progress now (?tx2\<lparr>db_deltas := x\<rparr>) p) =
        (durable_of ?tx0)(k := wp_DurableOffset p)" for x
      unfolding update_progress_durable assms(3) by simp
    with False trades klines show ?thesis by (simp add: eq max_def)
  qed
qed

text \<open>
  Every outcome of a write leaves either the tables of an applied batch or the tables as they were;
  a nil error means applied.
\<close>

lemma write_tx_cases:
  "writeTradesTx fault now tx ts = writeTradesTx NoFault now tx ts \<or>
     (\<exists>e tx'. writeTradesTx fault now tx ts = (Some e, tx'))"
  "writeKlinesTx fault now tx ks = writeKlinesTx NoFault now tx ks \<or>
     (\<exists>e tx'. writeKlinesTx fault now tx ks = (Some e, tx'))"
  "writeOrderBookDeltasCopy fault tx ds now = writeOrderBookDeltasCopy NoFault tx ds now \<or>
     (\<exists>e tx'. writeOrderBookDeltasCopy fault tx ds now = (Some e, tx'))"
  by (cases fault; simp add: writeTradesTx_def writeKlinesTx_def writeOrderBookDeltasCopy_def)+

definition outcome_ok :: "fact_db \<Rightarrow> fact_db \<Rightarrow> storage_error option \<times> fact_db \<Rightarrow> bool" where
  "outcome_ok db db' r \<longleftrightarrow>
     snd r = db' \<or> (fst r \<noteq> None \<and> (\<exists>n. snd r = db\<lparr>db_trade_seq := n\<rparr>))"

lemma outcome_ok_rolled_back: "outcome_ok db db' (Some e, rolled_back db tx)"
  by (auto simp: outcome_ok_def rolled_back_def)

lemma outcome_ok_unchanged: "outcome_ok db db' (Some e, db)"
proof -
  have "db = db\<lparr>db_trade_seq := db_trade_seq db\<rparr>" by simp
  then show ?thesis unfolding outcome_ok_def by (metis fst_conv option.distinct(1) snd_conv)
qed

lemma outcome_ok_commit: "outcome_ok db tx (commit_tx fault msg db tx)"
  by (cases fault) (auto simp: commit_tx_def outcome_ok_def rolled_back_def)

lemma WriteFactBatch_outcome: "outcome_ok db (applied now db batch) (WriteFactBatch fault now db batch)"
proof (cases "validateFactBatch batch")
  case (Some e)
  then show ?thesis by (simp add: WriteFactBatch_def applied_def Let_def outcome_ok_def)
next
  case None
  define p where "p = fb_Progress batch"
  define k where "k = (wp_InputID p, wp_KafkaPartition p)"
  obtain row where row: "db_progress (init_progress now db k) k = Some row"
    using init_progress_row by blast
  define d where "d = gw_durable_offset row"
  note rb = outcome_ok_rolled_back outcome_ok_unchanged
  note defs = WriteFactBatch_def Let_def p_def [symmetric] k_def [symmetric] None row
    option.case d_def [symmetric]
  show ?thesis
  proof (cases "wp_DurableOffset p \<le> d")
    case True
    then have "applied now db batch = init_progress now db k"
      unfolding applied_def defs by (simp add: commit_tx_def)
    then show ?thesis unfolding defs using True by (simp add: rb outcome_ok_commit)
  next
    case False
    let ?ts = "tradesAfterOffset (fb_Trades batch) p d"
    let ?ks = "klinesAfterOffset (fb_Klines batch) p d"
    let ?ds = "deltasAfterOffset (fb_OrderBookDeltas batch) p d"
    let ?tx1 = "foldl (insert_trade now) (init_progress now db k) ?ts"
    let ?tx2 = "foldl (upsert_kline now) ?tx1 ?ks"
    let ?tx3 = "update_progress now (?tx2\<lparr>db_deltas := db_deltas ?tx2 @ map (delta_row_of now) ?ds\<rparr>) p"
    have ap: "applied now db batch = ?tx3"
      unfolding applied_def defs using False by (simp add: commit_tx_def write_facts_no_fault)
    show ?thesis unfolding ap defs
      using False write_tx_cases(1) [of fault now "init_progress now db k" ?ts]
        write_tx_cases(2) [of fault now ?tx1 ?ks] write_tx_cases(3) [of fault ?tx2 ?ds now]
      by (auto simp: rb outcome_ok_commit write_facts_no_fault)
  qed
qed

text \<open>
  C4. A fact batch is atomic under every fault of the database: whatever fails, afterwards the
  tables are either those of the whole batch applied, facts and progress together, or exactly those
  from before (only the identity sequence may have moved); a nil error means applied.
\<close>

theorem fact_batch_atomic:
  "case WriteFactBatch fault now db batch of (err, db') \<Rightarrow>
     (err = None \<longrightarrow> db' = snd (WriteFactBatch NoFault now db batch)) \<and>
     (db' = snd (WriteFactBatch NoFault now db batch) \<or> (\<exists>n. db' = db\<lparr>db_trade_seq := n\<rparr>))"
  using WriteFactBatch_outcome [of db now batch fault]
  by (auto simp: outcome_ok_def applied_def split: prod.splits)

subsection \<open>The log of an input partition\<close>

lemma validate_rows_None_iff:
  "validate_rows kind p previous rows = None \<longleftrightarrow>
     list_all (\<lambda>(i, q, off). i = wp_InputID p \<and> q = wp_KafkaPartition p \<and> 0 \<le> off \<and>
                             off \<le> wp_DurableOffset p) rows \<and>
     sorted_wrt (<) (previous # map (snd \<circ> snd) rows)"
proof (induction rows arbitrary: previous)
  case (Cons r rows)
  obtain i q off where r: "r = (i, q, off)" by (cases r)
  show ?case
    unfolding r validate_rows.simps by (auto simp: validate_coordinates_def Cons.IH)
qed simp

lemma validateFactBatch_deltas:
  assumes "validateFactBatch batch = None" "p = fb_Progress batch"
  shows "list_all (\<lambda>r. ob_InputID r = wp_InputID p \<and> ob_KafkaPartition r = wp_KafkaPartition p \<and>
      0 \<le> ob_KafkaOffset r \<and> ob_KafkaOffset r \<le> wp_DurableOffset p) (fb_OrderBookDeltas batch)"
    and "sorted_wrt (<) (map ob_KafkaOffset (fb_OrderBookDeltas batch))"
proof -
  from assms have "validate_rows DeltaFact p (-1) (map delta_coord (fb_OrderBookDeltas batch)) = None"
    by (simp add: validateFactBatch_def Let_def split: if_splits option.splits)
  then show "list_all (\<lambda>r. ob_InputID r = wp_InputID p \<and> ob_KafkaPartition r = wp_KafkaPartition p \<and>
      0 \<le> ob_KafkaOffset r \<and> ob_KafkaOffset r \<le> wp_DurableOffset p) (fb_OrderBookDeltas batch)"
    and "sorted_wrt (<) (map ob_KafkaOffset (fb_OrderBookDeltas batch))"
    by (simp_all add: validate_rows_None_iff list_all_iff delta_coord_def comp_def)
qed

lemma deltasAfterOffset_valid:
  assumes "validateFactBatch batch = None" "p = fb_Progress batch"
  shows "deltasAfterOffset (fb_OrderBookDeltas batch) p d =
    filter (\<lambda>r. d < ob_KafkaOffset r) (fb_OrderBookDeltas batch)"
  using validateFactBatch_deltas(1) [OF assms]
  by (auto simp: deltasAfterOffset_def list_all_iff intro: filter_cong)

definition stream_deltas :: "fact_db \<Rightarrow> string \<times> goint \<Rightarrow> delta_row list" where
  "stream_deltas db k = filter (\<lambda>r. (dw_input_id r, dw_kafka_partition r) = k) (db_deltas db)"

lemma applied_stream_deltas:
  assumes "validateFactBatch batch = None" "p = fb_Progress batch"
  shows "stream_deltas (applied now db batch) k =
    stream_deltas db k @
    (if k = (wp_InputID p, wp_KafkaPartition p)
     then map (delta_row_of now)
            (filter (\<lambda>r. durable_of db k < ob_KafkaOffset r) (fb_OrderBookDeltas batch))
     else [])"
proof -
  let ?k = "(wp_InputID p, wp_KafkaPartition p)"
  let ?new = "filter (\<lambda>r. durable_of db ?k < ob_KafkaOffset r) (fb_OrderBookDeltas batch)"
  have tab: "db_deltas (applied now db batch) = db_deltas db @ map (delta_row_of now) ?new"
    using applied_tables [OF assms refl refl, of now db] deltasAfterOffset_valid [OF assms] by simp
  have "(dw_input_id (delta_row_of now r), dw_kafka_partition (delta_row_of now r)) = ?k"
    if "r \<in> set ?new" for r
    using validateFactBatch_deltas(1) [OF assms] that by (auto simp: list_all_iff delta_row_of_def)
  then have "filter (\<lambda>r. (dw_input_id r, dw_kafka_partition r) = k) (map (delta_row_of now) ?new) =
      (if k = ?k then map (delta_row_of now) ?new else [])"
    by (cases "k = ?k") (fastforce simp: filter_empty_conv, force simp: filter_empty_conv)
  then show ?thesis by (cases "k = ?k") (simp_all only: stream_deltas_def tab filter_append if_True if_False)
qed

text \<open>
  The log invariant: per input partition, the stored deltas have strictly increasing offsets, none
  above the durable offset.
\<close>

definition delta_log_inv :: "fact_db \<Rightarrow> bool" where
  "delta_log_inv db \<longleftrightarrow> (\<forall>k. sorted_wrt (<) (map dw_kafka_offset (stream_deltas db k)) \<and>
     (\<forall>r \<in> set (stream_deltas db k). dw_kafka_offset r \<le> durable_of db k))"

lemma delta_log_invD:
  assumes "delta_log_inv db"
  shows "sorted_wrt (<) (map dw_kafka_offset (stream_deltas db k))"
    and "\<forall>r \<in> set (stream_deltas db k). dw_kafka_offset r \<le> durable_of db k"
  using assms unfolding delta_log_inv_def by blast+

lemma dw_kafka_offset_of [simp]: "dw_kafka_offset (delta_row_of now r) = ob_KafkaOffset r"
  by (simp add: delta_row_of_def)

lemma applied_durable:
  assumes "validateFactBatch batch = None" "p = fb_Progress batch"
  shows "durable_of (applied now db batch) =
    (durable_of db)((wp_InputID p, wp_KafkaPartition p) :=
       max (durable_of db (wp_InputID p, wp_KafkaPartition p)) (wp_DurableOffset p))"
  using applied_tables [OF assms refl refl] by blast

lemma applied_log_inv:
  assumes "delta_log_inv db" "validateFactBatch batch = None"
  shows "delta_log_inv (applied now db batch)"
proof -
  define p where "p = fb_Progress batch"
  define k' where "k' = (wp_InputID p, wp_KafkaPartition p)"
  note valid = validateFactBatch_deltas [OF assms(2) p_def]
  note inv = delta_log_invD [OF assms(1)]
  have "sorted_wrt (<) (map dw_kafka_offset (stream_deltas (applied now db batch) k)) \<and>
      (\<forall>r \<in> set (stream_deltas (applied now db batch) k).
         dw_kafka_offset r \<le> durable_of (applied now db batch) k)" for k
  proof (cases "k = k'")
    case True
    have "sorted_wrt (<) (map ob_KafkaOffset
        (filter (\<lambda>r. durable_of db k < ob_KafkaOffset r) (fb_OrderBookDeltas batch)))"
      using valid(2) by (simp add: sorted_wrt_map sorted_wrt_filter)
    with True inv(1) [of k] inv(2) [of k] valid(1) show ?thesis
      unfolding applied_stream_deltas [OF assms(2) p_def] applied_durable [OF assms(2) p_def]
      by (fastforce simp: k'_def sorted_wrt_append comp_def list_all_iff)
  next
    case False
    with inv(1) [of k] inv(2) [of k] show ?thesis
      unfolding applied_stream_deltas [OF assms(2) p_def] applied_durable [OF assms(2) p_def]
      by (auto simp: k'_def)
  qed
  then show ?thesis by (simp add: delta_log_inv_def)
qed

lemma stream_deltas_seq [simp]:
  "stream_deltas (db\<lparr>db_trade_seq := n\<rparr>) k = stream_deltas db k"
  "durable_of (db\<lparr>db_trade_seq := n\<rparr>) = durable_of db"
  by (simp_all add: stream_deltas_def durable_of_def fun_eq_iff)

lemma applied_invalid: "validateFactBatch batch \<noteq> None \<Longrightarrow> applied now db batch = db"
  by (auto simp: applied_def WriteFactBatch_def Let_def)

text \<open>What holds of an applied batch and of an untouched database holds of every outcome.\<close>

lemma WriteFactBatch_induct:
  assumes "\<And>n. P (db\<lparr>db_trade_seq := n\<rparr>)"
    and "validateFactBatch batch = None \<Longrightarrow> P (applied now db batch)"
  shows "P (snd (WriteFactBatch fault now db batch))"
proof -
  have "P db" using assms(1) [of "db_trade_seq db"] by simp
  then have "P (applied now db batch)" using assms(2) applied_invalid by metis
  then show ?thesis
    using WriteFactBatch_outcome [of db now batch fault] assms(1) by (auto simp: outcome_ok_def)
qed

type_synonym fact_write = "fact_fault \<times> time \<times> FactBatch"

definition fact_step :: "fact_db \<Rightarrow> fact_write \<Rightarrow> fact_db" where
  "fact_step db w = (case w of (fault, now, batch) \<Rightarrow> snd (WriteFactBatch fault now db batch))"

lemma fact_step_log_inv: "delta_log_inv db \<Longrightarrow> delta_log_inv (fact_step db w)"
proof -
  assume inv: "delta_log_inv db"
  obtain fault now batch where w: "w = (fault, now, batch)" by (cases w)
  have "delta_log_inv (snd (WriteFactBatch fault now db batch))"
  proof (rule WriteFactBatch_induct)
    show "delta_log_inv (db\<lparr>db_trade_seq := n\<rparr>)" for n
      using inv unfolding delta_log_inv_def stream_deltas_seq .
  qed (rule applied_log_inv [OF inv])
  then show "delta_log_inv (fact_step db w)" by (simp add: fact_step_def w)
qed

interpretation fact_log: stepper fact_step delta_log_inv "\<lambda>w. True"
  by unfold_locales (rule fact_step_log_inv)

definition empty_db :: fact_db where
  "empty_db = \<lparr> db_trades = [], db_trade_seq = 1, db_klines = [], db_deltas = [], db_snapshots = [],
     db_snapshot_seq = 1, db_poison = [], db_progress = (\<lambda>_. None) \<rparr>"

text \<open>
  C14. Through every sequence of fact batches, valid or not, replayed or overlapping, with any fault
  at any point, the order-book deltas of each input partition are stored in strictly increasing
  Kafka-offset order and never beyond the durable offset: no offset is stored twice, although the
  partitioned table has no unique index to enforce it.
\<close>

theorem deltas_stored_once_in_order:
  "delta_log_inv (foldl fact_step empty_db ws) \<and>
   distinct (map dw_kafka_offset (stream_deltas (foldl fact_step empty_db ws) k))"
proof -
  have "delta_log_inv empty_db" by (simp add: delta_log_inv_def stream_deltas_def empty_db_def)
  then have "delta_log_inv (foldl fact_step empty_db ws)"
    by (rule fact_log.run_inv) (simp add: list_all_iff)
  then show ?thesis using delta_log_invD(1) strict_sorted_iff by blast
qed

text \<open>Writing the same batch again, after any earlier outcome that applied it, changes no table.\<close>

lemma applied_twice:
  assumes "validateFactBatch batch = None"
  shows "applied now' (applied now db batch) batch = applied now db batch"
proof -
  let ?db = "applied now db batch" and ?p = "fb_Progress batch"
  let ?k = "(wp_InputID ?p, wp_KafkaPartition ?p)"
  have d: "wp_DurableOffset ?p \<le> durable_of ?db ?k"
    by (simp add: applied_durable [OF assms refl])
  have "0 \<le> wp_DurableOffset ?p"
    using assms by (simp add: validateFactBatch_def Let_def split: if_splits)
  with d obtain row where row: "db_progress ?db ?k = Some row" "wp_DurableOffset ?p \<le> gw_durable_offset row"
    by (auto simp: durable_of_def split: option.splits)
  then have "init_progress now' ?db ?k = ?db" by (simp add: init_progress_def)
  with row show ?thesis
    by (simp add: applied_def [of now'] WriteFactBatch_def Let_def assms commit_tx_def)
qed

text \<open>
  C15. Replay is idempotent: writing a valid batch a second time, whatever the first attempt's fault
  was, ends in the same tables as writing it once, so a Kafka commit that fails after the database
  commit never duplicates a fact.
\<close>

theorem fact_batch_replay_idempotent:
  assumes "validateFactBatch batch = None"
    and "WriteFactBatch fault now db batch = (err, db')"
    and "WriteFactBatch NoFault now' db' batch = (err', db'')"
  shows "err' = None \<and>
    (db'' = snd (WriteFactBatch NoFault now db batch) \<or>
     (\<exists>n. db'' = snd (WriteFactBatch NoFault now' (db\<lparr>db_trade_seq := n\<rparr>) batch)))"
proof -
  have "err' = None"
    using assms(1,3) init_progress_row [of now' db' "(wp_InputID (fb_Progress batch), wp_KafkaPartition (fb_Progress batch))"]
    by (auto simp: WriteFactBatch_def Let_def write_facts_no_fault commit_tx_def split: if_splits)
  moreover have "db'' = applied now' db' batch" using assms(3) by (simp add: applied_def)
  moreover from WriteFactBatch_outcome [of db now batch fault] assms(2)
  have "db' = applied now db batch \<or> (\<exists>n. db' = db\<lparr>db_trade_seq := n\<rparr>)"
    by (auto simp: outcome_ok_def)
  ultimately show ?thesis
    using applied_twice [OF assms(1)] unfolding applied_def by auto
qed

subsection \<open>Exactly-once storage of a log\<close>

text \<open>
  Consecutive chunks of a log with strictly increasing offsets: what is at or below the durable
  offset, followed by what the next chunk adds above it.
\<close>

lemma log_chunk:
  fixes off :: "'a \<Rightarrow> int"
  assumes "sorted_wrt (<) (map off L)" "lo \<le> d"
  shows "filter (\<lambda>x. off x \<le> d) L @ filter (\<lambda>x. d < off x) (filter (\<lambda>x. lo < off x \<and> off x \<le> hi) L) =
    filter (\<lambda>x. off x \<le> max d hi) L"
  using assms
proof (induction L)
  case (Cons x L)
  have tl: "sorted_wrt (<) (map off L)" "\<forall>y \<in> set L. off x < off y" using Cons.prems by simp_all
  show ?case
  proof (cases "off x \<le> d")
    case True
    then show ?thesis using Cons.IH [OF tl(1) assms(2)] by (simp add: max_def)
  next
    case False
    then have "filter (\<lambda>x. off x \<le> d) L = []" using tl(2) by (auto simp: filter_empty_conv)
    with False Cons.IH [OF tl(1) assms(2)] assms(2) show ?thesis by (auto simp: max_def)
  qed
qed simp

text \<open>A stored delta without the time of its ingestion.\<close>

definition delta_fact :: "delta_row \<Rightarrow> delta_row" where
  "delta_fact r = r\<lparr>dw_ingested_at := 0\<rparr>"

lemma delta_fact_of: "delta_fact (delta_row_of now r) = delta_fact (delta_row_of now' r)"
  by (simp add: delta_fact_def delta_row_of_def)

text \<open>
  A write of the chunk \<open>(lo, hi]\<close> of the log \<open>L\<close> of stream \<open>k\<close>, which the writer starts at or
  before the durable offset.
\<close>

definition log_chunk_write :: "OrderBookDelta list \<Rightarrow> string \<times> goint \<Rightarrow> fact_db \<Rightarrow> FactBatch \<Rightarrow> bool" where
  "log_chunk_write L k db batch \<longleftrightarrow>
     validateFactBatch batch = None \<and>
     (wp_InputID (fb_Progress batch), wp_KafkaPartition (fb_Progress batch)) = k \<and>
     (\<exists>lo \<le> durable_of db k. fb_OrderBookDeltas batch =
        filter (\<lambda>r. lo < ob_KafkaOffset r \<and> ob_KafkaOffset r \<le> wp_DurableOffset (fb_Progress batch)) L)"

definition holds_log_prefix :: "OrderBookDelta list \<Rightarrow> string \<times> goint \<Rightarrow> fact_db \<Rightarrow> bool" where
  "holds_log_prefix L k db \<longleftrightarrow>
     map delta_fact (stream_deltas db k) =
     map (delta_fact \<circ> delta_row_of 0) (filter (\<lambda>r. ob_KafkaOffset r \<le> durable_of db k) L)"

lemma applied_log_prefix:
  assumes "holds_log_prefix L k db" "log_chunk_write L k db batch"
    and "sorted_wrt (<) (map ob_KafkaOffset L)"
  shows "holds_log_prefix L k (applied now db batch)"
proof -
  define p where "p = fb_Progress batch"
  from assms(2) obtain lo where v: "validateFactBatch batch = None"
    and k: "k = (wp_InputID p, wp_KafkaPartition p)" and lo: "lo \<le> durable_of db k"
    and b: "fb_OrderBookDeltas batch =
      filter (\<lambda>r. lo < ob_KafkaOffset r \<and> ob_KafkaOffset r \<le> wp_DurableOffset p) L"
    by (auto simp: log_chunk_write_def p_def)
  have fact: "map (delta_fact \<circ> delta_row_of now) xs = map (delta_fact \<circ> delta_row_of 0) xs" for xs
    by (simp add: delta_fact_of [of now _ 0] comp_def)
  have "map delta_fact (stream_deltas (applied now db batch) k) =
      map delta_fact (stream_deltas db k) @
      map (delta_fact \<circ> delta_row_of 0)
        (filter (\<lambda>r. durable_of db k < ob_KafkaOffset r) (fb_OrderBookDeltas batch))"
    by (simp only: applied_stream_deltas [OF v p_def] k if_True simp_thms map_append map_map fact)
  also have "\<dots> = map (delta_fact \<circ> delta_row_of 0)
      (filter (\<lambda>r. ob_KafkaOffset r \<le> max (durable_of db k) (wp_DurableOffset p)) L)"
    using assms(1) unfolding holds_log_prefix_def b log_chunk [OF assms(3) lo, symmetric] map_append
    by (rule arg_cong2) (rule refl)
  also have "max (durable_of db k) (wp_DurableOffset p) = durable_of (applied now db batch) k"
    by (simp add: applied_durable [OF v p_def] k)
  finally show ?thesis by (simp add: holds_log_prefix_def)
qed

text \<open>
  All databases that writers can produce: the writer of stream \<open>k\<close> writes chunks of its log, other
  streams write what they like, and every write may fail anywhere.
\<close>

inductive log_writes :: "OrderBookDelta list \<Rightarrow> string \<times> goint \<Rightarrow> fact_db \<Rightarrow> bool" for L k where
  start: "log_writes L k empty_db"
| chunk: "log_writes L k db \<Longrightarrow> log_chunk_write L k db batch \<Longrightarrow>
    log_writes L k (snd (WriteFactBatch fault now db batch))"
| other: "log_writes L k db \<Longrightarrow>
    (wp_InputID (fb_Progress batch), wp_KafkaPartition (fb_Progress batch)) \<noteq> k \<Longrightarrow>
    log_writes L k (snd (WriteFactBatch fault now db batch))"

inductive_cases log_writesE: "log_writes L k db"

lemma holds_log_prefix_seq: "holds_log_prefix L k (db\<lparr>db_trade_seq := n\<rparr>) = holds_log_prefix L k db"
  by (simp add: holds_log_prefix_def)

lemma applied_other_stream:
  assumes "validateFactBatch batch = None"
    and "(wp_InputID (fb_Progress batch), wp_KafkaPartition (fb_Progress batch)) \<noteq> k"
  shows "stream_deltas (applied now db batch) k = stream_deltas db k"
    and "durable_of (applied now db batch) k = durable_of db k"
  using assms(2)
  by (auto simp: applied_stream_deltas [OF assms(1) refl] applied_durable [OF assms(1) refl])

text \<open>
  C5. Exactly-once storage of a stream's log: however a writer cuts the log of an input partition
  into chunks, replays or overlaps them, and whatever faults and other streams interleave, as long
  as each chunk starts at or before the durable offset, the stored deltas are exactly the log up to
  the durable offset, in order, none missing and none twice.
\<close>

theorem exactly_once_log_prefix:
  assumes "log_writes L k db"
    and "sorted_wrt (<) (map ob_KafkaOffset L)" "\<forall>r \<in> set L. 0 \<le> ob_KafkaOffset r"
  shows "holds_log_prefix L k db"
  using assms(1)
proof induction
  case start
  have "filter (\<lambda>r. ob_KafkaOffset r \<le> - 1) L = []" using assms(3) by (force simp: filter_empty_conv)
  then show ?case
    by (simp add: holds_log_prefix_def stream_deltas_def durable_of_def empty_db_def)
next
  case (chunk db batch fault now)
  show ?case
    by (rule WriteFactBatch_induct [where P = "holds_log_prefix L k"])
       (use chunk in \<open>simp_all add: holds_log_prefix_seq applied_log_prefix assms(2)\<close>)
next
  case (other db batch fault now)
  have ap: "holds_log_prefix L k (applied now db batch)" if "validateFactBatch batch = None"
    using other.IH applied_other_stream [OF that other.hyps(2), of now db]
    by (simp add: holds_log_prefix_def)
  show ?case
    by (rule WriteFactBatch_induct [where P = "holds_log_prefix L k"])
       (use other.IH ap in \<open>simp_all add: holds_log_prefix_seq\<close>)
qed

subsection \<open>Trades\<close>

definition trades_ok :: "fact_db \<Rightarrow> bool" where
  "trades_ok db \<longleftrightarrow> sorted_wrt (\<lambda>a b. \<not> trade_conflict a b) (db_trades db) \<and>
     sorted_wrt (<) (map tw_id (db_trades db)) \<and> list_all (\<lambda>r. tw_id r < db_trade_seq db) (db_trades db)"

lemma insert_trade_ok: "trades_ok db \<Longrightarrow> trades_ok (insert_trade now db r)"
  by (auto simp: trades_ok_def insert_trade_def Let_def sorted_wrt_append list_ex_iff list_all_iff
      trade_row_of_def)

interpretation trade_run: stepper "insert_trade now" trades_ok "\<lambda>r. True"
  by unfold_locales (rule insert_trade_ok)

lemma insert_trade_mono: "set (db_trades db) \<subseteq> set (db_trades (insert_trade now db r))"
  by (auto simp: insert_trade_def Let_def)

lemma insert_trades_mono: "set (db_trades db) \<subseteq> set (db_trades (foldl (insert_trade now) db rs))"
  by (induction rs arbitrary: db) (simp, use insert_trade_mono in fastforce)

lemma trade_conflict_refl: "trade_conflict a a"
  by (simp add: trade_conflict_def)

lemma trade_conflict_id: "trade_conflict x (trade_row_of a now r) = trade_conflict x (trade_row_of 0 0 r)"
  by (simp add: trade_conflict_def trade_row_of_def)

lemma insert_trade_present:
  "\<exists>x \<in> set (db_trades (insert_trade now db r)). trade_conflict x (trade_row_of 0 0 r)"
proof (cases "list_ex (\<lambda>x. trade_conflict x (trade_row_of 0 0 r)) (db_trades db)")
  case True
  then show ?thesis
    by (auto simp: list_ex_iff insert_trade_def Let_def)
next
  case False
  have "trade_conflict (trade_row_of a now r) (trade_row_of 0 0 r)" for a
    using trade_conflict_refl by (simp add: trade_conflict_def trade_row_of_def)
  with False show ?thesis
    by (simp add: insert_trade_def Let_def trade_conflict_id [of _ "db_trade_seq db" now r])
qed

lemma insert_trades_present:
  "r \<in> set rs \<Longrightarrow>
   \<exists>x \<in> set (db_trades (foldl (insert_trade now) db rs)). trade_conflict x (trade_row_of 0 0 r)"
proof (induction rs arbitrary: db)
  case (Cons r' rs)
  show ?case
  proof (cases "r = r'")
    case True
    then show ?thesis
      using insert_trade_present [of now db r] insert_trades_mono [of "insert_trade now db r" now rs]
      by auto
  qed (use Cons in auto)
qed simp

text \<open>
  Writing trades keeps both idempotency keys unique (input, partition, offset; input, raw trade
  id when present) and the identity column strictly increasing; no stored trade is lost or changed,
  and every trade of the batch is represented by a stored row with one of its keys.
\<close>

theorem trades_deduplicated:
  assumes "trades_ok db" "db' = foldl (insert_trade now) db rs"
  shows "trades_ok db' \<and> set (db_trades db) \<subseteq> set (db_trades db') \<and>
    (\<forall>r \<in> set rs. \<exists>x \<in> set (db_trades db'). trade_conflict x (trade_row_of 0 0 r))"
  using trade_run.run_inv [OF assms(1), of rs now] insert_trades_mono insert_trades_present
  by (simp add: assms(2) list_all_iff)

subsection \<open>Candles\<close>

definition candle_le :: "kline_row \<Rightarrow> kline_row \<Rightarrow> bool" where
  "candle_le old new \<longleftrightarrow> kw_revision old \<le> kw_revision new \<and> (kw_is_closed old \<longrightarrow> kw_is_closed new)"

lemma candle_le_refl [simp]: "candle_le r r"
  by (simp add: candle_le_def)

lemma candle_le_trans: "candle_le a b \<Longrightarrow> candle_le b c \<Longrightarrow> candle_le a c"
  by (auto simp: candle_le_def)

lemma overwrites_le: "kline_overwrites old new \<Longrightarrow> candle_le old new"
  by (auto simp: kline_overwrites_def candle_le_def)

lemma upsert_kline_lookup:
  "map_of (db_klines (upsert_kline now db r)) key =
     (if key = kline_key_of r \<and>
         (\<forall>old. map_of (db_klines db) key = Some old \<longrightarrow> kline_overwrites old (kline_row_of now r))
      then Some (kline_row_of now r) else map_of (db_klines db) key)"
  by (auto simp: upsert_kline_def Let_def split: option.splits)

lemma upsert_kline_mono:
  assumes "map_of (db_klines db) key = Some old"
  shows "\<exists>new. map_of (db_klines (upsert_kline now db r)) key = Some new \<and> candle_le old new"
  using assms by (auto simp: upsert_kline_lookup overwrites_le simp del: map_of_eq_Some_iff)

lemma upsert_klines_mono:
  "map_of (db_klines db) key = Some old \<Longrightarrow>
   \<exists>new. map_of (db_klines (foldl (upsert_kline now) db rs)) key = Some new \<and> candle_le old new"
proof (induction rs arbitrary: db old)
  case (Cons r rs)
  then obtain mid where mid: "map_of (db_klines (upsert_kline now db r)) key = Some mid" "candle_le old mid"
    using upsert_kline_mono by blast
  from Cons.IH [OF mid(1)] mid(2) show ?case using candle_le_trans by auto
qed auto

text \<open>
  A candle never moves backwards: any sequence of kline upserts keeps every stored candle, its
  revision does not decrease, and a closed candle is never re-opened.
\<close>

theorem candle_never_regresses:
  assumes "map_of (db_klines db) key = Some old"
  shows "\<exists>new. map_of (db_klines (foldl (upsert_kline now) db rs)) key = Some new \<and>
    kw_revision old \<le> kw_revision new \<and> (kw_is_closed old \<longrightarrow> kw_is_closed new)"
  using upsert_klines_mono [OF assms, of now rs] by (simp add: candle_le_def)

lemma final_candle_stays:
  assumes "map_of (db_klines db) (kline_key_of c) = Some row" "kw_is_closed row"
    and "\<forall>r \<in> set rs. kline_key_of r = kline_key_of c \<longrightarrow> kl_Revision r \<le> kw_revision row"
  shows "map_of (db_klines (foldl (upsert_kline now) db rs)) (kline_key_of c) = Some row"
  using assms
proof (induction rs arbitrary: db)
  case (Cons r rs)
  have "\<not> kline_overwrites row (kline_row_of now r)" if "kline_key_of r = kline_key_of c"
    using Cons.prems(2,3) that by (auto simp: kline_overwrites_def kline_row_of_def)
  then have "map_of (db_klines (upsert_kline now db r)) (kline_key_of c) = Some row"
    using Cons.prems(1) by (auto simp: upsert_kline_lookup simp del: map_of_eq_Some_iff)
  from Cons.IH [OF this Cons.prems(2)] Cons.prems(3) show ?case by simp
qed simp

lemma older_candles_stay_below:
  assumes "\<forall>old. map_of (db_klines db) key = Some old \<longrightarrow> kw_revision old < v"
    and "\<forall>r \<in> set rs. kline_key_of r = key \<longrightarrow> kl_Revision r < v"
  shows "\<forall>old. map_of (db_klines (foldl (upsert_kline now) db rs)) key = Some old \<longrightarrow> kw_revision old < v"
  using assms
proof (induction rs arbitrary: db)
  case (Cons r rs)
  show ?case unfolding foldl.simps
    by (rule Cons.IH)
       (use Cons.prems in \<open>auto simp: upsert_kline_lookup kline_row_of_def simp del: map_of_eq_Some_iff\<close>)
qed simp

text \<open>
  C35. Convergence of a candle: when a batch holds the closing message of a candle and every other
  message about it (before or after, in any order, and the stored row) has a smaller revision, the
  stored candle ends up as the closing message.
\<close>

theorem closing_candle_wins:
  assumes "kl_IsClosed c"
    and "\<forall>old. map_of (db_klines db) (kline_key_of c) = Some old \<longrightarrow> kw_revision old < kl_Revision c"
    and "\<forall>r \<in> set (before @ after). kline_key_of r = kline_key_of c \<longrightarrow> kl_Revision r < kl_Revision c"
  shows "map_of (db_klines (foldl (upsert_kline now) db (before @ c # after))) (kline_key_of c) =
    Some (kline_row_of now c)"
proof -
  let ?db = "foldl (upsert_kline now) db before"
  have "\<forall>old. map_of (db_klines ?db) (kline_key_of c) = Some old \<longrightarrow> kw_revision old < kl_Revision c"
    by (rule older_candles_stay_below) (use assms in auto)
  then have "map_of (db_klines (upsert_kline now ?db c)) (kline_key_of c) = Some (kline_row_of now c)"
    using assms(1)
    by (auto simp: upsert_kline_lookup kline_overwrites_def kline_row_of_def less_imp_le
        simp del: map_of_eq_Some_iff)
  then show ?thesis
    using final_candle_stays [of "upsert_kline now ?db c" c "kline_row_of now c" after now] assms(1,3)
    by (auto simp: kline_row_of_def less_imp_le)
qed

subsection \<open>Witnesses\<close>

definition sample_progress :: "int64 \<Rightarrow> StreamWriteProgress" where
  "sample_progress off =
     \<lparr> wp_InputID = ''i'', wp_KafkaPartition = 0, wp_DurableOffset = off, wp_LastRawEventID = [],
       wp_LastUpdateID = None, wp_LastSequence = None, wp_UpdatedAt = zero_time \<rparr>"

definition sample_log_delta :: "int64 \<Rightarrow> OrderBookDelta" where
  "sample_log_delta off = zero_delta\<lparr> ob_InputID := ''i'', ob_KafkaOffset := off \<rparr>"

definition sample_batch :: FactBatch where
  "sample_batch =
     \<lparr> fb_Trades = [], fb_Klines = [], fb_OrderBookDeltas = [sample_log_delta 3, sample_log_delta 5],
       fb_Progress = sample_progress 5 \<rparr>"

lemmas sample_batch_eval = sample_batch_def sample_progress_def sample_log_delta_def zero_delta_def

lemma sample_batch_valid: "validateFactBatch sample_batch = None"
  by (simp add: validateFactBatch_def sample_batch_eval delta_coord_def validate_coordinates_def)

theorem fact_batch_atomic_witness:
  "snd (WriteFactBatch (FailCommit False) 0 empty_db sample_batch) =
     snd (WriteFactBatch NoFault 0 empty_db sample_batch) \<or>
   (\<exists>n. snd (WriteFactBatch (FailCommit False) 0 empty_db sample_batch) = empty_db\<lparr>db_trade_seq := n\<rparr>)"
  using fact_batch_atomic [where fault = "FailCommit False" and now = 0 and db = empty_db and
      batch = sample_batch]
  by (auto split: prod.splits)

theorem fact_batch_replay_idempotent_witness:
  "fst (WriteFactBatch NoFault 9 (snd (WriteFactBatch (FailCommit True) 0 empty_db sample_batch))
     sample_batch) = None"
  using fact_batch_replay_idempotent [OF sample_batch_valid prod.collapse [symmetric] prod.collapse [symmetric]]
  by blast

theorem exactly_once_log_prefix_witness:
  "holds_log_prefix [sample_log_delta 3, sample_log_delta 5] (''i'', 0)
     (snd (WriteFactBatch (FailCommit True) 0 empty_db sample_batch))"
proof (rule exactly_once_log_prefix)
  have "log_chunk_write [sample_log_delta 3, sample_log_delta 5] (''i'', 0) empty_db sample_batch"
    unfolding log_chunk_write_def
    by (intro conjI exI [of _ "-1"])
       (simp_all add: sample_batch_valid, simp_all add: sample_batch_eval durable_of_def empty_db_def)
  then show "log_writes [sample_log_delta 3, sample_log_delta 5] (''i'', 0)
      (snd (WriteFactBatch (FailCommit True) 0 empty_db sample_batch))"
    by (rule log_writes.chunk [OF log_writes.start])
qed (simp_all add: sample_log_delta_def)

definition sample_trade :: "int64 \<Rightarrow> string \<Rightarrow> Trade" where
  "sample_trade off raw =
     \<lparr> tr_ID = 0, tr_GroupID = ''g'', tr_InputID = ''i'', tr_EventTime = 0, tr_ExchangeTime = None,
       tr_LocalReceiveTime = None, tr_TradeID = [], tr_RawTradeID = raw, tr_Price = ''1'',
       tr_Quantity = ''1'', tr_Side = TradeSideBuy, tr_IsAggregated = False, tr_KafkaTopic = ''t'',
       tr_KafkaPartition = 0, tr_KafkaOffset = off, tr_SchemaVersion = 1, tr_IngestedAt = 0 \<rparr>"

theorem trades_deduplicated_witness:
  "let db = foldl (insert_trade 0) empty_db [sample_trade 1 ''a'', sample_trade 2 ''a'', sample_trade 1 ''b'']
   in trades_ok db \<and> length (db_trades db) = 1"
proof -
  have "trades_ok empty_db" by (simp add: trades_ok_def empty_db_def)
  from trades_deduplicated [OF this refl] have
    "trades_ok (foldl (insert_trade 0) empty_db [sample_trade 1 ''a'', sample_trade 2 ''a'', sample_trade 1 ''b''])"
    by blast
  moreover have "length (db_trades (foldl (insert_trade 0) empty_db
      [sample_trade 1 ''a'', sample_trade 2 ''a'', sample_trade 1 ''b''])) = 1"
    by (simp add: insert_trade_def Let_def sample_trade_def empty_db_def trade_row_of_def
        trade_conflict_def nullIfEmpty_def)
  ultimately show ?thesis by (simp only: Let_def)
qed

definition sample_kline :: "int64 \<Rightarrow> bool \<Rightarrow> Kline" where
  "sample_kline revision closed =
     \<lparr> kl_GroupID = ''g'', kl_InputID = ''i'', kl_Source = [], kl_Interval = ''1m'', kl_OpenTime = 0,
       kl_CloseTime = 60, kl_Open = ''1'', kl_High = ''2'', kl_Low = ''1'', kl_Close = ''2'',
       kl_Volume = ''5'', kl_QuoteVolume = [], kl_TradeCount = 1, kl_IsClosed = closed,
       kl_Revision = revision, kl_KafkaTopic = ''t'', kl_KafkaPartition = 0, kl_KafkaOffset = 0,
       kl_UpdatedAt = 0 \<rparr>"

lemma sample_kline_revision: "kw_revision (kline_row_of now (sample_kline a b)) = a"
  by (simp add: kline_row_of_def sample_kline_def)

theorem candle_never_regresses_witness:
  "\<exists>new. map_of (db_klines (foldl (upsert_kline 0) (upsert_kline 0 empty_db (sample_kline 4 True))
      [sample_kline 2 False])) (kline_key_of (sample_kline 4 True)) = Some new \<and> 4 \<le> kw_revision new"
proof -
  have "map_of (db_klines (upsert_kline 0 empty_db (sample_kline 4 True))) (kline_key_of (sample_kline 4 True)) =
      Some (kline_row_of 0 (sample_kline 4 True))"
    by (simp add: upsert_kline_def empty_db_def)
  from candle_never_regresses [OF this, of 0 "[sample_kline 2 False]"] show ?thesis
    unfolding sample_kline_revision by blast
qed

theorem closing_candle_wins_witness:
  "map_of (db_klines (foldl (upsert_kline 0) empty_db
      ([sample_kline 1 False] @ sample_kline 3 True # [sample_kline 2 False])))
      (kline_key_of (sample_kline 3 True)) = Some (kline_row_of 0 (sample_kline 3 True))"
  by (rule closing_candle_wins) (auto simp: sample_kline_def empty_db_def)

end
