(* ===== verification/Sequence_Gate.thy ===== *)
theory Sequence_Gate
  imports Domain_Model
begin

section \<open>The delta gate: internal/runtime/sequence.go\<close>

text \<open>
  Fact ingestion of order-book deltas is gated by monotonicity, not contiguity: a delta whose cursor
  does not move forward is acknowledged but not stored. The model keeps the four functions of the
  file. \<open>gate_run\<close> is the way the input worker uses the gate: the last stored delta is the
  reference of the next. The lemmas show that the stored deltas have strictly increasing cursors
  and that a replay of stored deltas stores nothing.
\<close>

definition sameOptionalInt64 :: "int64 option \<Rightarrow> int64 option \<Rightarrow> bool" where
  "sameOptionalInt64 a b =
     (case (a, b) of
        (None, None) \<Rightarrow> True
      | (Some x, Some y) \<Rightarrow> x = y
      | _ \<Rightarrow> False)"

definition deltaTerminal :: "OrderBookDelta \<Rightarrow> int64 option" where
  "deltaTerminal delta =
     (if ob_LastUpdateID delta \<noteq> None then ob_LastUpdateID delta else ob_Sequence delta)"

definition sameDeltaIdentity :: "OrderBookDelta \<Rightarrow> OrderBookDelta \<Rightarrow> bool" where
  "sameDeltaIdentity a b =
     (if ob_RawEventID a \<noteq> [] \<and> ob_RawEventID b \<noteq> [] \<and> ob_RawEventID a = ob_RawEventID b
      then True
      else sameOptionalInt64 (ob_FirstUpdateID a) (ob_FirstUpdateID b) \<and>
           sameOptionalInt64 (ob_LastUpdateID a) (ob_LastUpdateID b) \<and>
           sameOptionalInt64 (ob_Sequence a) (ob_Sequence b) \<and>
           (ob_FirstUpdateID a \<noteq> None \<or> ob_LastUpdateID a \<noteq> None \<or> ob_Sequence a \<noteq> None))"

text \<open>The result is whether to advance; the error of the Go signature is always nil.\<close>

definition checkDeltaContinuity :: "OrderBookDelta option \<Rightarrow> OrderBookDelta \<Rightarrow> bool" where
  "checkDeltaContinuity previous current =
     (case previous of
        None \<Rightarrow> True
      | Some p \<Rightarrow>
          if sameDeltaIdentity p current then False
          else (case (deltaTerminal p, deltaTerminal current) of
                  (Some prevTerminal, Some curTerminal) \<Rightarrow> curTerminal > prevTerminal
                | _ \<Rightarrow> True))"

text \<open>The deltas a run of the gate stores, starting from the reference \<open>previous\<close>.\<close>

fun gate_run :: "OrderBookDelta option \<Rightarrow> OrderBookDelta list \<Rightarrow> OrderBookDelta list" where
  "gate_run previous [] = []"
| "gate_run previous (d # ds) =
     (if checkDeltaContinuity previous d then d # gate_run (Some d) ds else gate_run previous ds)"

definition has_cursor :: "OrderBookDelta \<Rightarrow> bool" where
  "has_cursor d \<longleftrightarrow> deltaTerminal d \<noteq> None"

abbreviation cursor :: "OrderBookDelta \<Rightarrow> int64" where
  "cursor d \<equiv> the (deltaTerminal d)"

lemma sameOptionalInt64_eq [simp]: "sameOptionalInt64 a b \<longleftrightarrow> a = b"
  by (auto simp: sameOptionalInt64_def split: option.splits)

lemma checkDeltaContinuity_cursor:
  assumes "checkDeltaContinuity (Some p) d" "has_cursor p" "has_cursor d"
  shows "cursor p < cursor d"
  using assms by (auto simp: checkDeltaContinuity_def has_cursor_def split: if_splits option.splits)

lemma checkDeltaContinuity_stale:
  assumes "has_cursor p" "has_cursor d" "cursor d \<le> cursor p"
  shows "\<not> checkDeltaContinuity (Some p) d"
  using assms by (auto simp: checkDeltaContinuity_def has_cursor_def split: option.splits)

lemma gate_run_subset: "set (gate_run p ds) \<subseteq> set ds"
  by (induction ds arbitrary: p) auto

lemma gate_run_increasing:
  assumes "list_all has_cursor ds" "\<And>x. p = Some x \<Longrightarrow> has_cursor x"
  shows "sorted_wrt (<) (map cursor (gate_run p ds)) \<and>
    (\<forall>x d. p = Some x \<longrightarrow> d \<in> set (gate_run p ds) \<longrightarrow> cursor x < cursor d)"
  using assms
proof (induction ds arbitrary: p)
  case Nil
  then show ?case by simp
next
  case (Cons d ds)
  show ?case
  proof (cases "checkDeltaContinuity p d")
    case True
    have IH: "sorted_wrt (<) (map cursor (gate_run (Some d) ds))"
      "\<forall>e \<in> set (gate_run (Some d) ds). cursor d < cursor e"
      using Cons.IH [of "Some d"] Cons.prems(1) by auto
    have "cursor x < cursor d" if "p = Some x" for x
      using that True Cons.prems by (auto intro: checkDeltaContinuity_cursor)
    with IH True show ?thesis by (auto intro: order.strict_trans)
  next
    case False
    then have skip: "gate_run p (d # ds) = gate_run p ds" by simp
    have "list_all has_cursor ds" using Cons.prems(1) by simp
    then show ?thesis unfolding skip using Cons.IH [of p] Cons.prems(2) by blast
  qed
qed

text \<open>A run over deltas that are all at or behind the reference stores nothing.\<close>

lemma gate_run_replay:
  assumes "has_cursor p" "\<forall>d \<in> set ds. has_cursor d \<and> cursor d \<le> cursor p"
  shows "gate_run (Some p) ds = []"
  using assms by (induction ds) (auto dest: checkDeltaContinuity_stale)

text \<open>
  The gate of \<^verbatim>\<open>checkDeltaContinuity\<close> on a stream whose deltas carry a cursor (last_update_id,
  else sequence): the stored deltas have strictly increasing cursors, all ahead of the reference,
  and replaying any of the stream's stored deltas behind the last stored one stores nothing.
\<close>

theorem delta_gate_monotone:
  assumes "list_all has_cursor ds" "has_cursor p"
  shows "sorted_wrt (<) (cursor p # map cursor (gate_run (Some p) ds)) \<and>
    gate_run (Some (last (p # gate_run (Some p) ds))) (gate_run (Some p) ds) = []"
proof
  let ?l = "last (p # gate_run (Some p) ds)"
  show inc: "sorted_wrt (<) (cursor p # map cursor (gate_run (Some p) ds))"
    using gate_run_increasing [of ds "Some p"] assms by auto
  have cur: "has_cursor d" if "d \<in> set (p # gate_run (Some p) ds)" for d
    using that assms gate_run_subset [of "Some p" ds] by (auto simp: list_all_iff)
  have "cursor ?l = last (map cursor (p # gate_run (Some p) ds))"
    by (rule last_map [symmetric]) simp
  then have "cursor d \<le> cursor ?l" if "d \<in> set (gate_run (Some p) ds)" for d
    using sorted_wrt_less_last [OF inc, of "cursor d"] that by simp
  moreover have "has_cursor ?l" by (rule cur) (rule last_in_set, simp)
  ultimately show "gate_run (Some ?l) (gate_run (Some p) ds) = []"
    using cur by (intro gate_run_replay) auto
qed

theorem delta_gate_monotone_witness:
  "let d = (\<lambda>n. zero_delta\<lparr>ob_LastUpdateID := Some n\<rparr>); ds = [d 12, d 11, d 12, d 15]
   in gate_run (Some (d 10)) ds = [d 12, d 15] \<and>
      sorted_wrt (<) (cursor (d 10) # map cursor (gate_run (Some (d 10)) ds))"
proof -
  let ?d = "\<lambda>n::int. zero_delta\<lparr>ob_LastUpdateID := Some n\<rparr>"
  have "list_all has_cursor [?d 12, ?d 11, ?d 12, ?d 15]" "has_cursor (?d 10)"
    by (simp_all add: has_cursor_def deltaTerminal_def)
  from delta_gate_monotone [OF this]
  have "sorted_wrt (<) (cursor (?d 10) # map cursor (gate_run (Some (?d 10)) [?d 12, ?d 11, ?d 12, ?d 15]))"
    by blast
  moreover have "gate_run (Some (?d 10)) [?d 12, ?d 11, ?d 12, ?d 15] = [?d 12, ?d 15]"
    by (simp add: checkDeltaContinuity_def sameDeltaIdentity_def deltaTerminal_def zero_delta_def)
  ultimately show ?thesis by (simp only: Let_def)
qed

end
