(* ===== verification/Decimal.thy ===== *)
theory Decimal
  imports Go_Strings Complex_Main "HOL-Library.Product_Lexorder"
begin

section \<open>Decimal literals: the numeric checks of internal/runtime/decode.go\<close>

text \<open>
  Prices and quantities travel through the runtime as decimal strings. This theory models the
  checks on them: the pattern \<^verbatim>\<open>decimalPattern\<close>, \<^verbatim>\<open>validPositiveNumeric\<close>,
  \<^verbatim>\<open>validNonNegativeNumeric\<close> and \<^verbatim>\<open>compareNumeric\<close>, with \<^verbatim>\<open>math/big\<close>'s
  \<^verbatim>\<open>ParseFloat(s, 10, 256, ToNearestEven)\<close> as it computes: exact mantissa, powers of five at
  320 bits, rounding to nearest even at 256 bits, exponents of 32 bits with overflow to infinity
  and underflow to zero.
  The lemmas show the recogniser equal to the pattern's language, what an accepted literal can be,
  and that comparison is a total preorder on the parsed values.
\<close>

subsection \<open>big.Float\<close>

text \<open>
  A finite value \<open>Fin m e\<close> is \<open>m * 2 ^ e\<close>; \<open>Inf neg\<close> is an infinity with its sign.
\<close>

datatype bigfloat = Fin int int | Inf bool

definition MinExp :: int where "MinExp = - (2 ^ 31)"
definition MaxExp :: int where "MaxExp = 2 ^ 31 - 1"

fun bit_length :: "nat \<Rightarrow> nat" where
  "bit_length n = (if n = 0 then 0 else Suc (bit_length (n div 2)))"

declare bit_length.simps [simp del]

text \<open>Rounding a mantissa to \<open>prec\<close> bits, to nearest, ties to even.\<close>

definition round_mant :: "nat \<Rightarrow> nat \<Rightarrow> int \<Rightarrow> nat \<times> int" where
  "round_mant prec m e =
     (let b = bit_length m in
      if b \<le> prec then (m, e)
      else let s = b - prec; q = m div 2 ^ s; r = m mod 2 ^ s; half = 2 ^ (s - 1)
           in (if r > half \<or> (r = half \<and> odd q) then q + 1 else q, e + int s))"

text \<open>\<open>setExpAndRound\<close>: zero on exponent underflow, infinity on overflow, rounded otherwise.\<close>

definition set_exp_round :: "nat \<Rightarrow> bool \<Rightarrow> nat \<Rightarrow> int \<Rightarrow> bigfloat" where
  "set_exp_round prec neg m e =
     (if m = 0 then Fin 0 0
      else let x = int (bit_length m) + e in
        if x < MinExp then Fin 0 0
        else if x > MaxExp then Inf neg
        else (case round_mant prec m e of (m', e') \<Rightarrow>
               if int (bit_length m') + e' > MaxExp then Inf neg
               else Fin (if neg then - int m' else int m') e'))"

fun bf_neg :: "bigfloat \<Rightarrow> bool" where
  "bf_neg (Fin m e) = (m < 0)"
| "bf_neg (Inf n) = n"

text \<open>\<open>Float.Mul\<close>: exact product, then rounding (the operands are never zero times infinity).\<close>

fun bf_mul :: "nat \<Rightarrow> bigfloat \<Rightarrow> bigfloat \<Rightarrow> bigfloat" where
  "bf_mul prec (Fin m e) (Fin m' e') =
     set_exp_round prec ((m < 0) \<noteq> (m' < 0)) (nat \<bar>m * m'\<bar>) (e + e')"
| "bf_mul prec a b = Inf (bf_neg a \<noteq> bf_neg b)"

text \<open>\<open>Float.Quo\<close>: enough quotient bits, the remainder as a sticky bit, then rounding.\<close>

fun bf_quo :: "nat \<Rightarrow> bigfloat \<Rightarrow> bigfloat \<Rightarrow> bigfloat" where
  "bf_quo prec (Fin m e) (Fin m' e') =
     (let y = nat \<bar>m'\<bar>; k = prec + 2 + bit_length y; x = nat \<bar>m\<bar> * 2 ^ k;
          sticky = (if x mod y \<noteq> 0 then 1 else 0)
      in set_exp_round prec ((m < 0) \<noteq> (m' < 0)) (2 * (x div y) + sticky) (e - e' - int k - 1))"
| "bf_quo prec (Fin m e) (Inf n) = Fin 0 0"
| "bf_quo prec (Inf n) b = Inf (n \<noteq> bf_neg b)"

fun pow5_loop :: "nat \<Rightarrow> bigfloat \<Rightarrow> bigfloat \<Rightarrow> bigfloat" where
  "pow5_loop n z f =
     (if n = 0 then z
      else pow5_loop (n div 2) (if odd n then bf_mul 320 z f else z) (bf_mul 384 f f))"

declare pow5_loop.simps [simp del]

definition pow5 :: "nat \<Rightarrow> bigfloat" where
  "pow5 n = (if n \<le> 27 then Fin (5 ^ n) 0 else pow5_loop (n - 27) (Fin (5 ^ 27) 0) (Fin 5 0))"

text \<open>
  The order of \<open>Float.Cmp\<close>: by the exact value, with the infinities at the ends. \<open>Sign\<close> is the
  comparison with zero.
\<close>

fun bf_key :: "bigfloat \<Rightarrow> int \<times> rat" where
  "bf_key (Fin m e) = (0, of_int m * 2 powi e)"
| "bf_key (Inf neg) = (if neg then -1 else 1, 0)"

definition Cmp :: "bigfloat \<Rightarrow> bigfloat \<Rightarrow> int" where
  "Cmp a b = (if bf_key a < bf_key b then -1 else if bf_key a = bf_key b then 0 else 1)"

fun Sign :: "bigfloat \<Rightarrow> int" where
  "Sign (Fin m e) = sgn m"
| "Sign (Inf neg) = (if neg then -1 else 1)"

subsection \<open>Scanning a literal\<close>

text \<open>The digits of the mantissa, the number of digits after the point, and the rest.\<close>

definition scan_mantissa :: "string \<Rightarrow> string \<times> nat \<times> string" where
  "scan_mantissa s =
     (let i = takeWhile is_digit s; r = dropWhile is_digit s in
      case r of
        c # r' \<Rightarrow> if c = CHR ''.''
                 then (i @ takeWhile is_digit r', length (takeWhile is_digit r'),
                       dropWhile is_digit r')
                 else (i, 0, r)
      | [] \<Rightarrow> (i, 0, r))"

text \<open>
  \<open>scanExponent\<close>: \<open>None\<close> is an error, otherwise (base, exponent, rest). The binary exponent
  letter \<open>p\<close> is accepted by \<^verbatim>\<open>math/big\<close> beside \<open>e\<close>.
\<close>

definition scan_exponent :: "string \<Rightarrow> (nat \<times> int \<times> string) option" where
  "scan_exponent s =
     (case s of [] \<Rightarrow> Some (10, 0, [])
      | c # r \<Rightarrow>
          if c \<in> set ''eEpP'' then
            (case split_sign r of (neg, r') \<Rightarrow>
               let d = takeWhile is_digit r' in
               case ParseInt 64 (if neg then CHR ''-'' # d else d) of
                 None \<Rightarrow> None
               | Some x \<Rightarrow> Some (if c \<in> set ''eE'' then 10 else 2, x, dropWhile is_digit r'))
          else Some (10, 0, s))"

text \<open>The value \<open>mant * 2 ^ exp2 * 5 ^ exp5\<close>, the power of five applied last.\<close>

definition scale_literal :: "bool \<Rightarrow> nat \<Rightarrow> int \<Rightarrow> int \<Rightarrow> bigfloat" where
  "scale_literal neg mant exp5 exp2 =
     (let x = Fin (if neg then - int mant else int mant) exp2
      in if exp5 = 0 then set_exp_round 256 neg mant exp2
         else if exp5 < 0 then bf_quo 256 x (pow5 (nat (- exp5)))
         else bf_mul 256 x (pow5 (nat exp5)))"

text \<open>
  \<open>ParseFloat(s, 10, 256, ToNearestEven)\<close> returns a value (\<open>None\<close> is a nil pointer) and whether
  the error is nil. Text after a complete literal is an error beside a value.
\<close>

definition ParseFloat :: "string \<Rightarrow> bigfloat option \<times> bool" where
  "ParseFloat s =
     (if s = ''Inf'' \<or> s = ''inf'' \<or> s = ''+Inf'' \<or> s = ''+inf'' then (Some (Inf False), True)
      else if s = ''-Inf'' \<or> s = ''-inf'' then (Some (Inf True), True)
      else
       (case split_sign s of (neg, r) \<Rightarrow>
        case scan_mantissa r of (ds, fcount, r1) \<Rightarrow>
        if ds = [] then (None, False)
        else
        case scan_exponent r1 of None \<Rightarrow> (None, False)
        | Some (base, ex, r2) \<Rightarrow>
          let mant = digits_val ds;
              exp5 = (if base = 10 then ex else 0) - int fcount;
              exp2 = ex - int fcount
          in if mant = 0 then (Some (Fin 0 0), r2 = [])
             else if int (bit_length mant) + exp2 < MinExp \<or> MaxExp < int (bit_length mant) + exp2
             then (None, False)
             else (Some (scale_literal neg mant exp5 exp2), r2 = [])))"

subsection \<open>The checks\<close>

text \<open>
  The pattern \<^verbatim>\<open>^[+-]?(?:[0-9]+(?:\.[0-9]*)?|\.[0-9]+)(?:[eE][+-]?[0-9]+)?$\<close>: first as a
  recogniser, then (below) as the language the pattern denotes.
\<close>

definition exponent_ok :: "string \<Rightarrow> bool" where
  "exponent_ok s \<longleftrightarrow>
     (case s of [] \<Rightarrow> True
      | c # r \<Rightarrow> c \<in> set ''eE'' \<and>
          (case split_sign r of (_, d) \<Rightarrow> d \<noteq> [] \<and> list_all is_digit d))"

definition decimalPattern :: "string \<Rightarrow> bool" where
  "decimalPattern s \<longleftrightarrow>
     (case split_sign s of (_, r) \<Rightarrow>
        case scan_mantissa r of (ds, _, rest) \<Rightarrow> ds \<noteq> [] \<and> exponent_ok rest)"

definition validPositiveNumeric :: "string \<Rightarrow> bool" where
  "validPositiveNumeric s =
     (let s = TrimSpace s in
      if \<not> decimalPattern s then False
      else case ParseFloat s of (f, ok) \<Rightarrow>
             ok \<and> (case f of None \<Rightarrow> False | Some v \<Rightarrow> Sign v > 0))"

definition validNonNegativeNumeric :: "string \<Rightarrow> bool" where
  "validNonNegativeNumeric s =
     (let s = TrimSpace s in
      if \<not> decimalPattern s then False
      else case ParseFloat s of (f, ok) \<Rightarrow>
             ok \<and> (case f of None \<Rightarrow> False | Some v \<Rightarrow> Sign v \<ge> 0))"

text \<open>The value a price is compared by; \<open>None\<close> is the nil pointer on which \<open>Cmp\<close> panics.\<close>

definition parsed_price :: "string \<Rightarrow> bigfloat option" where
  "parsed_price s = fst (ParseFloat (TrimSpace s))"

definition compareNumeric :: "string \<Rightarrow> string \<Rightarrow> int option" where
  "compareNumeric a b =
     (case (parsed_price a, parsed_price b) of
        (Some av, Some bv) \<Rightarrow> Some (Cmp av bv)
      | _ \<Rightarrow> None)"

subsection \<open>The pattern's language\<close>

definition digit_strings :: "string set" where
  "digit_strings = {d. d \<noteq> [] \<and> list_all is_digit d}"

definition sign_strings :: "string set" where
  "sign_strings = {[], ''+'', ''-''}"

definition mantissa_strings :: "string set" where
  "mantissa_strings =
     digit_strings \<union> {i @ CHR ''.'' # f | i f. i \<in> digit_strings \<and> list_all is_digit f}
     \<union> {CHR ''.'' # f | f. f \<in> digit_strings}"

definition exponent_strings :: "string set" where
  "exponent_strings =
     {[]} \<union> {c # sg @ d | c sg d. c \<in> set ''eE'' \<and> sg \<in> sign_strings \<and> d \<in> digit_strings}"

definition decimal_language :: "string set" where
  "decimal_language =
     {sg @ m @ x | sg m x. sg \<in> sign_strings \<and> m \<in> mantissa_strings \<and> x \<in> exponent_strings}"

lemma is_digit_not_special [simp]:
  "\<not> is_digit (CHR ''+'')" "\<not> is_digit (CHR ''-'')" "\<not> is_digit (CHR ''.'')"
  "\<not> is_digit (CHR ''e'')" "\<not> is_digit (CHR ''E'')"
  by (simp_all add: is_digit_def)

lemma takeWhile_digits: "list_all is_digit (takeWhile is_digit s)"
  by (auto simp: list_all_iff dest: set_takeWhileD)

lemma takeWhile_digits_append:
  "list_all is_digit d \<Longrightarrow> takeWhile is_digit (d @ r) = d @ takeWhile is_digit r"
  "list_all is_digit d \<Longrightarrow> dropWhile is_digit (d @ r) = dropWhile is_digit r"
  by (auto simp: list_all_iff)

lemma split_sign_cases:
  "\<exists>sg \<in> sign_strings. s = sg @ snd (split_sign s)"
  by (auto simp: split_sign_def sign_strings_def split: list.splits)

lemma split_sign_append:
  assumes "sg \<in> sign_strings" "r \<noteq> []" "hd r \<noteq> CHR ''+''" "hd r \<noteq> CHR ''-''"
  shows "split_sign (sg @ r) = (sg = ''-'', r)"
  using assms by (cases r) (auto simp: sign_strings_def split_sign_def)

lemma digit_strings_hd: "d \<in> digit_strings \<Longrightarrow> d \<noteq> [] \<and> hd d \<noteq> CHR ''+'' \<and> hd d \<noteq> CHR ''-''"
  by (auto simp: digit_strings_def neq_Nil_conv)

lemma exponent_ok_iff: "exponent_ok x \<longleftrightarrow> x \<in> exponent_strings"
proof
  assume ok: "exponent_ok x"
  show "x \<in> exponent_strings"
  proof (cases x)
    case Nil
    then show ?thesis by (simp add: exponent_strings_def)
  next
    case (Cons c r)
    with ok have c: "c \<in> set ''eE''" and d: "snd (split_sign r) \<in> digit_strings"
      by (auto simp: exponent_ok_def digit_strings_def split: prod.splits)
    obtain sg where "sg \<in> sign_strings" "r = sg @ snd (split_sign r)"
      using split_sign_cases by blast
    with Cons c d show ?thesis unfolding exponent_strings_def by blast
  qed
next
  assume "x \<in> exponent_strings"
  then consider "x = []"
    | c sg d where "x = c # sg @ d" "c \<in> set ''eE''" "sg \<in> sign_strings" "d \<in> digit_strings"
    by (auto simp: exponent_strings_def)
  then show "exponent_ok x"
  proof cases
    case 1
    then show ?thesis by (simp add: exponent_ok_def)
  next
    case 2
    then have "split_sign (sg @ d) = (sg = ''-'', d)"
      using digit_strings_hd [of d] by (simp add: split_sign_append)
    with 2 show ?thesis by (auto simp: exponent_ok_def digit_strings_def)
  qed
qed

lemma scan_mantissa_append:
  assumes "m \<in> mantissa_strings" "x \<in> exponent_strings"
  obtains ds n where "scan_mantissa (m @ x) = (ds, n, x)" "ds \<noteq> []"
proof -
  have x0: "x = [] \<or> (\<exists>c r. x = c # r \<and> c \<noteq> CHR ''.'' \<and> \<not> is_digit c)"
    using assms(2) by (cases x) (auto simp: exponent_ok_def simp flip: exponent_ok_iff)
  consider (int) "m \<in> digit_strings"
    | (frac) i f where "m = i @ CHR ''.'' # f" "i \<in> digit_strings" "list_all is_digit f"
    | (point) f where "m = CHR ''.'' # f" "f \<in> digit_strings"
    using assms(1) unfolding mantissa_strings_def by blast
  then show ?thesis
  proof cases
    case int
    then have "scan_mantissa (m @ x) = (m, 0, x)" "m \<noteq> []"
      using x0 by (auto simp: scan_mantissa_def digit_strings_def takeWhile_digits_append)
    then show ?thesis by (rule that)
  next
    case frac
    then have "scan_mantissa (m @ x) = (i @ f, length f, x)" "i @ f \<noteq> []"
      using x0 by (auto simp: scan_mantissa_def digit_strings_def takeWhile_digits_append)
    then show ?thesis by (rule that)
  next
    case point
    then have "scan_mantissa (m @ x) = (f, length f, x)" "f \<noteq> []"
      using x0 by (auto simp: scan_mantissa_def digit_strings_def takeWhile_digits_append)
    then show ?thesis by (rule that)
  qed
qed

lemma scan_mantissa_split:
  assumes "scan_mantissa s = (ds, n, rest)" "ds \<noteq> []"
  shows "\<exists>m \<in> mantissa_strings. s = m @ rest"
proof (cases "dropWhile is_digit s")
  case Nil
  with assms have "ds = takeWhile is_digit s" "rest = []"
    by (auto simp: scan_mantissa_def Let_def)
  moreover from Nil have "takeWhile is_digit s = s"
    by (metis append_Nil2 takeWhile_dropWhile_id)
  with takeWhile_digits [of s] have "list_all is_digit s" by simp
  ultimately show ?thesis
    using assms(2) \<open>takeWhile is_digit s = s\<close>
    by (auto simp: mantissa_strings_def digit_strings_def)
next
  case (Cons c r)
  have s: "s = takeWhile is_digit s @ c # r" using Cons by (metis takeWhile_dropWhile_id)
  show ?thesis
  proof (cases "c = CHR ''.''")
    case True
    let ?i = "takeWhile is_digit s" and ?f = "takeWhile is_digit r"
    from True Cons assms have "ds = ?i @ ?f" "rest = dropWhile is_digit r"
      by (auto simp: scan_mantissa_def Let_def)
    moreover from this assms(2) have "?i @ CHR ''.'' # ?f \<in> mantissa_strings"
      using takeWhile_digits [of s] takeWhile_digits [of r]
      by (cases "?i = []") (auto simp: mantissa_strings_def digit_strings_def)
    moreover have "s = (?i @ CHR ''.'' # ?f) @ dropWhile is_digit r"
      using s True by simp
    ultimately show ?thesis by blast
  next
    case False
    with Cons assms have "ds = takeWhile is_digit s" "rest = c # r"
      by (auto simp: scan_mantissa_def Let_def)
    with s assms(2) takeWhile_digits [of s] show ?thesis
      by (auto simp: mantissa_strings_def digit_strings_def)
  qed
qed

lemma mantissa_hd: "m \<in> mantissa_strings \<Longrightarrow> m \<noteq> [] \<and> hd m \<noteq> CHR ''+'' \<and> hd m \<noteq> CHR ''-''"
  by (auto simp: mantissa_strings_def digit_strings_def neq_Nil_conv)

text \<open>The recogniser accepts exactly the language of the pattern.\<close>

lemma decimalPattern_iff: "decimalPattern s \<longleftrightarrow> s \<in> decimal_language"
proof
  assume "decimalPattern s"
  then obtain ds n rest where scan: "scan_mantissa (snd (split_sign s)) = (ds, n, rest)"
    and "ds \<noteq> []" and x: "rest \<in> exponent_strings"
    by (auto simp: decimalPattern_def exponent_ok_iff split: prod.splits)
  then obtain m where "m \<in> mantissa_strings" "snd (split_sign s) = m @ rest"
    using scan_mantissa_split by blast
  moreover obtain sg where "sg \<in> sign_strings" "s = sg @ snd (split_sign s)"
    using split_sign_cases by blast
  ultimately show "s \<in> decimal_language"
    using x unfolding decimal_language_def by (auto intro!: exI)
next
  assume "s \<in> decimal_language"
  then obtain sg m x where s: "s = sg @ m @ x" "sg \<in> sign_strings" "m \<in> mantissa_strings"
    "x \<in> exponent_strings"
    unfolding decimal_language_def by blast
  then have "split_sign s = (sg = ''-'', m @ x)"
    using mantissa_hd [OF s(3)] by (simp add: split_sign_append)
  then show "decimalPattern s"
    using s by (auto simp: decimalPattern_def exponent_ok_iff elim: scan_mantissa_append)
qed

subsection \<open>Comparison\<close>

lemma Cmp_antisym: "Cmp b a = - Cmp a b"
  by (auto simp: Cmp_def)

lemma Cmp_less_iff: "Cmp a b < 0 \<longleftrightarrow> bf_key a < bf_key b"
  and Cmp_le_iff: "Cmp a b \<le> 0 \<longleftrightarrow> bf_key a \<le> bf_key b"
  and Cmp_greater_iff: "Cmp a b > 0 \<longleftrightarrow> bf_key b < bf_key a"
  by (auto simp: Cmp_def)

lemma Sign_Cmp: "Sign v = Cmp v (Fin 0 0)"
proof (cases v)
  case (Fin m e)
  have "(of_int m * p < 0 \<longleftrightarrow> m < 0) \<and> (of_int m * p = 0 \<longleftrightarrow> m = 0)" if "0 < p" for p :: rat
    using that by (auto simp: mult_less_0_iff)
  from this [of "2 powi e"]
  have "(of_int m * (2 powi e :: rat) < 0 \<longleftrightarrow> m < 0) \<and> (of_int m * (2 powi e :: rat) = 0 \<longleftrightarrow> m = 0)"
    by simp
  then show ?thesis using Fin by (simp add: Cmp_def sgn_if)
qed (simp add: Cmp_def)

subsection \<open>Evaluation on plain literals\<close>

lemma bit_length_eval [simp]:
  "bit_length 0 = 0" "bit_length 1 = 1" "bit_length (Suc 0) = 1"
  "bit_length (numeral w) = Suc (bit_length (numeral w div 2))"
  by (subst bit_length.simps; simp add: bit_length.simps)+

lemmas decimal_eval = validPositiveNumeric_def validNonNegativeNumeric_def TrimSpace_graphic
  graphic_def decimalPattern_def split_sign_def scan_mantissa_def is_digit_def exponent_ok_def
  ParseFloat_def scale_literal_def scan_exponent_def digits_val_def digit_val_def set_exp_round_def round_mant_def
  MinExp_def MaxExp_def Let_def compareNumeric_def parsed_price_def Cmp_def pow5_def

lemma bit_length_bounds:
  "0 < m \<Longrightarrow> 2 ^ bit_length m \<le> 2 * m \<and> m < 2 ^ bit_length m"
proof (induction m rule: bit_length.induct)
  case (1 m)
  show ?case
  proof (cases "m = 1")
    case True
    then show ?thesis by simp
  next
    case False
    with 1(2) have "0 < m div 2" by auto
    with 1 have "2 ^ bit_length (m div 2) \<le> 2 * (m div 2)" "m div 2 < 2 ^ bit_length (m div 2)"
      by auto
    moreover have "bit_length m = Suc (bit_length (m div 2))"
      using 1(2) by (subst bit_length.simps) simp
    ultimately show ?thesis by auto
  qed
qed

lemma bit_length_le: "0 < m \<Longrightarrow> m < 2 ^ k \<Longrightarrow> bit_length m \<le> k"
proof -
  assume "0 < m" "m < 2 ^ k"
  then have "(2::nat) ^ bit_length m < 2 ^ Suc k"
    using bit_length_bounds [of m] by simp
  then have "bit_length m < Suc k" by (rule power_less_imp_less_exp [rotated]) simp
  then show ?thesis by simp
qed

subsection \<open>Signs of parsed values\<close>

lemma round_mant_pos:
  assumes "0 < m" "0 < prec" "round_mant prec m e = (m', e')"
  shows "0 < m'"
proof (cases "bit_length m \<le> prec")
  case True
  with assms show ?thesis by (simp add: round_mant_def)
next
  case False
  let ?s = "bit_length m - prec"
  have "2 ^ Suc ?s \<le> (2::nat) ^ bit_length m"
    using False assms(2) by (intro power_increasing) auto
  then have "2 ^ ?s \<le> m" using bit_length_bounds [OF assms(1)] by simp
  then have "0 < m div 2 ^ ?s" by (simp add: div_greater_zero_iff)
  then show ?thesis using False assms(3) by (auto simp: round_mant_def Let_def split: if_splits)
qed

lemma Sign_set_exp_round:
  assumes "0 < prec"
  shows "Sign (set_exp_round prec neg m e) =
    (if m = 0 \<or> int (bit_length m) + e < MinExp then 0 else if neg then -1 else 1)"
proof (cases "m = 0 \<or> int (bit_length m) + e < MinExp \<or> int (bit_length m) + e > MaxExp")
  case True
  then show ?thesis by (auto simp: set_exp_round_def MinExp_def MaxExp_def)
next
  case False
  obtain m' e' where r: "round_mant prec m e = (m', e')" by (cases "round_mant prec m e")
  then have "0 < m'" using False assms by (auto intro: round_mant_pos)
  then show ?thesis using False r by (auto simp: set_exp_round_def Let_def)
qed

lemma bf_neg_set_exp_round: "\<not> bf_neg (set_exp_round prec False m e)"
  by (auto simp: set_exp_round_def Let_def split: prod.splits)

lemma bf_mul_nonneg: "\<not> bf_neg a \<Longrightarrow> \<not> bf_neg b \<Longrightarrow> \<not> bf_neg (bf_mul prec a b)"
  by (cases a; cases b) (auto simp: bf_neg_set_exp_round not_less)

lemma pow5_loop_nonneg: "\<not> bf_neg z \<Longrightarrow> \<not> bf_neg f \<Longrightarrow> \<not> bf_neg (pow5_loop n z f)"
proof (induction n z f rule: pow5_loop.induct)
  case (1 n z f)
  then show ?case
    by (subst pow5_loop.simps) (auto simp: bf_mul_nonneg)
qed

lemma pow5_nonneg: "\<not> bf_neg (pow5 n)"
  by (auto simp: pow5_def pow5_loop_nonneg)

lemma Sign_scaled_nonpos:
  assumes "m < 0"
  shows "Sign (bf_quo 256 (Fin m e) (pow5 n)) \<le> 0" "Sign (bf_mul 256 (Fin m e) (pow5 n)) \<le> 0"
proof -
  have "Sign (bf_quo 256 (Fin m e) b) \<le> 0 \<and> Sign (bf_mul 256 (Fin m e) b) \<le> 0" if "\<not> bf_neg b" for b
    using assms that by (cases b) (auto simp: Let_def Sign_set_exp_round not_less)
  then show "Sign (bf_quo 256 (Fin m e) (pow5 n)) \<le> 0" "Sign (bf_mul 256 (Fin m e) (pow5 n)) \<le> 0"
    using pow5_nonneg by auto
qed

lemma Sign_scale_literal_neg: "0 < mant \<Longrightarrow> Sign (scale_literal True mant exp5 exp2) \<le> 0"
  by (simp add: scale_literal_def Let_def Sign_set_exp_round Sign_scaled_nonpos)

text \<open>The sign and the mantissa digits of a literal decide what the sign test can say.\<close>

lemma ParseFloat_Sign_pos:
  assumes "ParseFloat s = (Some v, True)" "Sign v > 0" "decimalPattern s"
  shows "\<not> fst (split_sign s) \<and> 0 < digits_val (fst (scan_mantissa (snd (split_sign s))))"
proof -
  obtain neg r where sg: "split_sign s = (neg, r)" by (cases "split_sign s")
  obtain ds k r1 where sm: "scan_mantissa r = (ds, k, r1)" by (cases "scan_mantissa r")
  have noinf: "s \<notin> {''Inf'', ''inf'', ''+Inf'', ''+inf'', ''-Inf'', ''-inf''}"
    using assms(3) by (auto simp: decimalPattern_def split_sign_def scan_mantissa_def is_digit_def)
  with assms(1) sg sm obtain e5 e2 where
    v: "v = Fin 0 0 \<and> digits_val ds = 0 \<or> digits_val ds \<noteq> 0 \<and> v = scale_literal neg (digits_val ds) e5 e2"
    by (simp add: ParseFloat_def Let_def split: option.splits if_splits prod.splits) blast+
  with assms(2) have "0 < digits_val ds" by auto
  moreover have "\<not> neg"
    using v assms(2) Sign_scale_literal_neg [of "digits_val ds" e5 e2] by (cases neg) auto
  ultimately show ?thesis using sg sm by simp
qed

text \<open>
  \<^verbatim>\<open>validPositiveNumeric\<close> accepts only literals of the pattern \<^verbatim>\<open>decimalPattern\<close> that carry no
  minus sign and have a nonzero digit in the mantissa: zero, negatives, fractions, NaN and
  infinities are all rejected.
\<close>

theorem positive_literals_only:
  assumes "validPositiveNumeric s"
  shows "TrimSpace s \<in> decimal_language \<and> \<not> fst (split_sign (TrimSpace s)) \<and>
    0 < digits_val (fst (scan_mantissa (snd (split_sign (TrimSpace s)))))"
proof -
  from assms obtain v where "decimalPattern (TrimSpace s)" "ParseFloat (TrimSpace s) = (Some v, True)"
    "Sign v > 0"
    by (auto simp: validPositiveNumeric_def Let_def split: if_splits prod.splits option.splits)
  then show ?thesis using ParseFloat_Sign_pos decimalPattern_iff by blast
qed

theorem positive_literals_only_witness:
  "validPositiveNumeric ''100.25'' \<and> TrimSpace ''100.25'' \<in> decimal_language"
proof -
  have ok: "validPositiveNumeric ''100.25''" by (simp add: decimal_eval)
  from positive_literals_only [OF ok] ok show ?thesis by blast
qed

end
