(* ===== verification/Order_Book.thy ===== *)
theory Order_Book
  imports Sequence_Gate Decimal
begin

section \<open>The in-memory order book: internal/runtime/orderbook_state.go\<close>

text \<open>
  One full-depth book per group, assembled from a reference snapshot and the deltas applied on top
  of it. The Go methods hold the mutex of the state from start to end, so each is one atomic
  function on the state record; the two Go maps are association lists (the list order stands for the
  iteration order). \<open>onDeltaApplied\<close> is the callback of \<^verbatim>\<open>worker.go\<close> through which the input
  workers feed the book. The lemmas show the invariant of the state, the functional behaviour of
  every operation as an update of the two price maps, the equivalence of buffering deltas before a
  snapshot with applying them after it, and that a generated snapshot is ordered, complete and
  restores the book it was taken from.
\<close>

subsection \<open>State\<close>

record orderBookState =
  bs_ready :: bool
  bs_groupID :: string
  bs_inputID :: string
  bs_snapInput :: string
  bs_bids :: "(string, string) gomap"
  bs_asks :: "(string, string) gomap"
  bs_lastUpdateID :: "int64 option"
  bs_sequence :: "int64 option"
  bs_pending :: "OrderBookDelta list"
  bs_maxPending :: nat

definition defaultMaxPending :: nat where
  "defaultMaxPending = 10000"

definition newOrderBookState :: "string \<Rightarrow> string \<Rightarrow> orderBookState" where
  "newOrderBookState groupID snapInput =
     \<lparr> bs_ready = False, bs_groupID = groupID, bs_inputID = [], bs_snapInput = snapInput,
       bs_bids = [], bs_asks = [], bs_lastUpdateID = None, bs_sequence = None, bs_pending = [],
       bs_maxPending = defaultMaxPending \<rparr>"

datatype sequence_gap =
    ExpectedSequence int64 int64
  | ExpectedFirstUpdateID int64 int64
  | PrevUpdateIDMismatch int64 int64

text \<open>
  \<open>UnparsedPrice\<close> is not an error value of the code but its nil-pointer panic in \<open>compareNumeric\<close>.
\<close>

datatype order_violation =
    BidsOutOfOrder nat string string
  | AsksOutOfOrder nat string string
  | UnparsedPrice

datatype book_error =
    SnapshotOrdering order_violation
  | PendingBufferFull nat
  | SequenceGap sequence_gap
  | DrainAfterSnapshot book_error

subsection \<open>Sequence continuity and ordering checks\<close>

text \<open>\<open>None\<close> is the nil error.\<close>

definition checkSequenceMatch ::
  "int64 option \<Rightarrow> int64 option \<Rightarrow> OrderBookDelta \<Rightarrow> sequence_gap option" where
  "checkSequenceMatch currentLastUpdate currentSeq delta =
     (case (ob_Sequence delta, currentSeq) of
        (Some ds, Some cs) \<Rightarrow>
          (let expected = wrap64 (cs + 1)
           in if ds = expected then None else Some (ExpectedSequence expected ds))
      | (Some ds, None) \<Rightarrow> None
      | (None, _) \<Rightarrow>
         (case (currentLastUpdate, ob_FirstUpdateID delta) of
            (Some cu, Some fu) \<Rightarrow>
              (let expected = wrap64 (cu + 1)
               in if fu = expected then None else Some (ExpectedFirstUpdateID expected fu))
          | (None, Some fu) \<Rightarrow> None
          | (_, None) \<Rightarrow>
             (case (currentLastUpdate, ob_PrevUpdateID delta) of
                (Some cu, Some pu) \<Rightarrow>
                  (if pu = cu then None else Some (PrevUpdateIDMismatch cu pu))
              | _ \<Rightarrow> None)))"

text \<open>The loop over adjacent levels of one side; \<open>i\<close> is the index of the second of the pair.\<close>

fun check_side ::
  "(int \<Rightarrow> bool) \<Rightarrow> (nat \<Rightarrow> string \<Rightarrow> string \<Rightarrow> order_violation) \<Rightarrow> nat \<Rightarrow> PriceLevel list \<Rightarrow>
   order_violation option" where
  "check_side bad err i (a # b # ls) =
     (case compareNumeric (pl_Price a) (pl_Price b) of
        None \<Rightarrow> Some UnparsedPrice
      | Some c \<Rightarrow> if bad c then Some (err i (pl_Price a) (pl_Price b))
                  else check_side bad err (Suc i) (b # ls))"
| "check_side bad err i ls = None"

definition validateBidAskOrder :: "PriceLevel list \<Rightarrow> PriceLevel list \<Rightarrow> order_violation option" where
  "validateBidAskOrder bids asks =
     (case check_side (\<lambda>c. c < 0) BidsOutOfOrder 1 bids of
        Some v \<Rightarrow> Some v
      | None \<Rightarrow> check_side (\<lambda>c. c > 0) AsksOutOfOrder 1 asks)"

subsection \<open>Applying deltas and snapshots\<close>

text \<open>The literal test for a removed level, as the code writes it.\<close>

definition zero_quantity :: "string \<Rightarrow> bool" where
  "zero_quantity q \<longleftrightarrow> q = ''0'' \<or> q = ''0.0''"

definition apply_level :: "(string, string) gomap \<Rightarrow> PriceLevel \<Rightarrow> (string, string) gomap" where
  "apply_level m level =
     (if zero_quantity (pl_Quantity level) then AList.delete (pl_Price level) m
      else AList.update (pl_Price level) (pl_Quantity level) m)"

definition load_level :: "(string, string) gomap \<Rightarrow> PriceLevel \<Rightarrow> (string, string) gomap" where
  "load_level m level =
     (if zero_quantity (pl_Quantity level) then m
      else AList.update (pl_Price level) (pl_Quantity level) m)"

definition copyInt64Ptr :: "int64 option \<Rightarrow> int64 option" where
  "copyInt64Ptr p = (case p of None \<Rightarrow> None | Some v \<Rightarrow> Some v)"

definition applyOne :: "orderBookState \<Rightarrow> OrderBookDelta \<Rightarrow> (book_error + bool) \<times> orderBookState" where
  "applyOne s delta =
     (case checkSequenceMatch (bs_lastUpdateID s) (bs_sequence s) delta of
        Some gap \<Rightarrow> (Inl (SequenceGap gap), s)
      | None \<Rightarrow>
         (Inr True,
          s\<lparr> bs_bids := foldl apply_level (bs_bids s) (ob_Bids delta),
             bs_asks := foldl apply_level (bs_asks s) (ob_Asks delta),
             bs_lastUpdateID := copyInt64Ptr (ob_LastUpdateID delta),
             bs_sequence := (if ob_Sequence delta \<noteq> None then copyInt64Ptr (ob_Sequence delta)
                             else bs_sequence s) \<rparr>))"

definition behind :: "int64 option \<Rightarrow> int64 option \<Rightarrow> bool" where
  "behind current incoming =
     (case (current, incoming) of (Some c, Some d) \<Rightarrow> d \<le> c | _ \<Rightarrow> False)"

text \<open>
  The first loop of \<open>drainPending\<close>: it returns the deltas after the first applied one, or \<open>None\<close>
  when none was applied.
\<close>

fun drain_find ::
  "orderBookState \<Rightarrow> OrderBookDelta list \<Rightarrow> (book_error + OrderBookDelta list option) \<times> orderBookState"
where
  "drain_find s [] = (Inr None, s)"
| "drain_find s (d # buf) =
     (if behind (bs_lastUpdateID s) (ob_LastUpdateID d) then drain_find s buf
      else if behind (bs_sequence s) (ob_Sequence d) then drain_find s buf
      else (case applyOne s d of
              (Inl e, s') \<Rightarrow> (Inl e, s')
            | (Inr applied, s') \<Rightarrow> if applied then (Inr (Some buf), s') else drain_find s' buf))"

fun drain_rest :: "orderBookState \<Rightarrow> OrderBookDelta list \<Rightarrow> book_error option \<times> orderBookState" where
  "drain_rest s [] = (None, s)"
| "drain_rest s (d # buf) =
     (case applyOne s d of
        (Inl e, s') \<Rightarrow> (Some e, s')
      | (Inr _, s') \<Rightarrow> drain_rest s' buf)"

definition drainPending :: "orderBookState \<Rightarrow> book_error option \<times> orderBookState" where
  "drainPending s =
     (let buf = bs_pending s; s = s\<lparr>bs_pending := []\<rparr> in
      case drain_find s buf of
        (Inl e, s') \<Rightarrow> (Some e, s')
      | (Inr None, s') \<Rightarrow> (None, s')
      | (Inr (Some rest), s') \<Rightarrow> drain_rest s' rest)"

definition applySnapshot ::
  "orderBookState \<Rightarrow> OrderBookSnapshot \<Rightarrow> book_error option \<times> orderBookState" where
  "applySnapshot s snap =
     (case validateBidAskOrder (sn_Bids snap) (sn_Asks snap) of
        Some v \<Rightarrow> (Some (SnapshotOrdering v), s)
      | None \<Rightarrow>
         (let s = s\<lparr> bs_bids := foldl load_level [] (sn_Bids snap),
                     bs_asks := foldl load_level [] (sn_Asks snap),
                     bs_lastUpdateID := None,
                     bs_sequence := sn_Sequence snap,
                     bs_inputID := sn_InputID snap,
                     bs_ready := True \<rparr>
          in if bs_pending s = [] then (None, s)
             else (case drainPending s of
                     (Some e, s') \<Rightarrow> (Some (DrainAfterSnapshot e), s'\<lparr>bs_pending := []\<rparr>)
                   | (None, s') \<Rightarrow> (None, s'))))"

definition applyDelta :: "orderBookState \<Rightarrow> OrderBookDelta \<Rightarrow> (book_error + bool) \<times> orderBookState" where
  "applyDelta s delta =
     (if \<not> bs_ready s then
        (if length (bs_pending s) \<ge> bs_maxPending s
         then (Inl (PendingBufferFull (bs_maxPending s)), s)
         else (Inr False, s\<lparr>bs_pending := bs_pending s @ [delta]\<rparr>))
      else if bs_pending s = [] then applyOne s delta
      else (case drainPending s of
              (Some e, s') \<Rightarrow> (Inl e, s')
            | (None, s') \<Rightarrow> applyOne s' delta))"

definition isReady :: "orderBookState \<Rightarrow> bool" where
  "isReady s = bs_ready s"

definition reset :: "orderBookState \<Rightarrow> orderBookState" where
  "reset s = s\<lparr> bs_bids := [], bs_asks := [], bs_lastUpdateID := None, bs_sequence := None,
                bs_ready := False, bs_pending := [] \<rparr>"

definition getSequenceAndLastUpdateID :: "orderBookState \<Rightarrow> int64 option \<times> int64 option" where
  "getSequenceAndLastUpdateID s =
     (copyInt64Ptr (bs_sequence s), copyInt64Ptr (bs_lastUpdateID s))"

subsection \<open>Generating snapshots\<close>

text \<open>
  \<open>sort.Slice\<close> is not stable, and the map iteration that feeds it has no fixed order: every result
  the code can produce is the stable sort of some order of the map. \<open>None\<close> is the nil-pointer panic
  of the comparison, which needs two levels and a price that does not parse.
\<close>

definition price_key :: "string \<Rightarrow> int \<times> rat" where
  "price_key p = (case parsed_price p of None \<Rightarrow> (0, 0) | Some v \<Rightarrow> bf_key v)"

definition level_of :: "string \<times> string \<Rightarrow> PriceLevel" where
  "level_of kv = \<lparr> pl_Price = fst kv, pl_Quantity = snd kv \<rparr>"

definition exportLevels :: "(string, string) gomap \<Rightarrow> bool \<Rightarrow> PriceLevel list option" where
  "exportLevels m sortAsc =
     (let levels = filter (\<lambda>(price, qty). \<not> zero_quantity qty) m;
          sorted_levels = sort_key (\<lambda>(price, qty). price_key price) levels
      in if length levels \<ge> 2 \<and> (\<exists>(price, qty) \<in> set levels. parsed_price price = None) then None
         else Some (map level_of (if sortAsc then sorted_levels else rev sorted_levels)))"

definition exportBids :: "orderBookState \<Rightarrow> PriceLevel list option" where
  "exportBids s = exportLevels (bs_bids s) False"

definition exportAsks :: "orderBookState \<Rightarrow> PriceLevel list option" where
  "exportAsks s = exportLevels (bs_asks s) True"

definition generateSnapshot :: "orderBookState \<Rightarrow> time \<Rightarrow> OrderBookSnapshot option" where
  "generateSnapshot s now =
     (let base = \<lparr> sn_SnapshotID = 0, sn_GroupID = bs_groupID s, sn_InputID = bs_inputID s,
                   sn_SnapshotTime = now, sn_Sequence = None, sn_Bids = [], sn_Asks = [],
                   sn_CreatedAt = zero_time \<rparr>
      in if \<not> bs_ready s then Some base
         else (case (exportBids s, exportAsks s) of
                 (Some bids, Some asks) \<Rightarrow>
                   Some (base\<lparr> sn_Sequence := copyInt64Ptr (bs_sequence s),
                               sn_Bids := bids, sn_Asks := asks \<rparr>)
               | _ \<Rightarrow> None))"

subsection \<open>The delta callback of the group worker\<close>

definition onDeltaApplied :: "orderBookState option \<Rightarrow> OrderBookDelta \<Rightarrow> orderBookState option" where
  "onDeltaApplied orderBook delta =
     (case orderBook of
        None \<Rightarrow> None
      | Some s \<Rightarrow>
         (case applyDelta s delta of
            (Inl e, s') \<Rightarrow> Some (reset s')
          | (Inr _, s') \<Rightarrow> Some s'))"

text \<open>
  The book as its two producers drive it: the receive loop of the group worker applies reference
  snapshots, the input workers call \<open>onDeltaApplied\<close>.
\<close>

datatype book_event = BookSnapshot OrderBookSnapshot | BookDelta OrderBookDelta

fun book_step :: "orderBookState \<Rightarrow> book_event \<Rightarrow> orderBookState" where
  "book_step s (BookSnapshot snap) = snd (applySnapshot s snap)"
| "book_step s (BookDelta delta) = (case onDeltaApplied (Some s) delta of None \<Rightarrow> s | Some s' \<Rightarrow> s')"

subsection \<open>Price maps\<close>

lemma copyInt64Ptr_id [simp]: "copyInt64Ptr p = p"
  by (simp add: copyInt64Ptr_def split: option.splits)

text \<open>The last level of a delta that names a price decides the quantity at that price.\<close>

definition last_write :: "PriceLevel list \<Rightarrow> string \<Rightarrow> PriceLevel option" where
  "last_write ls p = find (\<lambda>l. pl_Price l = p) (rev ls)"

lemma last_write_snoc:
  "last_write (ls @ [l]) p = (if pl_Price l = p then Some l else last_write ls p)"
  by (simp add: last_write_def)

lemma apply_levels_lookup:
  "map_of (foldl apply_level m ls) p =
     (case last_write ls p of
        None \<Rightarrow> map_of m p
      | Some l \<Rightarrow> if zero_quantity (pl_Quantity l) then None else Some (pl_Quantity l))"
proof (induction ls rule: rev_induct)
  case Nil
  then show ?case by (simp add: last_write_def)
next
  case (snoc l ls)
  then show ?case by (auto simp: last_write_snoc apply_level_def)
qed

definition side_ok :: "(string, string) gomap \<Rightarrow> bool" where
  "side_ok m \<longleftrightarrow> gomap_ok m \<and>
     list_all (\<lambda>(price, qty). \<not> zero_quantity qty \<and> parsed_price price \<noteq> None) m"

definition levels_priced :: "PriceLevel list \<Rightarrow> bool" where
  "levels_priced ls \<longleftrightarrow> list_all (\<lambda>l. parsed_price (pl_Price l) \<noteq> None) ls"

lemma side_ok_Nil [simp]: "side_ok []"
  by (simp add: side_ok_def)

lemma side_ok_iff:
  "side_ok m \<longleftrightarrow> gomap_ok m \<and>
     (\<forall>p q. map_of m p = Some q \<longrightarrow> \<not> zero_quantity q \<and> parsed_price p \<noteq> None)"
  by (auto simp: side_ok_def list_all_iff map_of_eq_Some_iff)

lemma side_ok_apply_level:
  "side_ok m \<Longrightarrow> parsed_price (pl_Price l) \<noteq> None \<Longrightarrow> side_ok (apply_level m l)"
  by (auto simp: side_ok_iff apply_level_def simp del: map_of_eq_Some_iff split: if_splits)

lemma side_ok_load_level:
  "side_ok m \<Longrightarrow> parsed_price (pl_Price l) \<noteq> None \<Longrightarrow> side_ok (load_level m l)"
  by (auto simp: side_ok_iff load_level_def simp del: map_of_eq_Some_iff split: if_splits)

text \<open>Both level loops are runs that keep a side well-formed.\<close>

interpretation apply_run: stepper apply_level side_ok "\<lambda>l. parsed_price (pl_Price l) \<noteq> None"
  by unfold_locales (rule side_ok_apply_level)

interpretation load_run: stepper load_level side_ok "\<lambda>l. parsed_price (pl_Price l) \<noteq> None"
  by unfold_locales (rule side_ok_load_level)

lemma side_ok_apply_levels: "side_ok m \<Longrightarrow> levels_priced ls \<Longrightarrow> side_ok (foldl apply_level m ls)"
  unfolding levels_priced_def by (rule apply_run.run_inv)

lemma side_ok_load_levels: "levels_priced ls \<Longrightarrow> side_ok (foldl load_level [] ls)"
  unfolding levels_priced_def by (rule load_run.run_inv) simp_all

subsection \<open>The invariant of the book\<close>

definition delta_priced :: "OrderBookDelta \<Rightarrow> bool" where
  "delta_priced d \<longleftrightarrow> levels_priced (ob_Bids d) \<and> levels_priced (ob_Asks d)"

definition book_inv :: "orderBookState \<Rightarrow> bool" where
  "book_inv s \<longleftrightarrow>
     side_ok (bs_bids s) \<and> side_ok (bs_asks s) \<and>
     list_all delta_priced (bs_pending s) \<and> length (bs_pending s) \<le> bs_maxPending s \<and>
     (if bs_ready s then bs_pending s = []
      else bs_bids s = [] \<and> bs_asks s = [] \<and> bs_lastUpdateID s = None \<and> bs_sequence s = None)"

fun event_priced :: "book_event \<Rightarrow> bool" where
  "event_priced (BookSnapshot snap) = (levels_priced (sn_Bids snap) \<and> levels_priced (sn_Asks snap))"
| "event_priced (BookDelta delta) = delta_priced delta"

text \<open>A live book: ready, nothing buffered, both sides well-formed.\<close>

definition live_book :: "orderBookState \<Rightarrow> bool" where
  "live_book s \<longleftrightarrow> bs_ready s \<and> bs_pending s = [] \<and> side_ok (bs_bids s) \<and> side_ok (bs_asks s)"

lemma live_book_inv: "live_book s \<Longrightarrow> book_inv s"
  by (simp add: live_book_def book_inv_def)

lemma book_inv_ready: "book_inv s \<Longrightarrow> bs_ready s \<Longrightarrow> live_book s"
  by (simp add: live_book_def book_inv_def)

lemma applyOne_live: "live_book s \<Longrightarrow> delta_priced d \<Longrightarrow> live_book (snd (applyOne s d))"
  by (auto simp: applyOne_def live_book_def delta_priced_def side_ok_apply_levels split: option.splits)

lemma drain_find_live:
  "live_book s \<Longrightarrow> list_all delta_priced ds \<Longrightarrow> live_book (snd (drain_find s ds)) \<and>
     (\<forall>rest. fst (drain_find s ds) = Inr (Some rest) \<longrightarrow> list_all delta_priced rest)"
  by (induction s ds rule: drain_find.induct)
     (auto split: prod.splits sum.splits dest: applyOne_live)

lemma drain_rest_live:
  "live_book s \<Longrightarrow> list_all delta_priced ds \<Longrightarrow> live_book (snd (drain_rest s ds))"
  by (induction s ds rule: drain_rest.induct)
     (auto split: prod.splits sum.splits dest: applyOne_live)

lemma drainPending_live:
  assumes "live_book (s\<lparr>bs_pending := []\<rparr>)" "list_all delta_priced (bs_pending s)"
  shows "live_book (snd (drainPending s))"
  using drain_find_live [OF assms] drain_rest_live
  by (auto simp: drainPending_def Let_def split: prod.splits sum.splits option.splits)

lemma live_book_clear_pending: "live_book s \<Longrightarrow> live_book (s\<lparr>bs_pending := []\<rparr>)"
  by (simp add: live_book_def)

lemma applySnapshot_inv:
  assumes "book_inv s" "levels_priced (sn_Bids snap)" "levels_priced (sn_Asks snap)"
  shows "book_inv (snd (applySnapshot s snap))"
proof (cases "validateBidAskOrder (sn_Bids snap) (sn_Asks snap)")
  case None
  let ?s = "s\<lparr> bs_bids := foldl load_level [] (sn_Bids snap),
      bs_asks := foldl load_level [] (sn_Asks snap), bs_lastUpdateID := None,
      bs_sequence := sn_Sequence snap, bs_inputID := sn_InputID snap, bs_ready := True \<rparr>"
  have "live_book (?s\<lparr>bs_pending := []\<rparr>)" "list_all delta_priced (bs_pending ?s)"
    using assms by (simp_all add: live_book_def side_ok_load_levels book_inv_def)
  from drainPending_live [OF this] this(1) None
  have "live_book (snd (applySnapshot s snap))"
    by (auto simp: applySnapshot_def Let_def live_book_clear_pending split: prod.splits option.splits)
       (simp_all add: live_book_def)
  then show ?thesis by (rule live_book_inv)
qed (simp add: applySnapshot_def assms)

lemma reset_inv: "book_inv (reset s)"
  by (simp add: book_inv_def reset_def)

lemma applyDelta_ready:
  assumes "book_inv s" "bs_ready s"
  shows "applyDelta s d = applyOne s d"
  using assms by (simp add: applyDelta_def book_inv_def)

lemma applyDelta_inv:
  assumes "book_inv s" "delta_priced d"
  shows "book_inv (snd (applyDelta s d))"
proof (cases "bs_ready s")
  case True
  then show ?thesis using assms
    by (simp add: applyDelta_ready live_book_inv applyOne_live book_inv_ready)
qed (use assms in \<open>auto simp: applyDelta_def book_inv_def\<close>)

lemma book_step_delta:
  "book_step s (BookDelta d) =
     (case applyDelta s d of (Inl e, s') \<Rightarrow> reset s' | (Inr b, s') \<Rightarrow> s')"
  by (simp add: onDeltaApplied_def split: prod.splits sum.splits)

lemma book_step_inv: "book_inv s \<Longrightarrow> event_priced e \<Longrightarrow> book_inv (book_step s e)"
proof (cases e)
  case (BookDelta d)
  then show "book_inv s \<Longrightarrow> event_priced e \<Longrightarrow> book_inv (book_step s e)"
    using applyDelta_inv [of s d] reset_inv
    by (auto simp del: book_step.simps simp: book_step_delta split: prod.splits sum.splits)
qed (simp add: applySnapshot_inv)

interpretation book: stepper book_step book_inv event_priced
  by unfold_locales (rule book_step_inv)

subsection \<open>Exported sides\<close>

text \<open>What a side exports: its levels, ordered by the parsed price.\<close>

lemma exportLevels_side_ok:
  assumes "side_ok m"
  shows "exportLevels m asc =
    Some (map level_of ((if asc then id else rev) (sort_key (price_key \<circ> fst) m)))"
proof -
  have "filter (\<lambda>(price, qty). \<not> zero_quantity qty) m = m"
    using assms by (auto simp: side_ok_def list_all_iff filter_id_conv)
  moreover have "\<not> (\<exists>(price, qty) \<in> set m. parsed_price price = None)"
    using assms by (auto simp: side_ok_def list_all_iff)
  ultimately show ?thesis
    by (simp add: exportLevels_def Let_def case_prod_unfold comp_def)
qed

lemma generateSnapshot_defined: "book_inv s \<Longrightarrow> generateSnapshot s now \<noteq> None"
  by (simp add: book_inv_def generateSnapshot_def Let_def exportBids_def exportAsks_def
      exportLevels_side_ok)

lemma check_side_sorted:
  assumes "levels_priced ls"
    and "\<And>a b v w. parsed_price a = Some v \<Longrightarrow> parsed_price b = Some w \<Longrightarrow>
           R (price_key a) (price_key b) \<Longrightarrow> \<not> bad (Cmp v w)"
    and "sorted_wrt (\<lambda>a b. R (price_key (pl_Price a)) (price_key (pl_Price b))) ls"
  shows "check_side bad err i ls = None"
  using assms
proof (induction bad err i ls rule: check_side.induct)
  case (1 bad err i a b ls)
  then obtain v w where vw: "parsed_price (pl_Price a) = Some v" "parsed_price (pl_Price b) = Some w"
    by (auto simp: levels_priced_def)
  with 1 have nb: "\<not> bad (Cmp v w)" by auto
  have tl: "levels_priced (b # ls)"
    "sorted_wrt (\<lambda>a b. R (price_key (pl_Price a)) (price_key (pl_Price b))) (b # ls)"
    using 1 by (simp_all add: levels_priced_def)
  show ?case using "1.IH" [OF _ nb tl(1) _ tl(2)] "1.prems"(2) nb vw
    by (simp add: compareNumeric_def)
qed simp_all

lemma exported_sorted:
  "sorted_wrt (\<lambda>a b. price_key (pl_Price a) \<le> price_key (pl_Price b))
     (map level_of (sort_key (price_key \<circ> fst) m))"
  "sorted_wrt (\<lambda>a b. price_key (pl_Price b) \<le> price_key (pl_Price a))
     (map level_of (rev (sort_key (price_key \<circ> fst) m)))"
proof -
  have "sorted_wrt (\<lambda>a b. price_key (fst a) \<le> price_key (fst b)) (sort_key (price_key \<circ> fst) m)"
    using sorted_sort_key [of "price_key \<circ> fst" m] by (simp add: sorted_wrt_map)
  then show "sorted_wrt (\<lambda>a b. price_key (pl_Price a) \<le> price_key (pl_Price b))
      (map level_of (sort_key (price_key \<circ> fst) m))"
    "sorted_wrt (\<lambda>a b. price_key (pl_Price b) \<le> price_key (pl_Price a))
      (map level_of (rev (sort_key (price_key \<circ> fst) m)))"
    by (simp_all add: sorted_wrt_map level_of_def sorted_wrt_rev)
qed

lemma exported_priced:
  "side_ok m \<Longrightarrow> set xs = set m \<Longrightarrow> levels_priced (map level_of xs)"
  by (auto simp: side_ok_def levels_priced_def list_all_iff level_of_def)

lemma price_key_parsed: "parsed_price p = Some v \<Longrightarrow> price_key p = bf_key v"
  by (simp add: price_key_def)

lemma exported_valid:
  assumes "side_ok bids" "side_ok asks"
  shows "validateBidAskOrder
     (map level_of (rev (sort_key (price_key \<circ> fst) bids)))
     (map level_of (sort_key (price_key \<circ> fst) asks)) = None"
proof -
  have "check_side (\<lambda>c. c < 0) BidsOutOfOrder 1
      (map level_of (rev (sort_key (price_key \<circ> fst) bids))) = None"
    by (rule check_side_sorted [OF exported_priced [OF assms(1)] _ exported_sorted(2)])
       (auto simp: price_key_parsed Cmp_less_iff)
  moreover have "check_side (\<lambda>c. c > 0) AsksOutOfOrder 1
      (map level_of (sort_key (price_key \<circ> fst) asks)) = None"
    by (rule check_side_sorted [OF exported_priced [OF assms(2)] _ exported_sorted(1)])
       (auto simp: price_key_parsed Cmp_greater_iff)
  ultimately show ?thesis by (simp add: validateBidAskOrder_def)
qed

text \<open>Loading distinct nonzero levels gives back the map they come from.\<close>

lemma load_levels_lookup:
  assumes "list_all (\<lambda>l. \<not> zero_quantity (pl_Quantity l)) ls"
  shows "map_of (foldl load_level [] ls) p = map_option pl_Quantity (last_write ls p)"
  using assms
proof (induction ls rule: rev_induct)
  case Nil
  then show ?case by (simp add: last_write_def)
next
  case (snoc l ls)
  then show ?case by (auto simp: last_write_snoc load_level_def)
qed

lemma last_write_level_of:
  assumes "gomap_ok m" "set xs = set m" "distinct (map fst xs)"
  shows "map_option pl_Quantity (last_write (map level_of xs) p) = map_of m p"
proof -
  have "map_option pl_Quantity (find (\<lambda>l. pl_Price l = p) (map level_of ys)) = map_of ys p" for ys
    by (induction ys) (auto simp: level_of_def)
  then have "map_option pl_Quantity (last_write (map level_of xs) p) = map_of (rev xs) p"
    by (simp add: last_write_def rev_map)
  also have "\<dots> = map_of m p"
    using assms by (metis map_of_eq_Some_iff not_Some_eq set_rev distinct_rev rev_map)
  finally show ?thesis .
qed

lemma load_exported:
  assumes "side_ok m" "mset xs = mset m"
  shows "map_of (foldl load_level [] (map level_of xs)) = map_of m"
proof
  fix p
  have s: "set xs = set m" using assms(2) by (rule mset_eq_setD)
  moreover have "mset (map fst xs) = mset (map fst m)" using assms(2) by simp
  then have "distinct (map fst xs)" using assms(1) by (metis side_ok_def mset_eq_imp_distinct_iff)
  moreover have "list_all (\<lambda>l. \<not> zero_quantity (pl_Quantity l)) (map level_of xs)"
    using assms(1) s by (auto simp: side_ok_def list_all_iff level_of_def)
  ultimately show "map_of (foldl load_level [] (map level_of xs)) p = map_of m p"
    using assms(1) by (subst load_levels_lookup) (auto simp: side_ok_def intro: last_write_level_of)
qed

subsection \<open>Properties of the book\<close>

text \<open>
  C10. In every run of reference snapshots and deltas from the empty book, the state stays
  well-formed: each price occurs once per side, every stored level has a nonzero literal and a
  parsable price, a book that is ready buffers nothing, a book that is not ready is empty with no
  cursor, and the buffer never exceeds its bound. Taking a snapshot of a reachable state never
  panics.
\<close>

theorem order_book_invariant:
  assumes "list_all event_priced es"
  shows "book_inv (foldl book_step (newOrderBookState g i) es) \<and>
    generateSnapshot (foldl book_step (newOrderBookState g i) es) now \<noteq> None"
proof -
  have "book_inv (newOrderBookState g i)"
    by (simp add: newOrderBookState_def book_inv_def)
  then have "book_inv (foldl book_step (newOrderBookState g i) es)"
    using assms by (rule book.run_inv)
  then show ?thesis using generateSnapshot_defined by blast
qed

text \<open>
  C13. The snapshot generated from a ready book carries exactly the book's levels, bids descending
  and asks ascending (it passes \<^verbatim>\<open>validateBidAskOrder\<close>), and applying it to a fresh book is accepted
  and restores both price maps and the sequence cursor.
\<close>

theorem generated_snapshot_restores_book:
  assumes "book_inv s" "bs_ready s"
  shows "\<exists>snap t. generateSnapshot s now = Some snap \<and>
    mset (sn_Bids snap) = mset (map level_of (bs_bids s)) \<and>
    mset (sn_Asks snap) = mset (map level_of (bs_asks s)) \<and>
    validateBidAskOrder (sn_Bids snap) (sn_Asks snap) = None \<and>
    applySnapshot (newOrderBookState g i) snap = (None, t) \<and> bs_ready t \<and>
    map_of (bs_bids t) = map_of (bs_bids s) \<and> map_of (bs_asks t) = map_of (bs_asks s) \<and>
    bs_sequence t = bs_sequence s"
proof -
  let ?b = "rev (sort_key (price_key \<circ> fst) (bs_bids s))"
  let ?a = "sort_key (price_key \<circ> fst) (bs_asks s)"
  from assms have ok: "side_ok (bs_bids s)" "side_ok (bs_asks s)" by (simp_all add: book_inv_def)
  note valid = exported_valid [OF ok]
  have load: "map_of (foldl load_level [] (map level_of ?b)) = map_of (bs_bids s)"
    "map_of (foldl load_level [] (map level_of ?a)) = map_of (bs_asks s)"
    by (rule load_exported; simp add: ok)+
  show ?thesis
    using assms(2) ok valid load
    by (simp add: generateSnapshot_def exportBids_def exportAsks_def exportLevels_side_ok Let_def
        applySnapshot_def newOrderBookState_def del: foldl_map map_map)
qed

text \<open>The sequence numbers of a run of deltas follow \<open>n\<close> without a gap (64-bit wrap-around).\<close>

fun consecutive :: "int64 \<Rightarrow> OrderBookDelta list \<Rightarrow> bool" where
  "consecutive n [] = True"
| "consecutive n (d # ds) =
     (ob_Sequence d = Some (wrap64 (n + 1)) \<and> consecutive (wrap64 (n + 1)) ds)"

lemma applyOne_sequence:
  assumes "bs_sequence s = Some n" "ob_Sequence d = Some m"
  shows "applyOne s d =
    (if m = wrap64 (n + 1)
     then (Inr True, s\<lparr> bs_bids := foldl apply_level (bs_bids s) (ob_Bids d),
             bs_asks := foldl apply_level (bs_asks s) (ob_Asks d),
             bs_lastUpdateID := ob_LastUpdateID d, bs_sequence := Some m \<rparr>)
     else (Inl (SequenceGap (ExpectedSequence (wrap64 (n + 1)) m)), s))"
  using assms by (simp add: applyOne_def checkSequenceMatch_def Let_def)

lemma applyOne_keeps [simp]:
  "bs_ready (snd (applyOne s d)) = bs_ready s" "bs_pending (snd (applyOne s d)) = bs_pending s"
  "bs_maxPending (snd (applyOne s d)) = bs_maxPending s"
  by (simp_all add: applyOne_def split: option.splits)

lemma book_step_ready:
  assumes "bs_ready s" "bs_pending s = []"
  shows "book_step s (BookDelta d) =
    (case applyOne s d of (Inl e, s') \<Rightarrow> reset s' | (Inr b, s') \<Rightarrow> s')"
  using assms by (simp only: book_step_delta) (simp add: applyDelta_def)

lemma book_step_not_ready:
  "\<not> bs_ready s \<Longrightarrow> \<not> bs_ready (book_step s (BookDelta d))"
  by (simp only: book_step_delta) (simp add: applyDelta_def reset_def)

lemma not_ready_run:
  "\<not> bs_ready s \<Longrightarrow> \<not> bs_ready (foldl book_step s (map BookDelta ds))"
  by (induction ds arbitrary: s) (simp_all add: book_step_not_ready del: book_step.simps)

text \<open>One contiguous delta on a ready book, and one across a gap.\<close>

lemma book_step_contiguous:
  assumes "bs_ready s" "bs_pending s = []" "bs_sequence s = Some n"
    and "ob_Sequence d = Some (wrap64 (n + 1))"
  shows "book_step s (BookDelta d) =
    s\<lparr> bs_bids := foldl apply_level (bs_bids s) (ob_Bids d),
       bs_asks := foldl apply_level (bs_asks s) (ob_Asks d),
       bs_lastUpdateID := ob_LastUpdateID d, bs_sequence := Some (wrap64 (n + 1)) \<rparr>"
  by (simp add: book_step_ready [OF assms(1,2)] applyOne_sequence [OF assms(3,4)] del: book_step.simps)

lemma book_step_gap:
  assumes "bs_ready s" "bs_pending s = []" "bs_sequence s = Some n"
    and "ob_Sequence d = Some m" "m \<noteq> wrap64 (n + 1)"
  shows "book_step s (BookDelta d) = reset s"
  using assms(5)
  by (simp add: book_step_ready [OF assms(1,2)] applyOne_sequence [OF assms(3,4)] del: book_step.simps)

lemma contiguous_run:
  assumes "bs_ready s" "bs_pending s = []" "bs_sequence s = Some n"
    and "list_all (\<lambda>d. ob_Sequence d \<noteq> None) ds"
  shows "bs_ready (foldl book_step s (map BookDelta ds)) \<longleftrightarrow> consecutive n ds"
  using assms
proof (induction ds arbitrary: s n)
  case (Cons d ds)
  then obtain m where m: "ob_Sequence d = Some m" by auto
  show ?case
  proof (cases "m = wrap64 (n + 1)")
    case True
    with m book_step_contiguous [OF Cons.prems(1-3), of d] Cons.prems
      Cons.IH [of "book_step s (BookDelta d)" "wrap64 (n + 1)"]
    show ?thesis by simp
  next
    case False
    have "\<not> bs_ready (reset s)" by (simp add: reset_def)
    then have "\<not> bs_ready (foldl book_step (reset s) (map BookDelta ds))" by (rule not_ready_run)
    with False m book_step_gap [OF Cons.prems(1-3) m False] show ?thesis
      by (simp del: book_step.simps)
  qed
qed simp

lemma contiguous_run_levels:
  assumes "bs_ready s" "bs_pending s = []" "bs_sequence s = Some n" "consecutive n ds"
  shows "bs_bids (foldl book_step s (map BookDelta ds)) =
      foldl apply_level (bs_bids s) (concat (map ob_Bids ds)) \<and>
    bs_asks (foldl book_step s (map BookDelta ds)) =
      foldl apply_level (bs_asks s) (concat (map ob_Asks ds))"
  using assms
proof (induction ds arbitrary: s n)
  case (Cons d ds)
  then show ?case
    using book_step_contiguous [OF Cons.prems(1-3), of d]
      Cons.IH [of "book_step s (BookDelta d)" "wrap64 (n + 1)"]
    by (simp del: book_step.simps)
qed simp

text \<open>
  C3. A ready book that is fed deltas with sequence numbers is still ready afterwards exactly when
  the sequence numbers continue its cursor without a gap; then the quantity at every price is the
  one of the last level that named the price in any of the deltas (none when that level was a zero),
  and the book's old quantity where no delta named the price. A gap leaves a book that waits for a
  new reference snapshot.
\<close>

theorem ready_book_is_contiguous_replay:
  assumes "book_inv s" "bs_ready s" "bs_sequence s = Some n"
    and "list_all (\<lambda>d. ob_Sequence d \<noteq> None) ds"
    and "t = foldl book_step s (map BookDelta ds)"
  shows "(bs_ready t \<longleftrightarrow> consecutive n ds) \<and>
    (bs_ready t \<longrightarrow>
      map_of (bs_bids t) p =
        (case last_write (concat (map ob_Bids ds)) p of
           None \<Rightarrow> map_of (bs_bids s) p
         | Some l \<Rightarrow> if zero_quantity (pl_Quantity l) then None else Some (pl_Quantity l)) \<and>
      map_of (bs_asks t) p =
        (case last_write (concat (map ob_Asks ds)) p of
           None \<Rightarrow> map_of (bs_asks s) p
         | Some l \<Rightarrow> if zero_quantity (pl_Quantity l) then None else Some (pl_Quantity l)))"
proof -
  have np: "bs_pending s = []" using assms(1,2) by (simp add: book_inv_def)
  note run = contiguous_run [OF assms(2) np assms(3,4), folded assms(5)]
  from contiguous_run_levels [OF assms(2) np assms(3), of ds, folded assms(5)] run
  have "bs_ready t \<Longrightarrow> bs_bids t = foldl apply_level (bs_bids s) (concat (map ob_Bids ds)) \<and>
      bs_asks t = foldl apply_level (bs_asks s) (concat (map ob_Asks ds))" by blast
  with run show ?thesis by (simp add: apply_levels_lookup)
qed

text \<open>Buffering, as a run of the book.\<close>

lemma buffer_run:
  assumes "\<not> bs_ready s" "length (bs_pending s) + length ds \<le> bs_maxPending s"
  shows "foldl book_step s (map BookDelta ds) = s\<lparr>bs_pending := bs_pending s @ ds\<rparr>"
  using assms
proof (induction ds arbitrary: s)
  case (Cons d ds)
  have "book_step s (BookDelta d) = s\<lparr>bs_pending := bs_pending s @ [d]\<rparr>"
    using Cons.prems by (simp only: book_step_delta) (simp add: applyDelta_def)
  with Cons.prems Cons.IH [of "s\<lparr>bs_pending := bs_pending s @ [d]\<rparr>"] show ?case
    by (simp del: book_step.simps)
qed simp

lemma drain_rest_run:
  assumes "bs_ready s" "bs_pending s = []" "bs_sequence s = Some n" "consecutive n ds"
  shows "drain_rest s ds = (None, foldl book_step s (map BookDelta ds))"
  using assms
proof (induction ds arbitrary: s n)
  case (Cons d ds)
  let ?t = "book_step s (BookDelta d)"
  have sq: "ob_Sequence d = Some (wrap64 (n + 1))" and tl: "consecutive (wrap64 (n + 1)) ds"
    using Cons.prems(4) by simp_all
  note t = book_step_contiguous [OF Cons.prems(1-3) sq]
  have "applyOne s d = (Inr True, ?t)" unfolding t using applyOne_sequence [OF Cons.prems(3) sq] by simp
  moreover have "drain_rest ?t ds = (None, foldl book_step ?t (map BookDelta ds))"
    by (rule Cons.IH [OF _ _ _ tl]) (simp_all add: t Cons.prems(1,2) del: book_step.simps)
  ultimately show ?case by (simp del: book_step.simps)
qed simp

lemma drain_find_stale:
  assumes "bs_lastUpdateID s = None" "list_all (\<lambda>d. behind (bs_sequence s) (ob_Sequence d)) stale"
  shows "drain_find s (stale @ ds) = drain_find s ds"
  using assms by (induction stale) (auto simp: behind_def)

lemma drain_find_fresh:
  assumes "bs_ready s" "bs_pending s = []" "bs_lastUpdateID s = None" "bs_sequence s = Some n"
    and "in_int64 n" "n \<noteq> max_int64" "consecutive n (d # ds)"
  shows "drain_find s (d # ds) = (Inr (Some ds), book_step s (BookDelta d))"
proof -
  have sq: "ob_Sequence d = Some (wrap64 (n + 1))" using assms(7) by simp
  have nb: "\<not> behind (bs_lastUpdateID s) x" "\<not> behind (bs_sequence s) (ob_Sequence d)" for x
    using assms(3,4,5,6) sq by (simp_all add: behind_def wrap64_succ)
  show ?thesis using nb
    by (simp add: book_step_contiguous [OF assms(1,2,4) sq] applyOne_sequence [OF assms(4) sq]
        del: book_step.simps)
qed

lemma drain_buffered:
  assumes "bs_ready s" "bs_lastUpdateID s = None" "bs_sequence s = Some n"
    and "in_int64 n" "n \<noteq> max_int64"
    and "list_all (\<lambda>d. behind (Some n) (ob_Sequence d)) stale" "consecutive n fresh"
    and "bs_pending s = stale @ fresh" "u = s\<lparr>bs_pending := []\<rparr>"
  shows "drainPending s = (None, foldl book_step u (map BookDelta fresh))"
proof -
  have u: "bs_ready u" "bs_pending u = []" "bs_lastUpdateID u = None" "bs_sequence u = Some n"
    using assms by simp_all
  have find: "drain_find u (stale @ fresh) = drain_find u fresh"
    by (rule drain_find_stale) (simp_all add: u assms(6))
  show ?thesis
  proof (cases fresh)
    case Nil
    with find show ?thesis by (simp add: drainPending_def assms(8) assms(9) [symmetric] Let_def)
  next
    case (Cons d ds)
    have sq: "ob_Sequence d = Some (wrap64 (n + 1))" using assms(7) Cons by simp
    let ?t = "book_step u (BookDelta d)"
    note t = book_step_contiguous [OF u(1,2,4) sq]
    have "drain_rest ?t ds = (None, foldl book_step ?t (map BookDelta ds))"
      by (rule drain_rest_run [where n = "wrap64 (n + 1)"])
         (use assms(7) Cons u in \<open>simp_all add: t del: book_step.simps\<close>)
    with find drain_find_fresh [OF u assms(4,5), of d ds] assms(7) Cons show ?thesis
      by (simp add: drainPending_def assms(8) assms(9) [symmetric] Let_def del: book_step.simps)
  qed
qed

text \<open>
  C12. Buffering is transparent: deltas that arrive before the reference snapshot and are replayed
  when it is applied give the same book as the snapshot followed by the deltas ahead of it. Buffered
  deltas at or behind the snapshot's sequence are dropped; those ahead continue it without a gap.
\<close>

theorem buffering_is_transparent:
  assumes "book_inv s" "\<not> bs_ready s" "bs_pending s = []"
    and "length (stale @ fresh) \<le> bs_maxPending s"
    and "validateBidAskOrder (sn_Bids snap) (sn_Asks snap) = None"
    and "sn_Sequence snap = Some n" "in_int64 n" "n \<noteq> max_int64"
    and "list_all (\<lambda>d. behind (Some n) (ob_Sequence d)) stale" "consecutive n fresh"
  shows "foldl book_step s (map BookDelta (stale @ fresh) @ [BookSnapshot snap]) =
         foldl book_step s (BookSnapshot snap # map BookDelta fresh)"
proof -
  let ?load = "\<lambda>s::orderBookState. s\<lparr> bs_bids := foldl load_level [] (sn_Bids snap),
      bs_asks := foldl load_level [] (sn_Asks snap), bs_lastUpdateID := None,
      bs_sequence := sn_Sequence snap, bs_inputID := sn_InputID snap, bs_ready := True \<rparr>"
  let ?b = "s\<lparr>bs_pending := stale @ fresh\<rparr>"
  have buf: "foldl book_step s (map BookDelta (stale @ fresh)) = ?b"
    using buffer_run [of s "stale @ fresh"] assms(2,3,4) by simp
  have late: "book_step s (BookSnapshot snap) = ?load s"
    using assms(3,5) by (simp add: applySnapshot_def)
  have "drainPending (?load ?b) = (None, foldl book_step (?load s) (map BookDelta fresh))"
    by (rule drain_buffered [OF _ _ _ assms(7,8,9,10)]) (use assms(3,6) in simp_all)
  then have "book_step ?b (BookSnapshot snap) = foldl book_step (?load s) (map BookDelta fresh)"
    using assms(5,3) by (auto simp: applySnapshot_def Let_def)
  with buf late show ?thesis by simp
qed

text \<open>
  The generated side does not depend on the iteration order of the map when no two prices of
  the side have the same value.
\<close>

theorem export_is_deterministic:
  assumes "side_ok m" "side_ok m'" "map_of m = map_of m'" "inj_on price_key (fst ` set m)"
  shows "exportLevels m asc = exportLevels m' asc"
proof -
  have "mset m = mset m'"
    using assms by (intro gomap_same_content_mset) (simp_all add: side_ok_def)
  moreover have "inj_on (price_key \<circ> fst) (set m)"
    using assms(1,4) by (intro comp_inj_on) (simp_all add: side_ok_def distinct_map)
  ultimately have "sort_key (price_key \<circ> fst) m = sort_key (price_key \<circ> fst) m'"
    by (rule sort_key_perm_eq)
  with assms(1,2) show ?thesis by (simp add: exportLevels_side_ok)
qed

subsection \<open>Witnesses\<close>

definition sample_snapshot :: OrderBookSnapshot where
  "sample_snapshot =
     \<lparr> sn_SnapshotID = 0, sn_GroupID = ''g'', sn_InputID = ''i'', sn_SnapshotTime = 0,
       sn_Sequence = Some 10,
       sn_Bids = [\<lparr>pl_Price = ''100'', pl_Quantity = ''2''\<rparr>, \<lparr>pl_Price = ''99.5'', pl_Quantity = ''1''\<rparr>],
       sn_Asks = [\<lparr>pl_Price = ''101'', pl_Quantity = ''3''\<rparr>], sn_CreatedAt = 0 \<rparr>"

definition sample_delta :: "int64 \<Rightarrow> string \<Rightarrow> string \<Rightarrow> OrderBookDelta" where
  "sample_delta q price quantity =
     zero_delta\<lparr> ob_Sequence := Some q, ob_Bids := [\<lparr>pl_Price = price, pl_Quantity = quantity\<rparr>] \<rparr>"

lemmas sample_eval = sample_snapshot_def sample_delta_def zero_delta_def levels_priced_def
  delta_priced_def

lemma sample_prices [simp]:
  "\<exists>v. parsed_price ''100'' = Some v" "\<exists>v. parsed_price ''99.5'' = Some v"
  "\<exists>v. parsed_price ''101'' = Some v"
  by (simp_all add: decimal_eval)

lemma sample_order: "validateBidAskOrder (sn_Bids sample_snapshot) (sn_Asks sample_snapshot) = None"
  by (simp add: validateBidAskOrder_def sample_snapshot_def decimal_eval)

definition sample_book :: orderBookState where
  "sample_book = snd (applySnapshot (newOrderBookState ''g'' ''i'') sample_snapshot)"

lemma sample_book_eq:
  "sample_book = (newOrderBookState ''g'' ''i'')\<lparr> bs_bids := [(''100'', ''2''), (''99.5'', ''1'')],
     bs_asks := [(''101'', ''3'')], bs_sequence := Some 10, bs_inputID := ''i'', bs_ready := True \<rparr>"
  using sample_order
  by (simp add: sample_book_def applySnapshot_def sample_snapshot_def newOrderBookState_def
      load_level_def zero_quantity_def)

lemma sample_book_live: "book_inv sample_book" "bs_ready sample_book" "bs_sequence sample_book = Some 10"
  by (simp_all add: sample_book_eq book_inv_def newOrderBookState_def side_ok_def zero_quantity_def)

theorem order_book_invariant_witness:
  "list_all event_priced [BookDelta (sample_delta 11 ''100'' ''0''), BookSnapshot sample_snapshot] \<and>
   book_inv (foldl book_step (newOrderBookState ''g'' ''i'')
     [BookDelta (sample_delta 11 ''100'' ''0''), BookSnapshot sample_snapshot])"
proof -
  have ok: "list_all event_priced
      [BookDelta (sample_delta 11 ''100'' ''0''), BookSnapshot sample_snapshot]"
    by (simp add: sample_eval)
  from order_book_invariant [OF ok] ok show ?thesis by blast
qed

theorem ready_book_is_contiguous_replay_witness:
  "map_of (bs_bids (foldl book_step sample_book
     (map BookDelta [sample_delta 11 ''100'' ''0'', sample_delta 12 ''101'' ''7'']))) ''101'' = Some ''7''"
proof -
  let ?ds = "[sample_delta 11 ''100'' ''0'', sample_delta 12 ''101'' ''7'']"
  have "list_all (\<lambda>d. ob_Sequence d \<noteq> None) ?ds" by (simp add: sample_delta_def)
  note run = ready_book_is_contiguous_replay [OF sample_book_live this refl, of "''101''"]
  have "consecutive 10 ?ds" by (simp add: sample_delta_def wrap64_def)
  with run have "map_of (bs_bids (foldl book_step sample_book (map BookDelta ?ds))) ''101'' =
      (case last_write (concat (map ob_Bids ?ds)) ''101'' of
         None \<Rightarrow> map_of (bs_bids sample_book) ''101''
       | Some l \<Rightarrow> if zero_quantity (pl_Quantity l) then None else Some (pl_Quantity l))"
    by blast
  also have "\<dots> = Some ''7''"
    by (simp add: last_write_def sample_delta_def zero_delta_def zero_quantity_def)
  finally show ?thesis .
qed

theorem buffering_is_transparent_witness:
  "foldl book_step (newOrderBookState ''g'' ''i'')
     (map BookDelta ([sample_delta 10 ''99'' ''9''] @ [sample_delta 11 ''100'' ''5''])
      @ [BookSnapshot sample_snapshot]) =
   foldl book_step (newOrderBookState ''g'' ''i'')
     (BookSnapshot sample_snapshot # map BookDelta [sample_delta 11 ''100'' ''5''])"
  by (rule buffering_is_transparent [where n = 10])
     (simp_all add: newOrderBookState_def book_inv_def defaultMaxPending_def sample_order,
      simp_all add: sample_eval in_int64_def min_int64_def max_int64_def behind_def wrap64_def)

theorem generated_snapshot_restores_book_witness:
  "\<exists>snap t. generateSnapshot sample_book 5 = Some snap \<and>
     applySnapshot (newOrderBookState ''g'' ''j'') snap = (None, t) \<and>
     map_of (bs_bids t) = map_of (bs_bids sample_book)"
  using generated_snapshot_restores_book [OF sample_book_live(1,2), of 5 "''g''" "''j''"] by blast

theorem export_is_deterministic_witness:
  "exportLevels [(''100'', ''2''), (''101'', ''1'')] True = exportLevels [(''101'', ''1''), (''100'', ''2'')] True"
  by (rule export_is_deterministic)
     (auto simp: side_ok_def zero_quantity_def inj_on_def price_key_def decimal_eval)

end
