(* ===== verification/Go_Time.thy ===== *)
theory Go_Time
  imports Go_Strings
begin

section \<open>Calendar time: the time.Parse and Time.Format of RFC3339Nano\<close>

text \<open>
  Messages and query cursors carry times in the layout \<^verbatim>\<open>2006-01-02T15:04:05.999999999Z07:00\<close>. The
  model of \<open>time.Parse\<close> follows the layout chunk by chunk, with what Go tolerates: an hour of one
  digit, a comma before the fraction, more than nine fractional digits (truncated), an offset of
  up to 24 hours and 60 minutes. \<open>format_time\<close> is \<open>Time.Format\<close> in UTC. The calendar is the
  proleptic Gregorian one. The main lemma is that parsing inverts formatting on the years 0 to 9999.
\<close>

subsection \<open>The calendar\<close>

definition leap_year :: "int \<Rightarrow> bool" where
  "leap_year y \<longleftrightarrow> y mod 4 = 0 \<and> (y mod 100 \<noteq> 0 \<or> y mod 400 = 0)"

definition month_lengths :: "int \<Rightarrow> int list" where
  "month_lengths y = [31, if leap_year y then 29 else 28, 31, 30, 31, 30, 31, 31, 30, 31, 30, 31]"

definition daysIn :: "int \<Rightarrow> int \<Rightarrow> int" where
  "daysIn month year = month_lengths year ! nat (month - 1)"

text \<open>Days from January 1, year 1, to January 1 of a year.\<close>

definition days_before_year :: "int \<Rightarrow> int" where
  "days_before_year y = 365 * (y - 1) + (y - 1) div 4 - (y - 1) div 100 + (y - 1) div 400"

text \<open>The instant of a date and a time of day in UTC.\<close>

definition unix_epoch_days :: int where
  "unix_epoch_days = 719162"

definition Date :: "int \<Rightarrow> int \<Rightarrow> int \<Rightarrow> int \<Rightarrow> int \<Rightarrow> int \<Rightarrow> int \<Rightarrow> time" where
  "Date year month day hr minute sec nsec =
     (let days = days_before_year year + sum_list (take (nat (month - 1)) (month_lengths year)) +
                 (day - 1) - unix_epoch_days
      in ((days * 24 + hr) * 60 + minute) * 60 * second + sec * second + nsec)"

text \<open>The year and the day in the year of a day number, by cycles of 400, 100, 4 and 1 years.\<close>

definition year_of_days :: "int \<Rightarrow> int \<times> int" where
  "year_of_days d =
     (let a = d div 146097; r = d mod 146097;
          b = min 3 (r div 36524); r = r - 36524 * b;
          c = r div 1461; r = r - 1461 * c;
          e = min 3 (r div 365)
      in (400 * a + 100 * b + 4 * c + e + 1, r - 365 * e))"

fun find_month :: "int list \<Rightarrow> int \<Rightarrow> int \<Rightarrow> int \<times> int" where
  "find_month [] m d = (m, d)"
| "find_month (l # ls) m d = (if d < l then (m, d) else find_month ls (m + 1) (d - l))"

definition civil :: "int \<Rightarrow> int \<times> int \<times> int" where
  "civil d =
     (case year_of_days d of (y, yd) \<Rightarrow>
      case find_month (month_lengths y) 1 yd of (m, md) \<Rightarrow> (y, m, md + 1))"

subsection \<open>Formatting\<close>

definition pad2 :: "int \<Rightarrow> string" where
  "pad2 n = [digit_char (nat n div 10 mod 10), digit_char (nat n mod 10)]"

definition pad4 :: "int \<Rightarrow> string" where
  "pad4 n = [digit_char (nat n div 1000 mod 10), digit_char (nat n div 100 mod 10),
             digit_char (nat n div 10 mod 10), digit_char (nat n mod 10)]"

text \<open>The nine digits of the nanoseconds without trailing zeros, and nothing for a whole second.\<close>

fun nine_digits :: "nat \<Rightarrow> nat \<Rightarrow> string" where
  "nine_digits 0 n = []"
| "nine_digits (Suc k) n = digit_char (n div 10 ^ k mod 10) # nine_digits k n"

definition strip_zeros :: "string \<Rightarrow> string" where
  "strip_zeros s = rev (dropWhile (\<lambda>c. c = CHR ''0'') (rev s))"

definition format_frac :: "int \<Rightarrow> string" where
  "format_frac nsec =
     (let f = strip_zeros (nine_digits 9 (nat nsec)) in if f = [] then [] else CHR ''.'' # f)"

definition format_time :: "time \<Rightarrow> string" where
  "format_time t =
     (let secs = t div second; nsec = t mod second; days = secs div 86400; rest = secs mod 86400 in
      case civil (days + unix_epoch_days) of (y, m, d) \<Rightarrow>
        pad4 y @ ''-'' @ pad2 m @ ''-'' @ pad2 d @ ''T'' @ pad2 (rest div 3600) @ '':'' @
        pad2 (rest div 60 mod 60) @ '':'' @ pad2 (rest mod 60) @ format_frac nsec @ ''Z'')"

subsection \<open>Parsing\<close>

text \<open>\<open>getnum\<close>: one or two digits, two when \<open>fixed\<close>.\<close>

definition getnum :: "bool \<Rightarrow> string \<Rightarrow> (int \<times> string) option" where
  "getnum fixed s =
     (case s of
        a # r \<Rightarrow>
          if \<not> is_digit a then None
          else (case r of
                  b # r' \<Rightarrow> if is_digit b then Some (int (10 * digit_val a + digit_val b), r')
                            else if fixed then None else Some (int (digit_val a), r)
                | [] \<Rightarrow> if fixed then None else Some (int (digit_val a), r))
      | [] \<Rightarrow> None)"

definition expect :: "char \<Rightarrow> string \<Rightarrow> string option" where
  "expect c s = (case s of x # r \<Rightarrow> if x = c then Some r else None | [] \<Rightarrow> None)"

definition parse_year :: "string \<Rightarrow> (int \<times> string) option" where
  "parse_year s =
     (let p = take 4 s in
      if length p = 4 \<and> list_all is_digit p then Some (int (digits_val p), drop 4 s) else None)"

text \<open>\<open>parseNanoseconds\<close> of at most nine digits after the separator.\<close>

definition parse_frac :: "string \<Rightarrow> int \<times> string" where
  "parse_frac s =
     (case s of
        p # r \<Rightarrow>
          let ds = takeWhile is_digit r; used = take 9 ds in
          if p \<in> set ''.,'' \<and> ds \<noteq> []
          then (int (digits_val used * 10 ^ (9 - length used)), drop (length ds) r)
          else (0, s)
      | [] \<Rightarrow> (0, s))"

text \<open>The offset in seconds.\<close>

definition parse_zone :: "string \<Rightarrow> (int \<times> string) option" where
  "parse_zone s =
     (case s of
        c # r \<Rightarrow>
          if c = CHR ''Z'' then Some (0, r)
          else Option.bind (getnum True r) (\<lambda>(hr, r).
               Option.bind (expect CHR '':'' r) (\<lambda>r.
               Option.bind (getnum True r) (\<lambda>(mm, r).
               if hr > 24 \<or> mm > 60 then None
               else if c = CHR ''+'' then Some ((hr * 60 + mm) * 60, r)
               else if c = CHR ''-'' then Some (- ((hr * 60 + mm) * 60), r)
               else None)))
      | [] \<Rightarrow> None)"

definition parse_time :: "string \<Rightarrow> time option" where
  "parse_time s =
     Option.bind (parse_year s) (\<lambda>(year, s).
     Option.bind (expect CHR ''-'' s) (\<lambda>s.
     Option.bind (getnum True s) (\<lambda>(month, s).
     Option.bind (expect CHR ''-'' s) (\<lambda>s.
     Option.bind (getnum True s) (\<lambda>(day, s).
     Option.bind (expect CHR ''T'' s) (\<lambda>s.
     Option.bind (getnum False s) (\<lambda>(hr, s).
     Option.bind (expect CHR '':'' s) (\<lambda>s.
     Option.bind (getnum True s) (\<lambda>(minute, s).
     Option.bind (expect CHR '':'' s) (\<lambda>s.
     Option.bind (getnum True s) (\<lambda>(sec, s).
     case parse_frac s of (nsec, s) \<Rightarrow>
     Option.bind (parse_zone s) (\<lambda>(offset, s).
     if s \<noteq> [] \<or> month < 1 \<or> month > 12 \<or> hr \<ge> 24 \<or> minute \<ge> 60 \<or> sec \<ge> 60 \<or>
        day < 1 \<or> day > daysIn month year
     then None
     else Some (Date year month day hr minute sec nsec - offset * second)))))))))))))"

text \<open>\<open>time.UnixMilli\<close>.\<close>

definition UnixMilli :: "int64 \<Rightarrow> time" where
  "UnixMilli ms = ms * millisecond"

subsection \<open>The calendar is a bijection\<close>

lemma int_div_mod:
  fixes q r k :: int
  assumes "0 \<le> r" "r < k"
  shows "(q * k + r) div k = q" "(q * k + r) mod k = r"
  using assms by simp_all

lemma year_digits:
  fixes a b c e :: int
  assumes "0 \<le> b" "b \<le> 3" "0 \<le> c" "c \<le> 24" "0 \<le> e" "e \<le> 3" "y = 400 * a + 100 * b + 4 * c + e + 1"
  shows "days_before_year y = 146097 * a + 36524 * b + 1461 * c + 365 * e"
    and "leap_year y \<longleftrightarrow> e = 3 \<and> (c \<noteq> 24 \<or> b = 3)"
proof -
  have "y - 1 = (100 * a + 25 * b + c) * 4 + e" "y - 1 = (4 * a + b) * 100 + (4 * c + e)"
    "y - 1 = a * 400 + (100 * b + 4 * c + e)" using assms(7) by simp_all
  then have "(y - 1) div 4 = 100 * a + 25 * b + c" "(y - 1) div 100 = 4 * a + b" "(y - 1) div 400 = a"
    using int_div_mod(1) assms(1-6) by simp_all
  then show "days_before_year y = 146097 * a + 36524 * b + 1461 * c + 365 * e"
    using assms(7) by (simp add: days_before_year_def)
  have m4: "y mod 4 = 0 \<longleftrightarrow> e = 3"
  proof (cases "e = 3")
    case True
    then have "y = (100 * a + 25 * b + c + 1) * 4 + 0" using assms(7) by simp
    then show ?thesis using True by (simp only: int_div_mod(2)) simp
  next
    case False
    then have eq: "y = (100 * a + 25 * b + c) * 4 + (e + 1)" "e + 1 < 4" using assms(6,7) by simp_all
    have "y mod 4 = e + 1" unfolding eq(1) by (rule int_div_mod(2)) (use assms(5) eq(2) in simp_all)
    then show ?thesis using False assms(5) by simp
  qed
  have m100: "y mod 100 = 0 \<longleftrightarrow> c = 24" if "e = 3"
  proof (cases "c = 24")
    case True
    then have "y = (4 * a + b + 1) * 100 + 0" using assms(7) that by simp
    then show ?thesis using True by (simp only: int_div_mod(2)) simp
  next
    case False
    then have eq: "y = (4 * a + b) * 100 + 4 * (c + 1)" "4 * (c + 1) < 100" using assms(4,7) that by simp_all
    have "y mod 100 = 4 * (c + 1)" unfolding eq(1) by (rule int_div_mod(2)) (use assms(3) eq(2) in simp_all)
    then show ?thesis using False assms(3) by simp
  qed
  have m400: "y mod 400 = 0 \<longleftrightarrow> b = 3" if "e = 3" "c = 24"
  proof (cases "b = 3")
    case True
    then have "y = (a + 1) * 400 + 0" using assms(7) that by simp
    then show ?thesis using True by (simp only: int_div_mod(2)) simp
  next
    case False
    then have eq: "y = a * 400 + 100 * (b + 1)" "100 * (b + 1) < 400" using assms(2,7) that by simp_all
    have "y mod 400 = 100 * (b + 1)" unfolding eq(1) by (rule int_div_mod(2)) (use assms(1) eq(2) in simp_all)
    then show ?thesis using False assms(1) by simp
  qed
  show "leap_year y \<longleftrightarrow> e = 3 \<and> (c \<noteq> 24 \<or> b = 3)"
    unfolding leap_year_def m4 using m100 m400 by (cases "e = 3"; cases "c = 24") auto
qed

definition year_length :: "int \<Rightarrow> int" where
  "year_length y = (if leap_year y then 366 else 365)"

lemma year_of_days_correct:
  assumes "year_of_days d = (y, yd)"
  shows "d = days_before_year y + yd \<and> 0 \<le> yd \<and> yd < year_length y"
proof -
  define a r0 where "a = d div 146097" and "r0 = d mod 146097"
  define b where "b = min 3 (r0 div 36524)"
  define r1 where "r1 = r0 - 36524 * b"
  define c where "c = r1 div 1461"
  define r2 where "r2 = r1 - 1461 * c"
  define e where "e = min 3 (r2 div 365)"
  have "(y, yd) = (400 * a + 100 * b + 4 * c + e + 1, r2 - 365 * e)"
    unfolding assms [symmetric] year_of_days_def Let_def e_def r2_def c_def r1_def b_def r0_def a_def by (rule refl)
  then have y: "y = 400 * a + 100 * b + 4 * c + e + 1" and yd: "yd = r2 - 365 * e" by (simp_all only: prod.inject)
  have r0: "0 \<le> r0" "r0 < 146097" "d = 146097 * a + r0" by (simp_all add: r0_def a_def)
  have q1: "r0 = 36524 * (r0 div 36524) + r0 mod 36524" "0 \<le> r0 mod 36524" "r0 mod 36524 < 36524" by simp_all
  have b: "0 \<le> b" "b \<le> 3" using r0 by (simp_all add: b_def pos_imp_zdiv_nonneg_iff)
  have r1: "0 \<le> r1" "r1 < 36524 \<or> (b = 3 \<and> r1 \<le> 36524)"
    using q1 r0 by (auto simp: r1_def b_def min_def split: if_splits)
  have q2: "r1 = 1461 * c + r2" "0 \<le> r2" "r2 < 1461" by (simp_all add: r2_def c_def minus_mult_div_eq_mod)
  have c: "0 \<le> c" "c \<le> 24" using r1 q2 by linarith+
  have q3: "r2 = 365 * (r2 div 365) + r2 mod 365" "0 \<le> r2 mod 365" "r2 mod 365 < 365" by simp_all
  have e: "0 \<le> e" "e \<le> 3" using q2 by (simp_all add: e_def pos_imp_zdiv_nonneg_iff)
  have yb: "0 \<le> yd" "yd < 365 \<or> (e = 3 \<and> yd \<le> 365)"
    using q3 q2 unfolding yd e_def min_def by (auto split: if_splits)
  note dig = year_digits [OF b c e y]
  have "d = days_before_year y + yd" using r0(3) q2(1) by (simp add: dig(1) yd r1_def)
  moreover have "yd < year_length y"
  proof (cases "yd < 365")
    case False
    with yb have "e = 3" "yd = 365" by auto
    then have "r1 = 1461 * c + 1460" using q2(1) yd by simp
    with r1 have "c \<noteq> 24 \<or> b = 3" by auto
    with \<open>e = 3\<close> \<open>yd = 365\<close> show ?thesis by (simp add: year_length_def dig(2))
  qed (simp add: year_length_def)
  ultimately show ?thesis using yb(1) by simp
qed

lemma find_month_correct:
  assumes "find_month ls m d = (m', d')" "0 \<le> d" "d < sum_list ls"
  shows "m \<le> m' \<and> nat (m' - m) < length ls \<and> d = sum_list (take (nat (m' - m)) ls) + d' \<and>
    0 \<le> d' \<and> d' < ls ! nat (m' - m)"
  using assms
proof (induction ls arbitrary: m d)
  case (Cons l ls)
  show ?case
  proof (cases "d < l")
    case False
    with Cons.IH [of "m + 1" "d - l"] Cons.prems
    have IH: "m + 1 \<le> m'" "nat (m' - (m + 1)) < length ls"
      "d - l = sum_list (take (nat (m' - (m + 1))) ls) + d'" "0 \<le> d'" "d' < ls ! nat (m' - (m + 1))"
      by auto
    moreover from IH(1) have "nat (m' - m) = Suc (nat (m' - (m + 1)))" by simp
    ultimately show ?thesis by simp
  qed (use Cons.prems in auto)
qed simp

lemma sum_month_lengths: "sum_list (month_lengths y) = year_length y"
  by (simp add: month_lengths_def year_length_def)

lemma civil_correct:
  assumes "civil d = (y, m, md)"
  shows "1 \<le> m \<and> m \<le> 12 \<and> 1 \<le> md \<and> md \<le> daysIn m y \<and>
    d = days_before_year y + sum_list (take (nat (m - 1)) (month_lengths y)) + (md - 1)"
proof -
  obtain yd where y: "year_of_days d = (y, yd)" "find_month (month_lengths y) 1 yd = (m, md - 1)"
    using assms by (auto simp: civil_def split: prod.splits)
  from year_of_days_correct [OF y(1)] have d: "d = days_before_year y + yd" "0 \<le> yd" "yd < year_length y" by auto
  from find_month_correct [OF y(2) d(2)] d(3) sum_month_lengths
  have "1 \<le> m" "nat (m - 1) < length (month_lengths y)"
    "yd = sum_list (take (nat (m - 1)) (month_lengths y)) + (md - 1)" "0 \<le> md - 1"
    "md - 1 < month_lengths y ! nat (m - 1)"
    by auto
  then show ?thesis using d(1) by (auto simp: daysIn_def month_lengths_def)
qed

subsection \<open>Parsing inverts formatting\<close>

lemma digit_char_simps [simp]:
  "is_digit (digit_char (n mod 10))" "digit_val (digit_char (n mod 10)) = n mod 10"
  using digit_char_inverse [of "n mod 10"] by simp_all

lemma pad2_digits:
  obtains a b where "pad2 n = [a, b]" "is_digit a" "is_digit b"
    "digit_val a = nat n div 10 mod 10" "digit_val b = nat n mod 10"
  by (simp add: pad2_def)

lemma getnum_pad2: "0 \<le> n \<Longrightarrow> n < 100 \<Longrightarrow> getnum fixed (pad2 n @ s) = Some (n, s)"
proof -
  assume n: "0 \<le> n" "n < 100"
  obtain a b where ab: "pad2 n = [a, b]" "is_digit a" "is_digit b"
    "digit_val a = nat n div 10 mod 10" "digit_val b = nat n mod 10" by (rule pad2_digits)
  have "int (10 * (nat n div 10 mod 10) + nat n mod 10) = n" using n by (cases n) auto
  then show "getnum fixed (pad2 n @ s) = Some (n, s)" using ab by (simp add: getnum_def)
qed

lemma pad4_digits:
  "length (pad4 n) = 4" "list_all is_digit (pad4 n)"
  "digits_val (pad4 n) = 10 * (10 * (10 * (nat n div 1000 mod 10) + nat n div 100 mod 10) +
     nat n div 10 mod 10) + nat n mod 10"
  by (simp_all add: pad4_def digits_val_def)

lemma four_digits:
  fixes k :: nat
  assumes "k < 10000"
  shows "10 * (10 * (10 * (k div 1000 mod 10) + k div 100 mod 10) + k div 10 mod 10) + k mod 10 = k"
proof -
  have "k div 100 = k div 10 div 10" "k div 1000 = k div 100 div 10" by (simp_all flip: div_mult2_eq)
  moreover have "k div 1000 < 10" using assms by simp
  ultimately show ?thesis
    using mult_div_mod_eq [of 10 k] mult_div_mod_eq [of 10 "k div 10"] mult_div_mod_eq [of 10 "k div 100"]
    by simp
qed

lemma parse_year_pad4: "0 \<le> n \<Longrightarrow> n < 10000 \<Longrightarrow> parse_year (pad4 n @ s) = Some (n, s)"
proof -
  assume n: "0 \<le> n" "n < 10000"
  have "digits_val (pad4 n) = nat n" unfolding pad4_digits(3) by (rule four_digits) (use n in simp)
  then show "parse_year (pad4 n @ s) = Some (n, s)"
    using pad4_digits(1,2) [of n] n(1) by (simp add: parse_year_def Let_def)
qed

lemma nine_digits_props:
  "length (nine_digits k n) = k \<and> list_all is_digit (nine_digits k n)"
  by (induction k) simp_all

lemma digits_val_append: "digits_val (a @ b) = digits_val a * 10 ^ length b + digits_val b"
proof (induction b rule: rev_induct)
  case (snoc x xs)
  then show ?case using digits_val_snoc [of "a @ xs" x] by (simp add: digits_val_snoc algebra_simps)
qed (simp add: digits_val_def)

lemma digits_val_nine_digits: "digits_val (nine_digits k n) = n mod 10 ^ k"
proof (induction k)
  case (Suc k)
  have "digits_val (nine_digits (Suc k) n) = n div 10 ^ k mod 10 * 10 ^ k + n mod 10 ^ k"
    using digits_val_append [of "[digit_char (n div 10 ^ k mod 10)]" "nine_digits k n"] Suc
      nine_digits_props [of k n]
    by (simp add: digits_val_def)
  also have "\<dots> = n mod 10 ^ Suc k"
    using mod_mult2_eq [of n "10 ^ k" 10] by (simp add: mult.commute)
  finally show ?case .
qed (simp add: digits_val_def)

lemma strip_zeros_split: "\<exists>j. s = strip_zeros s @ replicate j CHR ''0''"
proof -
  have "takeWhile (\<lambda>c. c = CHR ''0'') xs = replicate (length (takeWhile (\<lambda>c. c = CHR ''0'') xs)) CHR ''0''" for xs
    by (induction xs) auto
  then have "rev s = replicate (length (takeWhile (\<lambda>c. c = CHR ''0'') (rev s))) CHR ''0'' @
      dropWhile (\<lambda>c. c = CHR ''0'') (rev s)"
    by (metis takeWhile_dropWhile_id)
  then have "s = strip_zeros s @ replicate (length (takeWhile (\<lambda>c. c = CHR ''0'') (rev s))) CHR ''0''"
    unfolding strip_zeros_def by (metis rev_append rev_replicate rev_rev_ident)
  then show ?thesis by blast
qed

lemma digits_val_zeros: "digits_val (replicate j CHR ''0'') = 0"
  by (induction j) (simp_all add: digits_val_def digit_val_def)

lemma parse_frac_format:
  assumes "0 \<le> n" "n < 10 ^ 9"
  shows "parse_frac (format_frac n @ ''Z'') = (n, ''Z'')"
proof -
  let ?d = "nine_digits 9 (nat n)" and ?f = "strip_zeros (nine_digits 9 (nat n))"
  obtain j where j: "?d = ?f @ replicate j CHR ''0''" using strip_zeros_split by blast
  have len: "length ?f + j = 9" using arg_cong [OF j, of length] nine_digits_props [of 9 "nat n"] by simp
  have dig: "list_all is_digit ?f" using nine_digits_props [of 9 "nat n"] j by (metis list_all_append)
  have "digits_val ?f * 10 ^ j = digits_val ?d"
    using digits_val_append [of ?f "replicate j CHR ''0''"] j by (simp add: digits_val_zeros)
  also have "\<dots> = nat n" using assms by (simp add: digits_val_nine_digits)
  finally have val: "digits_val ?f * 10 ^ j = nat n" .
  show ?thesis
  proof (cases "?f = []")
    case True
    then have "n = 0" using val assms(1) by (simp add: digits_val_def)
    with True show ?thesis by (simp add: format_frac_def Let_def parse_frac_def is_digit_def)
  next
    case False
    have tw: "takeWhile is_digit (?f @ ''Z'') = ?f"
      using dig by (subst takeWhile_append2) (auto simp: list_all_iff is_digit_def)
    have "9 - length ?f = j" "take 9 ?f = ?f" using len by simp_all
    with False tw val assms(1) show ?thesis by (simp add: format_frac_def Let_def parse_frac_def)
  qed
qed

definition year_of :: "time \<Rightarrow> int" where
  "year_of t = fst (civil (t div second div 86400 + unix_epoch_days))"

lemma daysIn_le: "1 \<le> m \<Longrightarrow> m \<le> 12 \<Longrightarrow> daysIn m y \<le> 31"
proof -
  assume "1 \<le> m" "m \<le> 12"
  then have "nat (m - 1) < length (month_lengths y)" by (simp add: month_lengths_def)
  moreover have "\<forall>x \<in> set (month_lengths y). x \<le> 31" by (simp add: month_lengths_def)
  ultimately show "daysIn m y \<le> 31" unfolding daysIn_def by (metis nth_mem)
qed

lemma time_of_day:
  fixes r :: int
  assumes "0 \<le> r" "r < 86400"
  shows "0 \<le> r div 3600" "r div 3600 < 24" "0 \<le> r div 60 mod 60" "r div 60 mod 60 < 60"
    "0 \<le> r mod 60" "r mod 60 < 60" "r = (r div 3600 * 60 + r div 60 mod 60) * 60 + r mod 60"
proof -
  have e: "r div 3600 = r div 60 div 60" by (simp flip: zdiv_zmult2_eq)
  show "r = (r div 3600 * 60 + r div 60 mod 60) * 60 + r mod 60" unfolding e by simp
  show "0 \<le> r div 3600" using assms by (simp add: pos_imp_zdiv_nonneg_iff)
  show "r div 3600 < 24" using assms by (simp add: zdiv_mono_strict div_less_iff_less_mult)
qed simp_all

lemma parse_time_pieces:
  assumes "0 \<le> y" "y < 10000" "1 \<le> m" "m \<le> 12" "1 \<le> d" "d \<le> daysIn m y"
    and "0 \<le> hh" "hh < 24" "0 \<le> mi" "mi < 60" "0 \<le> ss" "ss < 60" "0 \<le> n" "n < 10 ^ 9"
  shows "parse_time (pad4 y @ CHR ''-'' # pad2 m @ CHR ''-'' # pad2 d @ CHR ''T'' # pad2 hh @
      CHR '':'' # pad2 mi @ CHR '':'' # pad2 ss @ format_frac n @ ''Z'') = Some (Date y m d hh mi ss n)"
proof -
  have "d < 100" using daysIn_le [OF assms(3,4), of y] assms(6) by simp
  then show ?thesis
    using assms
    by (simp add: parse_time_def parse_year_pad4 getnum_pad2 expect_def parse_frac_format parse_zone_def)
qed

lemma parse_format_time:
  assumes "0 \<le> year_of t" "year_of t \<le> 9999"
  shows "parse_time (format_time t) = Some t"
proof -
  define secs nsec where "secs = t div second" and "nsec = t mod second"
  define days rest where "days = secs div 86400" and "rest = secs mod 86400"
  obtain y m d where c: "civil (days + unix_epoch_days) = (y, m, d)" by (metis prod_cases3)
  note cal = civil_correct [OF c]
  have y: "0 \<le> y" "y < 10000" using assms c by (simp_all add: year_of_def days_def secs_def)
  have d: "1 \<le> m" "m \<le> 12" "1 \<le> d" "d \<le> daysIn m y" using cal by auto
  have rest: "0 \<le> rest" "rest < 86400" by (simp_all add: rest_def)
  note hms = time_of_day [OF rest]
  have ns: "0 \<le> nsec" "nsec < 10 ^ 9" by (simp_all add: nsec_def second_def)
  have "Date y m d (rest div 3600) (rest div 60 mod 60) (rest mod 60) nsec =
      (days * 86400 + rest) * second + nsec"
  proof -
    let ?D = "days_before_year y + sum_list (take (nat (m - 1)) (month_lengths y)) + (d - 1) - unix_epoch_days"
    have "((?D * 24 + rest div 3600) * 60 + rest div 60 mod 60) * 60 + rest mod 60 = days * 86400 + rest"
      using cal hms(7) by simp
    then have "(((?D * 24 + rest div 3600) * 60 + rest div 60 mod 60) * 60 + rest mod 60) * second =
        (days * 86400 + rest) * second" by simp
    then show ?thesis unfolding Date_def Let_def by (simp only: distrib_right)
  qed
  also have "days * 86400 + rest = secs" by (simp add: days_def rest_def)
  also have "secs * second + nsec = t" by (simp add: secs_def nsec_def)
  finally have date: "Date y m d (rest div 3600) (rest div 60 mod 60) (rest mod 60) nsec = t" .
  have "format_time t = pad4 y @ CHR ''-'' # pad2 m @ CHR ''-'' # pad2 d @ CHR ''T'' # pad2 (rest div 3600) @
      CHR '':'' # pad2 (rest div 60 mod 60) @ CHR '':'' # pad2 (rest mod 60) @ format_frac nsec @ ''Z''"
    unfolding format_time_def Let_def using c by (simp add: secs_def nsec_def days_def rest_def)
  with parse_time_pieces [OF y d hms(1-6) ns] date show ?thesis by simp
qed

lemma format_time_no_bar: "CHR ''|'' \<notin> set (format_time t)"
proof -
  have "\<not> is_digit CHR ''|''" by (simp add: is_digit_def)
  moreover have "list_all is_digit (pad2 n)" for n by (rule pad2_digits [of n]) simp
  ultimately have p: "CHR ''|'' \<notin> set (pad2 n)" "CHR ''|'' \<notin> set (pad4 n)" for n
    using pad4_digits(2) [of n] by (metis list_all_iff)+
  have "CHR ''|'' \<notin> set (nine_digits k n)" for k n
    using nine_digits_props [of k n] by (auto simp: list_all_iff is_digit_def)
  moreover have "set (strip_zeros s) \<subseteq> set s" for s
    by (auto simp: strip_zeros_def dest: set_dropWhileD)
  ultimately have "CHR ''|'' \<notin> set (format_frac n)" for n by (auto simp: format_frac_def Let_def)
  then show ?thesis
    using p by (auto simp: format_time_def Let_def split: prod.splits)
qed

end
