(* ===== verification/Json.thy ===== *)
theory Json
  imports Go_Strings
begin

section \<open>JSON text: what the message decoders use of encoding/json\<close>

text \<open>
  The decoders read one JSON value from the payload and require nothing but white space after it.
  The model has the two layers of the Go scanner: a lexer on bytes (strings with their escapes, the
  number grammar, literals) and a push-down automaton on tokens with Go's nesting limit. Numbers keep
  their literal text, because the code reads them as text; object members keep their order and their
  duplicates, because later members overwrite earlier ones. Malformed UTF-8 in a string becomes
  U+FFFD, as in Go.
\<close>

datatype json =
    JNull
  | JBool bool
  | JNum string
  | JStr string
  | JArr "json list"
  | JObj "(string \<times> json) list"

subsection \<open>Strings\<close>

abbreviation byte :: "char \<Rightarrow> nat" where
  "byte c \<equiv> of_char c"

definition bytes_of :: "nat list \<Rightarrow> string" where
  "bytes_of ns = map char_of ns"

text \<open>The UTF-8 encoding of a code point.\<close>

definition utf8_encode :: "nat \<Rightarrow> string" where
  "utf8_encode u =
     bytes_of
      (if u < 128 then [u]
       else if u < 2048 then [192 + u div 64, 128 + u mod 64]
       else if u < 65536 then [224 + u div 4096, 128 + u div 64 mod 64, 128 + u mod 64]
       else [240 + u div 262144, 128 + u div 4096 mod 64, 128 + u div 64 mod 64, 128 + u mod 64])"

definition replacement_char :: string where
  "replacement_char = bytes_of [239, 191, 189]"

definition cont_byte :: "char \<Rightarrow> bool" where
  "cont_byte c \<longleftrightarrow> 128 \<le> byte c \<and> byte c \<le> 191"

text \<open>The length of the well-formed multi-byte sequence at the front, 0 when there is none.\<close>

fun utf8_length :: "string \<Rightarrow> nat" where
  "utf8_length (a # b # c # d # r) =
     (if 194 \<le> byte a \<and> byte a \<le> 223 \<and> cont_byte b then 2
      else if (byte a = 224 \<and> 160 \<le> byte b \<and> byte b \<le> 191 \<or>
               (225 \<le> byte a \<and> byte a \<le> 236 \<or> byte a = 238 \<or> byte a = 239) \<and> cont_byte b \<or>
               byte a = 237 \<and> 128 \<le> byte b \<and> byte b \<le> 159) \<and> cont_byte c then 3
      else if (byte a = 240 \<and> 144 \<le> byte b \<and> byte b \<le> 191 \<or>
               241 \<le> byte a \<and> byte a \<le> 243 \<and> cont_byte b \<or>
               byte a = 244 \<and> 128 \<le> byte b \<and> byte b \<le> 143) \<and> cont_byte c \<and> cont_byte d then 4
      else 0)"
| "utf8_length [a, b, c] =
     (if 194 \<le> byte a \<and> byte a \<le> 223 \<and> cont_byte b then 2
      else if (byte a = 224 \<and> 160 \<le> byte b \<and> byte b \<le> 191 \<or>
               (225 \<le> byte a \<and> byte a \<le> 236 \<or> byte a = 238 \<or> byte a = 239) \<and> cont_byte b \<or>
               byte a = 237 \<and> 128 \<le> byte b \<and> byte b \<le> 159) \<and> cont_byte c then 3
      else 0)"
| "utf8_length [a, b] = (if 194 \<le> byte a \<and> byte a \<le> 223 \<and> cont_byte b then 2 else 0)"
| "utf8_length s = 0"

definition hex_val :: "char \<Rightarrow> nat option" where
  "hex_val c =
     (if is_digit c then Some (digit_val c)
      else if 97 \<le> byte c \<and> byte c \<le> 102 then Some (byte c - 87)
      else if 65 \<le> byte c \<and> byte c \<le> 70 then Some (byte c - 55)
      else None)"

definition hex4 :: "string \<Rightarrow> (nat \<times> string) option" where
  "hex4 s =
     (case s of
        a # b # c # d # r \<Rightarrow>
          (case (hex_val a, hex_val b, hex_val c, hex_val d) of
             (Some x, Some y, Some z, Some w) \<Rightarrow> Some (((x * 16 + y) * 16 + z) * 16 + w, r)
           | _ \<Rightarrow> None)
      | _ \<Rightarrow> None)"

definition simple_escape :: "char \<Rightarrow> string option" where
  "simple_escape e =
     (if e = CHR 0x22 \<or> e = CHR 0x5C \<or> e = CHR ''/'' then Some [e]
      else if e = CHR ''b'' then Some [CHR 0x08]
      else if e = CHR ''f'' then Some [CHR 0x0C]
      else if e = CHR ''n'' then Some [CHR 0x0A]
      else if e = CHR ''r'' then Some [CHR 0x0D]
      else if e = CHR ''t'' then Some [CHR 0x09]
      else None)"

text \<open>\<open>\u\<close> escapes: a surrogate pair is one code point, a lone surrogate is U+FFFD.\<close>

definition unicode_escape :: "string \<Rightarrow> (string \<times> string) option" where
  "unicode_escape r =
     (case hex4 r of
        None \<Rightarrow> None
      | Some (u, rest) \<Rightarrow>
          if 55296 \<le> u \<and> u < 57344
          then (case rest of
                  b # e # r' \<Rightarrow>
                    if b = CHR 0x5C \<and> e = CHR ''u''
                    then (case hex4 r' of
                            None \<Rightarrow> None
                          | Some (v, rest') \<Rightarrow>
                              if u < 56320 \<and> 56320 \<le> v \<and> v < 57344
                              then Some (utf8_encode (65536 + (u - 55296) * 1024 + (v - 56320)), rest')
                              else Some (replacement_char, rest))
                    else Some (replacement_char, rest)
                | _ \<Rightarrow> Some (replacement_char, rest))
          else Some (utf8_encode u, rest))"

text \<open>One element of a string body: its decoded bytes and the rest.\<close>

definition string_element :: "char \<Rightarrow> string \<Rightarrow> (string \<times> string) option" where
  "string_element c r =
     (if c = CHR 0x5C then
        (case r of
           [] \<Rightarrow> None
         | e # r' \<Rightarrow> if e = CHR ''u'' then unicode_escape r'
                      else map_option (\<lambda>x. (x, r')) (simple_escape e))
      else if byte c < 32 then None
      else if byte c < 128 then Some ([c], r)
      else (let n = utf8_length (c # r) in
            if n = 0 then Some (replacement_char, r) else Some (take n (c # r), drop (n - 1) r)))"

lemma hex4_shorter: "hex4 s = Some (u, r) \<Longrightarrow> length r < length s"
  by (auto simp: hex4_def split: list.splits option.splits)

lemma unicode_escape_shorter: "unicode_escape s = Some (x, r) \<Longrightarrow> length r < length s"
  by (auto simp: unicode_escape_def split: option.splits list.splits if_splits dest!: hex4_shorter)

lemma string_element_shorter: "string_element c s = Some (x, r) \<Longrightarrow> length r \<le> length s"
  by (auto simp: string_element_def Let_def split: list.splits if_splits option.splits
      dest!: unicode_escape_shorter)

text \<open>The body of a string up to its closing quote.\<close>

function scan_string :: "string \<Rightarrow> (string \<times> string) option" where
  "scan_string [] = None"
| "scan_string (c # r) =
     (if c = CHR 0x22 then Some ([], r)
      else (case string_element c r of
              None \<Rightarrow> None
            | Some (x, rest) \<Rightarrow> map_option (\<lambda>(t, r'). (x @ t, r')) (scan_string rest)))"
  by pat_completeness auto
termination
  by (relation "measure length") (auto dest: string_element_shorter)

lemma scan_string_shorter: "scan_string s = Some (x, r) \<Longrightarrow> length r < length s"
proof (induction s arbitrary: x r rule: scan_string.induct)
  case (2 c s)
  show ?case
  proof (cases "c = CHR 0x22")
    case False
    with 2(2) obtain y rest t where "string_element c s = Some (y, rest)" "scan_string rest = Some (t, r)"
      by (auto split: option.splits)
    with 2(1) [OF False this(1) refl this(2)] string_element_shorter show ?thesis by fastforce
  qed (use 2(2) in auto)
qed simp

subsection \<open>Numbers\<close>

text \<open>The literal at the front and the rest; \<open>None\<close> when no number starts here or it is cut short.\<close>

definition scan_digits1 :: "string \<Rightarrow> (string \<times> string) option" where
  "scan_digits1 s =
     (let ds = takeWhile is_digit s in if ds = [] then None else Some (ds, dropWhile is_digit s))"

definition scan_int :: "string \<Rightarrow> (string \<times> string) option" where
  "scan_int s =
     (case s of
        c # r \<Rightarrow> if c = CHR ''0'' then Some ([c], r) else scan_digits1 s
      | [] \<Rightarrow> None)"

definition scan_frac :: "string \<Rightarrow> (string \<times> string) option" where
  "scan_frac s =
     (case s of
        c # r \<Rightarrow> if c = CHR ''.'' then map_option (\<lambda>(d, r'). (c # d, r')) (scan_digits1 r)
                 else Some ([], s)
      | [] \<Rightarrow> Some ([], s))"

definition scan_exp :: "string \<Rightarrow> (string \<times> string) option" where
  "scan_exp s =
     (case s of
        c # r \<Rightarrow>
          if c \<in> set ''eE''
          then (case r of
                  g # r' \<Rightarrow> if g \<in> set ''+-''
                            then map_option (\<lambda>(d, q). (c # g # d, q)) (scan_digits1 r')
                            else map_option (\<lambda>(d, q). (c # d, q)) (scan_digits1 r)
                | [] \<Rightarrow> None)
          else Some ([], s)
      | [] \<Rightarrow> Some ([], s))"

definition scan_number :: "string \<Rightarrow> (string \<times> string) option" where
  "scan_number s =
     (case (if s \<noteq> [] \<and> hd s = CHR ''-'' then (''-'', tl s) else ([], s)) of (sg, s) \<Rightarrow>
      Option.bind (scan_int s) (\<lambda>(i, s).
      Option.bind (scan_frac s) (\<lambda>(f, s).
      Option.bind (scan_exp s) (\<lambda>(e, s). Some (sg @ i @ f @ e, s)))))"

lemma scan_digits1_split: "scan_digits1 s = Some (d, r) \<Longrightarrow> s = d @ r \<and> d \<noteq> []"
  by (auto simp: scan_digits1_def Let_def split: if_splits)

lemma scan_int_split: "scan_int s = Some (d, r) \<Longrightarrow> s = d @ r \<and> d \<noteq> []"
  by (auto simp: scan_int_def split: list.splits if_splits dest!: scan_digits1_split)

lemma scan_frac_split: "scan_frac s = Some (d, r) \<Longrightarrow> s = d @ r"
  by (auto simp: scan_frac_def split: list.splits if_splits dest!: scan_digits1_split)

lemma scan_exp_split: "scan_exp s = Some (d, r) \<Longrightarrow> s = d @ r"
  by (auto simp: scan_exp_def split: list.splits if_splits dest!: scan_digits1_split)

lemma scan_number_split:
  assumes "scan_number s = Some (n, r)"
  shows "s = n @ r \<and> n \<noteq> []"
proof -
  obtain sg s0 where s0: "(if s \<noteq> [] \<and> hd s = CHR ''-'' then (''-'', tl s) else ([], s)) = (sg, s0)"
    by fastforce
  with assms obtain i s1 f s2 e where p: "scan_int s0 = Some (i, s1)" "scan_frac s1 = Some (f, s2)"
    "scan_exp s2 = Some (e, r)" "n = sg @ i @ f @ e"
    by (auto simp: scan_number_def bind_eq_Some_conv)
  have "s = sg @ s0" using s0 by (cases s) (auto split: if_splits)
  with p scan_int_split [OF p(1)] scan_frac_split [OF p(2)] scan_exp_split [OF p(3)] show ?thesis by simp
qed

subsection \<open>Tokens\<close>

datatype tok = TOpenObj | TCloseObj | TOpenArr | TCloseArr | TComma | TColon | TLit json

definition json_space :: "char \<Rightarrow> bool" where
  "json_space c \<longleftrightarrow> c = CHR '' '' \<or> c = CHR 0x09 \<or> c = CHR 0x0A \<or> c = CHR 0x0D"

definition starts_with :: "string \<Rightarrow> string \<Rightarrow> bool" where
  "starts_with w s = prefix w s"

definition next_token :: "char \<Rightarrow> string \<Rightarrow> (tok \<times> string) option" where
  "next_token c r =
     (if c = CHR ''{'' then Some (TOpenObj, r)
      else if c = CHR ''}'' then Some (TCloseObj, r)
      else if c = CHR ''['' then Some (TOpenArr, r)
      else if c = CHR '']'' then Some (TCloseArr, r)
      else if c = CHR '','' then Some (TComma, r)
      else if c = CHR '':'' then Some (TColon, r)
      else if c = CHR 0x22 then map_option (\<lambda>(x, r'). (TLit (JStr x), r')) (scan_string r)
      else if starts_with ''null'' (c # r) then Some (TLit JNull, drop 3 r)
      else if starts_with ''true'' (c # r) then Some (TLit (JBool True), drop 3 r)
      else if starts_with ''false'' (c # r) then Some (TLit (JBool False), drop 4 r)
      else map_option (\<lambda>(n, r'). (TLit (JNum n), r')) (scan_number (c # r)))"

lemma next_token_shorter:
  assumes "next_token c r = Some (t, r')"
  shows "length r' \<le> length r"
proof -
  have num: "length q \<le> length r" if "scan_number (c # r) = Some (n, q)" for n q
    using scan_number_split [OF that] by (cases n) auto
  have "length q \<le> length r" if "scan_string r = Some (x, q)" for x q
    using scan_string_shorter [OF that] by simp
  with num show ?thesis
    using assms unfolding next_token_def by (simp split: if_split_asm) auto
qed

function lex :: "string \<Rightarrow> tok list option" where
  "lex [] = Some []"
| "lex (c # r) =
     (if json_space c then lex r
      else (case next_token c r of
              None \<Rightarrow> None
            | Some (t, r') \<Rightarrow> map_option ((#) t) (lex r')))"
  by pat_completeness auto
termination
  by (relation "measure length") (auto dest: next_token_shorter)

subsection \<open>The automaton\<close>

datatype frame = FArr "json list" | FObj "(string \<times> json) list" string

datatype pstate =
    WantValue
  | WantValueOrClose
  | WantKey
  | WantKeyOrClose
  | WantColon string
  | AfterValue json

definition maxNestingDepth :: nat where
  "maxNestingDepth = 10000"

definition begin_value :: "frame list \<Rightarrow> tok \<Rightarrow> (frame list \<times> pstate) option" where
  "begin_value fs t =
     (case t of
        TLit v \<Rightarrow> Some (fs, AfterValue v)
      | TOpenArr \<Rightarrow> if length fs \<ge> maxNestingDepth then None else Some (FArr [] # fs, WantValueOrClose)
      | TOpenObj \<Rightarrow> if length fs \<ge> maxNestingDepth then None else Some (FObj [] [] # fs, WantKeyOrClose)
      | _ \<Rightarrow> None)"

definition close_frame :: "frame list \<Rightarrow> tok \<Rightarrow> (frame list \<times> pstate) option" where
  "close_frame fs t =
     (case (fs, t) of
        (FArr vs # r, TCloseArr) \<Rightarrow> Some (r, AfterValue (JArr (rev vs)))
      | (FObj ms k # r, TCloseObj) \<Rightarrow> Some (r, AfterValue (JObj (rev ms)))
      | _ \<Rightarrow> None)"

fun parse_step :: "frame list \<times> pstate \<Rightarrow> tok \<Rightarrow> (frame list \<times> pstate) option" where
  "parse_step (fs, WantValue) t = begin_value fs t"
| "parse_step (fs, WantValueOrClose) t = (if t = TCloseArr then close_frame fs t else begin_value fs t)"
| "parse_step (fs, WantKey) t = (case t of TLit (JStr k) \<Rightarrow> Some (fs, WantColon k) | _ \<Rightarrow> None)"
| "parse_step (fs, WantKeyOrClose) t =
     (if t = TCloseObj then close_frame fs t
      else (case t of TLit (JStr k) \<Rightarrow> Some (fs, WantColon k) | _ \<Rightarrow> None))"
| "parse_step (fs, WantColon k) t =
     (case (fs, t) of
        (FObj ms k' # r, TColon) \<Rightarrow> Some (FObj ms k # r, WantValue)
      | _ \<Rightarrow> None)"
| "parse_step (FArr vs # r, AfterValue v) t =
     (if t = TComma then Some (FArr (v # vs) # r, WantValue) else close_frame (FArr (v # vs) # r) t)"
| "parse_step (FObj ms k # r, AfterValue v) t =
     (if t = TComma then Some (FObj ((k, v) # ms) [] # r, WantKey)
      else close_frame (FObj ((k, v) # ms) k # r) t)"
| "parse_step ([], AfterValue v) t = None"

fun parse_tokens :: "frame list \<times> pstate \<Rightarrow> tok list \<Rightarrow> json option" where
  "parse_tokens ([], AfterValue v) [] = Some v"
| "parse_tokens s [] = None"
| "parse_tokens s (t # ts) = (case parse_step s t of None \<Rightarrow> None | Some s' \<Rightarrow> parse_tokens s' ts)"

definition parse_json :: "bytes \<Rightarrow> json option" where
  "parse_json data = (case lex data of None \<Rightarrow> None | Some ts \<Rightarrow> parse_tokens ([], WantValue) ts)"

end
