(* ===== verification/Message_Decode.thy ===== *)
theory Message_Decode
  imports Domain_Model Decimal Go_Time Json
begin

section \<open>Message decoding: decode.go, kline_decode.go, orderbook_decode.go, orderbook_snapshot_decode.go\<close>

text \<open>
  A Kafka payload becomes a fact row in three steps, as in the source: the JSON value is decoded into
  a message record, field by field and rejecting unknown fields; the message is validated; and it is
  mapped to a row with the Kafka coordinates. Fields are stored as \<open>encoding/json\<close> stores them: in the
  order of the object's members, a later member over an earlier one, \<open>null\<close> by the rules of the
  field's type, names compared without case. Any field error makes the whole decode fail.

  The lemmas show what a row that was accepted satisfies: positive prices and quantities, a known
  side, candles whose prices lie between low and high, levels the order book can compare, and the
  coordinates of the message.
\<close>

subsection \<open>Names and field types\<close>

text \<open>
  The name folding of \<open>encoding/json\<close>: ASCII letters to upper case; U+017F and U+212A fold to S and K.
\<close>

definition upper_char :: "char \<Rightarrow> char" where
  "upper_char c = (if 97 \<le> byte c \<and> byte c \<le> 122 then char_of (byte c - 32) else c)"

fun foldName :: "string \<Rightarrow> string" where
  "foldName (a # b # c # s) =
     (if byte a = 226 \<and> byte b = 132 \<and> byte c = 170 then CHR ''K'' # foldName s
      else if byte a = 197 \<and> byte b = 191 then CHR ''S'' # foldName (c # s)
      else upper_char a # foldName (b # c # s))"
| "foldName [a, b] =
     (if byte a = 197 \<and> byte b = 191 then ''S'' else [upper_char a, upper_char b])"
| "foldName [a] = [upper_char a]"
| "foldName [] = []"

definition field_is :: "string \<Rightarrow> string \<Rightarrow> bool" where
  "field_is key name \<longleftrightarrow> foldName key = foldName name"

record flexTime =
  ft_t :: time
  ft_set :: bool

definition zero_flexTime :: flexTime where
  "zero_flexTime = \<lparr> ft_t = zero_time, ft_set = False \<rparr>"

text \<open>
  \<open>strconv.ParseFloat(s, 64)\<close> of a JSON number, truncated by \<open>int64(...)\<close>: the literal is rounded to
  53 bits, a value of \<open>2^1024\<close> or more is a range error, and a value outside \<open>int64\<close> converts to the
  smallest one (as on amd64).
\<close>

definition trunc_float :: "bigfloat \<Rightarrow> int option" where
  "trunc_float f =
     (case f of
        Fin m e \<Rightarrow>
          (let v = (if 0 \<le> e then m * 2 ^ nat e else sgn m * (\<bar>m\<bar> div 2 ^ nat (- e)))
           in if \<bar>v\<bar> \<ge> 2 ^ 1024 then None else Some (if in_int64 v then v else min_int64))
      | Inf neg \<Rightarrow> None)"

definition ParseFloat64_int :: "string \<Rightarrow> int64 option" where
  "ParseFloat64_int s =
     (case split_sign s of (neg, r) \<Rightarrow>
      case scan_mantissa r of (ds, fcount, rest) \<Rightarrow>
      if ds = [] then None
      else
      (case (case rest of
               [] \<Rightarrow> Some 0
             | c # r' \<Rightarrow>
                 if c \<in> set ''eE''
                 then (case split_sign r' of (eneg, d) \<Rightarrow>
                         if d \<noteq> [] \<and> list_all is_digit d
                         then Some (if eneg then - int (digits_val d) else int (digits_val d)) else None)
                 else None) of
         None \<Rightarrow> None
       | Some ex \<Rightarrow>
          (let mant = digits_val ds; e10 = ex - int fcount;
               x = (if neg then - int mant else int mant)
           in trunc_float
                (if mant = 0 then Fin 0 0
                 else if 0 \<le> e10 then set_exp_round 53 neg (mant * 10 ^ nat e10) 0
                 else bf_quo 53 (Fin x 0) (Fin (10 ^ nat (- e10)) 0)))))"

text \<open>The \<open>UnmarshalJSON\<close> methods and the built-in targets; \<open>None\<close> is an error.\<close>

definition flexString_json :: "json \<Rightarrow> string option" where
  "flexString_json v =
     (case v of JNull \<Rightarrow> Some [] | JStr s \<Rightarrow> Some s | JNum n \<Rightarrow> Some n | _ \<Rightarrow> None)"

definition flexInt64_json :: "int64 \<Rightarrow> json \<Rightarrow> int64 option" where
  "flexInt64_json old v =
     (case v of
        JNull \<Rightarrow> Some old
      | JStr s \<Rightarrow> ParseInt 64 (TrimSpace s)
      | JNum n \<Rightarrow> ParseInt 64 n
      | _ \<Rightarrow> None)"

definition flexTime_json :: "flexTime \<Rightarrow> json \<Rightarrow> flexTime option" where
  "flexTime_json old v =
     (let at_ms = (\<lambda>ms. \<lparr> ft_t = UnixMilli ms, ft_set = True \<rparr>) in
      case v of
        JNull \<Rightarrow> Some old
      | JStr s \<Rightarrow>
          if TrimSpace s = [] then Some old
          else (case parse_time s of
                  Some t \<Rightarrow> Some \<lparr> ft_t = t, ft_set = True \<rparr>
                | None \<Rightarrow> map_option at_ms (ParseInt 64 s))
      | JNum n \<Rightarrow>
          (case ParseInt 64 n of
             Some ms \<Rightarrow> Some (at_ms ms)
           | None \<Rightarrow> map_option at_ms (ParseFloat64_int n))
      | _ \<Rightarrow> None)"

text \<open>A pointer field: \<open>null\<close> resets it, any other value goes to the allocated target.\<close>

definition pointer_json :: "('a \<Rightarrow> json \<Rightarrow> 'a option) \<Rightarrow> 'a \<Rightarrow> 'a option \<Rightarrow> json \<Rightarrow> 'a option option" where
  "pointer_json f zero old v =
     (case v of
        JNull \<Rightarrow> Some None
      | _ \<Rightarrow> map_option Some (f (case old of None \<Rightarrow> zero | Some x \<Rightarrow> x) v))"

definition string_json :: "string \<Rightarrow> json \<Rightarrow> string option" where
  "string_json old v = (case v of JNull \<Rightarrow> Some old | JStr s \<Rightarrow> Some s | _ \<Rightarrow> None)"

definition bool_json :: "bool \<Rightarrow> json \<Rightarrow> bool option" where
  "bool_json old v = (case v of JNull \<Rightarrow> Some old | JBool b \<Rightarrow> Some b | _ \<Rightarrow> None)"

text \<open>A struct target: the members in order; \<open>null\<close> leaves it as it is.\<close>

fun decode_members :: "('m \<Rightarrow> string \<Rightarrow> json \<Rightarrow> 'm option) \<Rightarrow> 'm \<Rightarrow> (string \<times> json) list \<Rightarrow> 'm option" where
  "decode_members put m [] = Some m"
| "decode_members put m ((k, v) # ms) =
     (case put m k v of None \<Rightarrow> None | Some m' \<Rightarrow> decode_members put m' ms)"

definition decode_struct :: "('m \<Rightarrow> string \<Rightarrow> json \<Rightarrow> 'm option) \<Rightarrow> 'm \<Rightarrow> json \<Rightarrow> 'm option" where
  "decode_struct put zero v =
     (case v of JNull \<Rightarrow> Some zero | JObj ms \<Rightarrow> decode_members put zero ms | _ \<Rightarrow> None)"

datatype decode_error =
    MalformedPayload
  | MissingField string
  | InvalidField string
  | UnsupportedKind string
  | NilComparison

text \<open>The shared frame of the four decoders: one JSON value, then end of input.\<close>

definition decode_payload :: "('m \<Rightarrow> string \<Rightarrow> json \<Rightarrow> 'm option) \<Rightarrow> 'm \<Rightarrow> bytes \<Rightarrow> decode_error + 'm" where
  "decode_payload put zero data =
     (case Option.bind (parse_json data) (decode_struct put zero) of
        None \<Rightarrow> Inl MalformedPayload
      | Some m \<Rightarrow> Inr m)"

subsection \<open>Input ids\<close>

definition inputID :: "GroupInput \<Rightarrow> string" where
  "inputID input =
     (if gi_InputID input \<noteq> [] then gi_InputID input
      else NewInputID (gi_GroupID input) (gi_StreamKey input))"

definition consumerGroupID :: "GroupInput \<Rightarrow> string" where
  "consumerGroupID input =
     (if gi_KafkaGroupID input \<noteq> [] then gi_KafkaGroupID input
      else DefaultKafkaGroupID (gi_GroupID input) (gi_StreamKey input))"

definition schemaVersionOr1 :: "goint \<Rightarrow> goint" where
  "schemaVersionOr1 v = (if v \<le> 0 then 1 else v)"

subsection \<open>Trades\<close>

record tradeMessage =
  tm_EventTime :: flexTime
  tm_ExchangeTime :: "flexTime option"
  tm_LocalReceiveTime :: "flexTime option"
  tm_TradeID :: string
  tm_RawTradeID :: string
  tm_Price :: string
  tm_Quantity :: string
  tm_Side :: string
  tm_IsAggregated :: bool

definition zero_tradeMessage :: tradeMessage where
  "zero_tradeMessage =
     \<lparr> tm_EventTime = zero_flexTime, tm_ExchangeTime = None, tm_LocalReceiveTime = None,
       tm_TradeID = [], tm_RawTradeID = [], tm_Price = [], tm_Quantity = [], tm_Side = [],
       tm_IsAggregated = False \<rparr>"

definition put_trade :: "tradeMessage \<Rightarrow> string \<Rightarrow> json \<Rightarrow> tradeMessage option" where
  "put_trade m key v =
     (if field_is key ''event_time''
      then map_option (\<lambda>x. m\<lparr>tm_EventTime := x\<rparr>) (flexTime_json (tm_EventTime m) v)
      else if field_is key ''exchange_time''
      then map_option (\<lambda>x. m\<lparr>tm_ExchangeTime := x\<rparr>)
             (pointer_json flexTime_json zero_flexTime (tm_ExchangeTime m) v)
      else if field_is key ''local_receive_time''
      then map_option (\<lambda>x. m\<lparr>tm_LocalReceiveTime := x\<rparr>)
             (pointer_json flexTime_json zero_flexTime (tm_LocalReceiveTime m) v)
      else if field_is key ''trade_id'' then map_option (\<lambda>x. m\<lparr>tm_TradeID := x\<rparr>) (flexString_json v)
      else if field_is key ''raw_trade_id''
      then map_option (\<lambda>x. m\<lparr>tm_RawTradeID := x\<rparr>) (flexString_json v)
      else if field_is key ''price'' then map_option (\<lambda>x. m\<lparr>tm_Price := x\<rparr>) (flexString_json v)
      else if field_is key ''quantity'' then map_option (\<lambda>x. m\<lparr>tm_Quantity := x\<rparr>) (flexString_json v)
      else if field_is key ''side'' then map_option (\<lambda>x. m\<lparr>tm_Side := x\<rparr>) (string_json (tm_Side m) v)
      else if field_is key ''is_aggregated''
      then map_option (\<lambda>x. m\<lparr>tm_IsAggregated := x\<rparr>) (bool_json (tm_IsAggregated m) v)
      else None)"

definition decodeTrade :: "bytes \<Rightarrow> decode_error + tradeMessage" where
  "decodeTrade data = decode_payload put_trade zero_tradeMessage data"

definition normalizeSide :: "string \<Rightarrow> decode_error + string" where
  "normalizeSide s =
     (let t = ToLower (TrimSpace s) in
      if t = ''buy'' \<or> t = ''b'' \<or> t = ''bid'' then Inr TradeSideBuy
      else if t = ''sell'' \<or> t = ''s'' \<or> t = ''ask'' then Inr TradeSideSell
      else Inl (InvalidField ''side''))"

definition validate_trade :: "tradeMessage \<Rightarrow> decode_error + string" where
  "validate_trade tm =
     (if \<not> ft_set (tm_EventTime tm) then Inl (MissingField ''event_time'')
      else if TrimSpace (tm_Price tm) = [] then Inl (MissingField ''price'')
      else if \<not> validPositiveNumeric (tm_Price tm) then Inl (InvalidField ''price'')
      else if TrimSpace (tm_Quantity tm) = [] then Inl (MissingField ''quantity'')
      else if \<not> validPositiveNumeric (tm_Quantity tm) then Inl (InvalidField ''quantity'')
      else normalizeSide (tm_Side tm))"

text \<open>An optional timestamp is kept only when it is present and was set.\<close>

definition optional_time :: "flexTime option \<Rightarrow> time option" where
  "optional_time p = (case p of None \<Rightarrow> None | Some f \<Rightarrow> if ft_set f then Some (ft_t f) else None)"

definition toTrade :: "tradeMessage \<Rightarrow> GroupInput \<Rightarrow> KafkaMessage \<Rightarrow> string \<Rightarrow> Trade" where
  "toTrade tm input msg side =
     \<lparr> tr_ID = 0, tr_GroupID = gi_GroupID input, tr_InputID = inputID input,
       tr_EventTime = ft_t (tm_EventTime tm), tr_ExchangeTime = optional_time (tm_ExchangeTime tm),
       tr_LocalReceiveTime = optional_time (tm_LocalReceiveTime tm),
       tr_TradeID = TrimSpace (tm_TradeID tm), tr_RawTradeID = TrimSpace (tm_RawTradeID tm),
       tr_Price = TrimSpace (tm_Price tm), tr_Quantity = TrimSpace (tm_Quantity tm), tr_Side = side,
       tr_IsAggregated = tm_IsAggregated tm, tr_KafkaTopic = km_Topic msg,
       tr_KafkaPartition = km_Partition msg, tr_KafkaOffset = km_Offset msg,
       tr_SchemaVersion = schemaVersionOr1 (gi_SchemaVersion input), tr_IngestedAt = zero_time \<rparr>"

definition buildTrade :: "GroupInput \<Rightarrow> KafkaMessage \<Rightarrow> decode_error + Trade" where
  "buildTrade input msg =
     bind_r (decodeTrade (km_Value msg)) (\<lambda>tm.
     bind_r (validate_trade tm) (\<lambda>side. Inr (toTrade tm input msg side)))"

subsection \<open>Klines\<close>

record klineMessage =
  kg_Source :: string
  kg_Interval :: string
  kg_OpenTime :: flexTime
  kg_CloseTime :: flexTime
  kg_Open :: string
  kg_High :: string
  kg_Low :: string
  kg_Close :: string
  kg_Volume :: string
  kg_QuoteVolume :: string
  kg_TradeCount :: int64
  kg_IsClosed :: bool
  kg_Revision :: int64

definition zero_klineMessage :: klineMessage where
  "zero_klineMessage =
     \<lparr> kg_Source = [], kg_Interval = [], kg_OpenTime = zero_flexTime, kg_CloseTime = zero_flexTime,
       kg_Open = [], kg_High = [], kg_Low = [], kg_Close = [], kg_Volume = [], kg_QuoteVolume = [],
       kg_TradeCount = 0, kg_IsClosed = False, kg_Revision = 0 \<rparr>"

definition put_kline :: "klineMessage \<Rightarrow> string \<Rightarrow> json \<Rightarrow> klineMessage option" where
  "put_kline m key v =
     (if field_is key ''source'' then map_option (\<lambda>x. m\<lparr>kg_Source := x\<rparr>) (string_json (kg_Source m) v)
      else if field_is key ''interval''
      then map_option (\<lambda>x. m\<lparr>kg_Interval := x\<rparr>) (string_json (kg_Interval m) v)
      else if field_is key ''open_time''
      then map_option (\<lambda>x. m\<lparr>kg_OpenTime := x\<rparr>) (flexTime_json (kg_OpenTime m) v)
      else if field_is key ''close_time''
      then map_option (\<lambda>x. m\<lparr>kg_CloseTime := x\<rparr>) (flexTime_json (kg_CloseTime m) v)
      else if field_is key ''open'' then map_option (\<lambda>x. m\<lparr>kg_Open := x\<rparr>) (flexString_json v)
      else if field_is key ''high'' then map_option (\<lambda>x. m\<lparr>kg_High := x\<rparr>) (flexString_json v)
      else if field_is key ''low'' then map_option (\<lambda>x. m\<lparr>kg_Low := x\<rparr>) (flexString_json v)
      else if field_is key ''close'' then map_option (\<lambda>x. m\<lparr>kg_Close := x\<rparr>) (flexString_json v)
      else if field_is key ''volume'' then map_option (\<lambda>x. m\<lparr>kg_Volume := x\<rparr>) (flexString_json v)
      else if field_is key ''quote_volume''
      then map_option (\<lambda>x. m\<lparr>kg_QuoteVolume := x\<rparr>) (flexString_json v)
      else if field_is key ''trade_count''
      then map_option (\<lambda>x. m\<lparr>kg_TradeCount := x\<rparr>) (flexInt64_json (kg_TradeCount m) v)
      else if field_is key ''is_closed''
      then map_option (\<lambda>x. m\<lparr>kg_IsClosed := x\<rparr>) (bool_json (kg_IsClosed m) v)
      else if field_is key ''revision''
      then map_option (\<lambda>x. m\<lparr>kg_Revision := x\<rparr>) (flexInt64_json (kg_Revision m) v)
      else None)"

definition decodeKline :: "bytes \<Rightarrow> decode_error + klineMessage" where
  "decodeKline data = decode_payload put_kline zero_klineMessage data"

text \<open>A comparison that the code makes; \<open>None\<close> (a nil pointer) is a panic there.\<close>

definition compare_or_panic ::
  "string \<Rightarrow> string \<Rightarrow> (int \<Rightarrow> bool) \<Rightarrow> decode_error \<Rightarrow> decode_error + 'a \<Rightarrow> decode_error + 'a" where
  "compare_or_panic a b bad e k =
     (case compareNumeric a b of None \<Rightarrow> Inl NilComparison | Some c \<Rightarrow> if bad c then Inl e else k)"

definition within_range :: "klineMessage \<Rightarrow> string \<Rightarrow> string \<Rightarrow> decode_error + 'a \<Rightarrow> decode_error + 'a" where
  "within_range m name value k =
     compare_or_panic value (kg_Low m) (\<lambda>c. c < 0) (InvalidField name)
       (compare_or_panic value (kg_High m) (\<lambda>c. c > 0) (InvalidField name) k)"

definition kline_source :: "klineMessage \<Rightarrow> string" where
  "kline_source m =
     (let source = ToLower (TrimSpace (kg_Source m)) in if source = [] then KlineSourceExchange else source)"

text \<open>\<open>guard_r bad e k\<close> is the early return \<open>if bad then error e\<close> before \<open>k\<close>.\<close>

definition validate_kline :: "klineMessage \<Rightarrow> GroupInput \<Rightarrow> decode_error + string" where
  "validate_kline m input =
     (case StreamKeyFor StreamKindKline (gi_Interval input) of
        Inl e \<Rightarrow> Inl (InvalidField ''input interval'')
      | Inr expectedKey \<Rightarrow>
        guard_r (gi_StreamKind input \<noteq> StreamKindKline \<or> gi_StreamKey input \<noteq> expectedKey)
          (InvalidField ''stream_key'') (
        guard_r (TrimSpace (kg_Interval m) \<noteq> gi_Interval input) (InvalidField ''interval'') (
        guard_r (kline_source m \<noteq> KlineSourceExchange) (InvalidField ''source'') (
        guard_r (\<not> ft_set (kg_OpenTime m)) (MissingField ''open_time'') (
        guard_r (\<not> ft_set (kg_CloseTime m)) (MissingField ''close_time'') (
        guard_r (\<not> ft_t (kg_CloseTime m) > ft_t (kg_OpenTime m)) (InvalidField ''close_time'') (
        guard_r (\<not> validPositiveNumeric (kg_Open m)) (InvalidField ''open'') (
        guard_r (\<not> validPositiveNumeric (kg_High m)) (InvalidField ''high'') (
        guard_r (\<not> validPositiveNumeric (kg_Low m)) (InvalidField ''low'') (
        guard_r (\<not> validPositiveNumeric (kg_Close m)) (InvalidField ''close'') (
        guard_r (\<not> validNonNegativeNumeric (kg_Volume m)) (InvalidField ''volume'') (
        guard_r (TrimSpace (kg_QuoteVolume m) \<noteq> [] \<and> \<not> validNonNegativeNumeric (kg_QuoteVolume m))
          (InvalidField ''quote_volume'') (
        guard_r (kg_TradeCount m < 0) (InvalidField ''trade_count'') (
        guard_r (kg_Revision m < 0) (InvalidField ''revision'') (
        compare_or_panic (kg_High m) (kg_Low m) (\<lambda>c. c < 0) (InvalidField ''high'') (
        within_range m ''open'' (kg_Open m) (
        within_range m ''close'' (kg_Close m) (
        Inr (kline_source m)))))))))))))))))))"

definition toKline :: "klineMessage \<Rightarrow> GroupInput \<Rightarrow> KafkaMessage \<Rightarrow> string \<Rightarrow> Kline" where
  "toKline m input msg source =
     \<lparr> kl_GroupID = gi_GroupID input, kl_InputID = inputID input, kl_Source = source,
       kl_Interval = gi_Interval input, kl_OpenTime = ft_t (kg_OpenTime m),
       kl_CloseTime = ft_t (kg_CloseTime m), kl_Open = TrimSpace (kg_Open m),
       kl_High = TrimSpace (kg_High m), kl_Low = TrimSpace (kg_Low m), kl_Close = TrimSpace (kg_Close m),
       kl_Volume = TrimSpace (kg_Volume m), kl_QuoteVolume = TrimSpace (kg_QuoteVolume m),
       kl_TradeCount = kg_TradeCount m, kl_IsClosed = kg_IsClosed m, kl_Revision = kg_Revision m,
       kl_KafkaTopic = km_Topic msg, kl_KafkaPartition = km_Partition msg, kl_KafkaOffset = km_Offset msg,
       kl_UpdatedAt = zero_time \<rparr>"

definition buildKline :: "GroupInput \<Rightarrow> KafkaMessage \<Rightarrow> decode_error + Kline" where
  "buildKline input msg =
     bind_r (decodeKline (km_Value msg)) (\<lambda>m.
     bind_r (validate_kline m input) (\<lambda>source. Inr (toKline m input msg source)))"

subsection \<open>Order-book messages\<close>

record raw_level =
  lv_Price :: string
  lv_Quantity :: string

definition put_level :: "raw_level \<Rightarrow> string \<Rightarrow> json \<Rightarrow> raw_level option" where
  "put_level m key v =
     (if field_is key ''price'' then map_option (\<lambda>x. m\<lparr>lv_Price := x\<rparr>) (flexString_json v)
      else if field_is key ''quantity'' then map_option (\<lambda>x. m\<lparr>lv_Quantity := x\<rparr>) (flexString_json v)
      else None)"

definition decodePriceLevel :: "json \<Rightarrow> PriceLevel option" where
  "decodePriceLevel v =
     (case v of
        JArr vs \<Rightarrow>
          (case those (map flexString_json vs) of
             Some [p, q] \<Rightarrow> Some \<lparr> pl_Price = TrimSpace p, pl_Quantity = TrimSpace q \<rparr>
           | _ \<Rightarrow> None)
      | _ \<Rightarrow>
          map_option (\<lambda>m. \<lparr> pl_Price = TrimSpace (lv_Price m), pl_Quantity = TrimSpace (lv_Quantity m) \<rparr>)
            (decode_struct put_level \<lparr> lv_Price = [], lv_Quantity = [] \<rparr> v))"

definition priceLevels_json :: "json \<Rightarrow> PriceLevel list option" where
  "priceLevels_json v =
     (case v of
        JNull \<Rightarrow> Some []
      | JArr items \<Rightarrow> those (map decodePriceLevel items)
      | _ \<Rightarrow> None)"

text \<open>The loop of \<open>validatePriceLevels\<close> on one side.\<close>

fun validatePriceLevels :: "string \<Rightarrow> PriceLevel list \<Rightarrow> decode_error option" where
  "validatePriceLevels side [] = None"
| "validatePriceLevels side (l # ls) =
     (if \<not> validPositiveNumeric (pl_Price l) then Some (InvalidField (side @ '' price''))
      else if \<not> validNonNegativeNumeric (pl_Quantity l) then Some (InvalidField (side @ '' quantity''))
      else validatePriceLevels side ls)"

record orderBookDeltaMessage =
  dm_EventTime :: flexTime
  dm_ExchangeTime :: "flexTime option"
  dm_LocalReceiveTime :: "flexTime option"
  dm_RawEventID :: string
  dm_FirstUpdateID :: "int64 option"
  dm_LastUpdateID :: "int64 option"
  dm_PrevUpdateID :: "int64 option"
  dm_Sequence :: "int64 option"
  dm_Bids :: "PriceLevel list"
  dm_Asks :: "PriceLevel list"

definition zero_deltaMessage :: orderBookDeltaMessage where
  "zero_deltaMessage =
     \<lparr> dm_EventTime = zero_flexTime, dm_ExchangeTime = None, dm_LocalReceiveTime = None,
       dm_RawEventID = [], dm_FirstUpdateID = None, dm_LastUpdateID = None, dm_PrevUpdateID = None,
       dm_Sequence = None, dm_Bids = [], dm_Asks = [] \<rparr>"

definition put_delta :: "orderBookDeltaMessage \<Rightarrow> string \<Rightarrow> json \<Rightarrow> orderBookDeltaMessage option" where
  "put_delta m key v =
     (if field_is key ''event_time''
      then map_option (\<lambda>x. m\<lparr>dm_EventTime := x\<rparr>) (flexTime_json (dm_EventTime m) v)
      else if field_is key ''exchange_time''
      then map_option (\<lambda>x. m\<lparr>dm_ExchangeTime := x\<rparr>)
             (pointer_json flexTime_json zero_flexTime (dm_ExchangeTime m) v)
      else if field_is key ''local_receive_time''
      then map_option (\<lambda>x. m\<lparr>dm_LocalReceiveTime := x\<rparr>)
             (pointer_json flexTime_json zero_flexTime (dm_LocalReceiveTime m) v)
      else if field_is key ''raw_event_id''
      then map_option (\<lambda>x. m\<lparr>dm_RawEventID := x\<rparr>) (flexString_json v)
      else if field_is key ''first_update_id''
      then map_option (\<lambda>x. m\<lparr>dm_FirstUpdateID := x\<rparr>) (pointer_json flexInt64_json 0 (dm_FirstUpdateID m) v)
      else if field_is key ''last_update_id''
      then map_option (\<lambda>x. m\<lparr>dm_LastUpdateID := x\<rparr>) (pointer_json flexInt64_json 0 (dm_LastUpdateID m) v)
      else if field_is key ''prev_update_id''
      then map_option (\<lambda>x. m\<lparr>dm_PrevUpdateID := x\<rparr>) (pointer_json flexInt64_json 0 (dm_PrevUpdateID m) v)
      else if field_is key ''sequence''
      then map_option (\<lambda>x. m\<lparr>dm_Sequence := x\<rparr>) (pointer_json flexInt64_json 0 (dm_Sequence m) v)
      else if field_is key ''bids'' then map_option (\<lambda>x. m\<lparr>dm_Bids := x\<rparr>) (priceLevels_json v)
      else if field_is key ''asks'' then map_option (\<lambda>x. m\<lparr>dm_Asks := x\<rparr>) (priceLevels_json v)
      else None)"

definition decodeOrderBookDelta :: "bytes \<Rightarrow> decode_error + orderBookDeltaMessage" where
  "decodeOrderBookDelta data = decode_payload put_delta zero_deltaMessage data"

definition negative_id :: "int64 option \<Rightarrow> bool" where
  "negative_id p = (case p of None \<Rightarrow> False | Some v \<Rightarrow> v < 0)"

definition validate_delta :: "orderBookDeltaMessage \<Rightarrow> decode_error option" where
  "validate_delta dm =
     (if \<not> ft_set (dm_EventTime dm) then Some (MissingField ''event_time'')
      else if negative_id (dm_FirstUpdateID dm) then Some (InvalidField ''first_update_id'')
      else if negative_id (dm_LastUpdateID dm) then Some (InvalidField ''last_update_id'')
      else if negative_id (dm_PrevUpdateID dm) then Some (InvalidField ''prev_update_id'')
      else if negative_id (dm_Sequence dm) then Some (InvalidField ''sequence'')
      else if (case (dm_FirstUpdateID dm, dm_LastUpdateID dm) of
                 (Some f, Some l) \<Rightarrow> f > l | _ \<Rightarrow> False)
      then Some (InvalidField ''first_update_id'')
      else if dm_Bids dm = [] \<and> dm_Asks dm = [] then Some (MissingField ''bids and asks'')
      else (case validatePriceLevels ''bids'' (dm_Bids dm) of
              Some e \<Rightarrow> Some e
            | None \<Rightarrow> validatePriceLevels ''asks'' (dm_Asks dm)))"

definition toOrderBookDelta :: "orderBookDeltaMessage \<Rightarrow> GroupInput \<Rightarrow> KafkaMessage \<Rightarrow> OrderBookDelta" where
  "toOrderBookDelta dm input msg =
     \<lparr> ob_GroupID = gi_GroupID input, ob_InputID = inputID input, ob_EventTime = ft_t (dm_EventTime dm),
       ob_ExchangeTime = optional_time (dm_ExchangeTime dm),
       ob_LocalReceiveTime = optional_time (dm_LocalReceiveTime dm),
       ob_RawEventID = TrimSpace (dm_RawEventID dm), ob_FirstUpdateID = dm_FirstUpdateID dm,
       ob_LastUpdateID = dm_LastUpdateID dm, ob_PrevUpdateID = dm_PrevUpdateID dm,
       ob_Sequence = dm_Sequence dm, ob_Bids = dm_Bids dm, ob_Asks = dm_Asks dm, ob_RawPayload = [],
       ob_KafkaTopic = km_Topic msg, ob_KafkaPartition = km_Partition msg, ob_KafkaOffset = km_Offset msg,
       ob_IngestedAt = zero_time \<rparr>"

definition buildOrderBookDelta :: "GroupInput \<Rightarrow> KafkaMessage \<Rightarrow> decode_error + OrderBookDelta" where
  "buildOrderBookDelta input msg =
     bind_r (decodeOrderBookDelta (km_Value msg)) (\<lambda>dm.
     case validate_delta dm of Some e \<Rightarrow> Inl e | None \<Rightarrow> Inr (toOrderBookDelta dm input msg))"

record orderBookSnapshotMessage =
  sm_EventTime :: flexTime
  sm_ExchangeTime :: "flexTime option"
  sm_LocalReceiveTime :: "flexTime option"
  sm_Sequence :: "int64 option"
  sm_Bids :: "PriceLevel list"
  sm_Asks :: "PriceLevel list"

definition zero_snapshotMessage :: orderBookSnapshotMessage where
  "zero_snapshotMessage =
     \<lparr> sm_EventTime = zero_flexTime, sm_ExchangeTime = None, sm_LocalReceiveTime = None,
       sm_Sequence = None, sm_Bids = [], sm_Asks = [] \<rparr>"

definition put_snapshot :: "orderBookSnapshotMessage \<Rightarrow> string \<Rightarrow> json \<Rightarrow> orderBookSnapshotMessage option" where
  "put_snapshot m key v =
     (if field_is key ''event_time''
      then map_option (\<lambda>x. m\<lparr>sm_EventTime := x\<rparr>) (flexTime_json (sm_EventTime m) v)
      else if field_is key ''exchange_time''
      then map_option (\<lambda>x. m\<lparr>sm_ExchangeTime := x\<rparr>)
             (pointer_json flexTime_json zero_flexTime (sm_ExchangeTime m) v)
      else if field_is key ''local_receive_time''
      then map_option (\<lambda>x. m\<lparr>sm_LocalReceiveTime := x\<rparr>)
             (pointer_json flexTime_json zero_flexTime (sm_LocalReceiveTime m) v)
      else if field_is key ''sequence''
      then map_option (\<lambda>x. m\<lparr>sm_Sequence := x\<rparr>) (pointer_json flexInt64_json 0 (sm_Sequence m) v)
      else if field_is key ''bids'' then map_option (\<lambda>x. m\<lparr>sm_Bids := x\<rparr>) (priceLevels_json v)
      else if field_is key ''asks'' then map_option (\<lambda>x. m\<lparr>sm_Asks := x\<rparr>) (priceLevels_json v)
      else None)"

definition decodeOrderBookSnapshot :: "bytes \<Rightarrow> decode_error + orderBookSnapshotMessage" where
  "decodeOrderBookSnapshot data = decode_payload put_snapshot zero_snapshotMessage data"

definition validate_snapshot :: "orderBookSnapshotMessage \<Rightarrow> decode_error option" where
  "validate_snapshot sm =
     (if \<not> ft_set (sm_EventTime sm) then Some (MissingField ''event_time'')
      else if negative_id (sm_Sequence sm) then Some (InvalidField ''sequence'')
      else if sm_Bids sm = [] \<and> sm_Asks sm = [] then Some (MissingField ''bids and asks'')
      else (case validatePriceLevels ''bids'' (sm_Bids sm) of
              Some e \<Rightarrow> Some e
            | None \<Rightarrow> validatePriceLevels ''asks'' (sm_Asks sm)))"

definition toOrderBookSnapshot :: "orderBookSnapshotMessage \<Rightarrow> GroupInput \<Rightarrow> OrderBookSnapshot" where
  "toOrderBookSnapshot sm input =
     \<lparr> sn_SnapshotID = 0, sn_GroupID = gi_GroupID input, sn_InputID = inputID input,
       sn_SnapshotTime = ft_t (sm_EventTime sm), sn_Sequence = sm_Sequence sm,
       sn_Bids = sm_Bids sm, sn_Asks = sm_Asks sm, sn_CreatedAt = zero_time \<rparr>"

definition buildOrderBookSnapshot :: "GroupInput \<Rightarrow> KafkaMessage \<Rightarrow> decode_error + OrderBookSnapshot" where
  "buildOrderBookSnapshot input msg =
     bind_r (decodeOrderBookSnapshot (km_Value msg)) (\<lambda>sm.
     case validate_snapshot sm of Some e \<Rightarrow> Inl e | None \<Rightarrow> Inr (toOrderBookSnapshot sm input))"

subsection \<open>Accepted numbers\<close>

lemma positive_parsed:
  "validPositiveNumeric s \<Longrightarrow> \<exists>v. parsed_price s = Some v \<and> 0 < Sign v"
  by (auto simp: validPositiveNumeric_def parsed_price_def Let_def split: if_splits prod.splits option.splits)

lemma nonnegative_parsed:
  "validNonNegativeNumeric s \<Longrightarrow> \<exists>v. parsed_price s = Some v \<and> 0 \<le> Sign v"
  by (auto simp: validNonNegativeNumeric_def parsed_price_def Let_def split: if_splits prod.splits option.splits)

lemma valid_trim [simp]:
  "validPositiveNumeric (TrimSpace s) = validPositiveNumeric s"
  "validNonNegativeNumeric (TrimSpace s) = validNonNegativeNumeric s"
  "parsed_price (TrimSpace s) = parsed_price s"
  by (simp_all add: validPositiveNumeric_def validNonNegativeNumeric_def parsed_price_def)

lemma compare_or_panic_Inr [result_simps]:
  "compare_or_panic a b bad e k = Inr x \<longleftrightarrow>
     (\<exists>v w. parsed_price a = Some v \<and> parsed_price b = Some w \<and> \<not> bad (Cmp v w)) \<and> k = Inr x"
  by (auto simp: compare_or_panic_def compareNumeric_def split: option.splits)

subsection \<open>What an accepted message satisfies\<close>

text \<open>
  Every trade that \<^verbatim>\<open>buildTrade\<close> accepts has positive decimal price and quantity, side buy or
  sell, and carries the input's ids and the Kafka coordinates of its message.
\<close>

theorem accepted_trade_is_valid:
  assumes "buildTrade input msg = Inr t"
  shows "validPositiveNumeric (tr_Price t) \<and> validPositiveNumeric (tr_Quantity t) \<and>
    tr_Side t \<in> {TradeSideBuy, TradeSideSell} \<and> tr_InputID t = inputID input \<and>
    tr_GroupID t = gi_GroupID input \<and> tr_KafkaTopic t = km_Topic msg \<and>
    tr_KafkaPartition t = km_Partition msg \<and> tr_KafkaOffset t = km_Offset msg \<and>
    1 \<le> tr_SchemaVersion t"
proof -
  from assms obtain tm side where s: "validate_trade tm = Inr side" "t = toTrade tm input msg side"
    by (auto simp: buildTrade_def bind_r_Inr_iff)
  from s(1) have "validPositiveNumeric (tm_Price tm)" "validPositiveNumeric (tm_Quantity tm)"
    "side \<in> {TradeSideBuy, TradeSideSell}"
    by (auto simp: validate_trade_def normalizeSide_def Let_def split: if_splits)
  with s(2) show ?thesis by (simp add: toTrade_def schemaVersionOr1_def)
qed

text \<open>A number that lies between two others in the order of \<open>big.Float\<close>.\<close>

definition between :: "string \<Rightarrow> string \<Rightarrow> string \<Rightarrow> bool" where
  "between lo x hi \<longleftrightarrow>
     (case (parsed_price lo, parsed_price x, parsed_price hi) of
        (Some l, Some v, Some h) \<Rightarrow> bf_key l \<le> bf_key v \<and> bf_key v \<le> bf_key h
      | _ \<Rightarrow> False)"

lemma within_range_Inr [result_simps]:
  "within_range m name x k = Inr y \<longleftrightarrow> between (kg_Low m) x (kg_High m) \<and> k = Inr y"
  unfolding within_range_def compare_or_panic_Inr between_def
  by (auto simp: Cmp_less_iff Cmp_greater_iff not_less split: option.splits)

text \<open>The rejections of \<open>validate_kline\<close> before its comparisons.\<close>

lemma validate_kline_Inr:
  assumes "validate_kline m input = Inr source"
  shows "source = KlineSourceExchange" "TrimSpace (kg_Interval m) = gi_Interval input"
    "StreamKeyFor StreamKindKline (gi_Interval input) = Inr (gi_StreamKey input)"
    "ft_t (kg_OpenTime m) < ft_t (kg_CloseTime m)"
    "list_all validPositiveNumeric [kg_Open m, kg_High m, kg_Low m, kg_Close m]"
    "validNonNegativeNumeric (kg_Volume m)" "0 \<le> kg_TradeCount m" "0 \<le> kg_Revision m"
    "between (kg_Low m) (kg_Open m) (kg_High m)" "between (kg_Low m) (kg_Close m) (kg_High m)"
  using assms by (auto simp: validate_kline_def result_simps split: sum.splits)

lemma validate_kline_no_panic: "validate_kline m input \<noteq> Inl NilComparison"
proof -
  have "validPositiveNumeric a \<Longrightarrow> validPositiveNumeric b \<Longrightarrow> compareNumeric a b \<noteq> None" for a b
    by (auto simp: compareNumeric_def dest!: positive_parsed)
  then have cmp: "compare_or_panic a b bad e k \<noteq> Inl NilComparison"
    if "validPositiveNumeric a" "validPositiveNumeric b" "e \<noteq> NilComparison" "k \<noteq> Inl NilComparison"
    for a b bad e and k :: "decode_error + string"
    using that by (auto simp: compare_or_panic_def split: option.splits)
  have grd: "guard_r c e k \<noteq> Inl NilComparison"
    if "e \<noteq> NilComparison" "\<not> c \<Longrightarrow> k \<noteq> Inl NilComparison" for c e and k :: "decode_error + string"
    using that by (simp add: guard_r_def)
  show ?thesis
    unfolding validate_kline_def within_range_def
    by (cases "StreamKeyFor StreamKindKline (gi_Interval input)")
       (simp, simp only: sum.case, intro grd cmp, simp_all)
qed

text \<open>
  C40. Every candle that \<^verbatim>\<open>buildKline\<close> accepts closes after it opens, has positive prices with open
  and close between low and high in exact decimal order, nonnegative volume, trade count and revision,
  and the interval of its input. Validation never reaches the nil-pointer panic of a comparison.
\<close>

theorem accepted_kline_is_valid:
  assumes "buildKline input msg = Inr k"
  shows "kl_OpenTime k < kl_CloseTime k \<and> between (kl_Low k) (kl_Open k) (kl_High k) \<and>
    between (kl_Low k) (kl_Close k) (kl_High k) \<and> validPositiveNumeric (kl_Low k) \<and>
    validPositiveNumeric (kl_High k) \<and> validNonNegativeNumeric (kl_Volume k) \<and> 0 \<le> kl_TradeCount k \<and>
    0 \<le> kl_Revision k \<and> kl_Interval k = gi_Interval input \<and> kl_Source k = KlineSourceExchange \<and>
    kl_KafkaPartition k = km_Partition msg \<and> kl_KafkaOffset k = km_Offset msg \<and>
    validate_kline m input \<noteq> Inl NilComparison"
proof -
  from assms obtain m source where s: "validate_kline m input = Inr source" "k = toKline m input msg source"
    by (auto simp: buildKline_def bind_r_Inr_iff)
  from validate_kline_Inr [OF s(1)] s(2) show ?thesis
    by (simp add: toKline_def between_def validate_kline_no_panic)
qed

lemma validatePriceLevels_None:
  "validatePriceLevels side ls = None \<longleftrightarrow>
     list_all (\<lambda>l. validPositiveNumeric (pl_Price l) \<and> validNonNegativeNumeric (pl_Quantity l)) ls"
  by (induction ls) auto

text \<open>
  Every order-book delta that \<^verbatim>\<open>buildOrderBookDelta\<close> accepts has at least one level, only levels
  with a positive price and a nonnegative quantity, nonnegative update ids with first not above last,
  and the coordinates of its message.
\<close>

theorem accepted_delta_is_valid:
  assumes "buildOrderBookDelta input msg = Inr d"
  shows "ob_Bids d @ ob_Asks d \<noteq> [] \<and>
    list_all (\<lambda>l. validPositiveNumeric (pl_Price l) \<and> validNonNegativeNumeric (pl_Quantity l))
      (ob_Bids d @ ob_Asks d) \<and>
    list_all (\<lambda>p. \<not> negative_id p) [ob_FirstUpdateID d, ob_LastUpdateID d, ob_PrevUpdateID d, ob_Sequence d] \<and>
    (case (ob_FirstUpdateID d, ob_LastUpdateID d) of (Some f, Some l) \<Rightarrow> f \<le> l | _ \<Rightarrow> True) \<and>
    ob_InputID d = inputID input \<and> ob_KafkaPartition d = km_Partition msg \<and> ob_KafkaOffset d = km_Offset msg"
proof -
  from assms obtain dm where s: "validate_delta dm = None" "d = toOrderBookDelta dm input msg"
    by (auto simp: buildOrderBookDelta_def bind_r_Inr_iff split: option.splits)
  then show ?thesis
    by (auto simp: validate_delta_def toOrderBookDelta_def validatePriceLevels_None
        split: if_splits option.splits)
qed

lemma accepted_snapshot_is_valid:
  assumes "buildOrderBookSnapshot input msg = Inr s"
  shows "sn_Bids s @ sn_Asks s \<noteq> [] \<and>
    list_all (\<lambda>l. validPositiveNumeric (pl_Price l) \<and> validNonNegativeNumeric (pl_Quantity l))
      (sn_Bids s @ sn_Asks s) \<and> \<not> negative_id (sn_Sequence s) \<and> sn_InputID s = inputID input"
proof -
  from assms obtain sm where s: "validate_snapshot sm = None" "s = toOrderBookSnapshot sm input"
    by (auto simp: buildOrderBookSnapshot_def bind_r_Inr_iff split: option.splits)
  then show ?thesis
    by (auto simp: validate_snapshot_def toOrderBookSnapshot_def validatePriceLevels_None
        split: if_splits option.splits)
qed

text \<open>The compact form of a level means the same as its object form.\<close>

lemma compact_level:
  "decodePriceLevel (JArr [p, q]) = decodePriceLevel (JObj [(''price'', p), (''quantity'', q)])"
proof -
  have "field_is ''price'' ''price''" "field_is ''quantity'' ''quantity''" "\<not> field_is ''quantity'' ''price''"
    by (simp_all add: field_is_def upper_char_def)
  then show ?thesis
    by (cases "flexString_json p"; cases "flexString_json q")
       (simp_all add: decodePriceLevel_def decode_struct_def put_level_def)
qed

subsection \<open>Witnesses\<close>

definition sample_stream :: "string \<Rightarrow> string \<Rightarrow> string \<Rightarrow> GroupInput" where
  "sample_stream kind interval key =
     \<lparr> gi_InputID = ''i'', gi_GroupID = ''g'', gi_StreamKey = key, gi_StreamKind = kind,
       gi_Interval = interval, gi_Enabled = True, gi_KafkaCluster = ''default'', gi_KafkaTopic = ''t'',
       gi_KafkaGroupID = ''c'', gi_DesiredStatus = DesiredStatusRunning, gi_SchemaVersion = 1,
       gi_CreatedAt = 0, gi_UpdatedAt = 0 \<rparr>"

definition sample_message :: "int64 \<Rightarrow> bytes \<Rightarrow> KafkaMessage" where
  "sample_message off payload =
     \<lparr> km_Topic = ''t'', km_Partition = 0, km_Offset = off, km_Key = [], km_Value = payload, km_Time = 0,
       km_HighWatermark = 0 \<rparr>"

text \<open>On an ASCII text folding is letter by letter.\<close>

lemma foldName_ascii: "byte a < 128 \<Longrightarrow> foldName (a # s) = upper_char a # foldName s"
  by (cases s rule: list.exhaust; cases "tl s") auto

lemma ascii_letters:
  "byte CHR ''a'' < 128" "upper_char CHR ''a'' = CHR ''A''"
  "byte CHR ''b'' < 128" "upper_char CHR ''b'' = CHR ''B''"
  "byte CHR ''c'' < 128" "upper_char CHR ''c'' = CHR ''C''"
  "byte CHR ''d'' < 128" "upper_char CHR ''d'' = CHR ''D''"
  "byte CHR ''e'' < 128" "upper_char CHR ''e'' = CHR ''E''"
  "byte CHR ''f'' < 128" "upper_char CHR ''f'' = CHR ''F''"
  "byte CHR ''g'' < 128" "upper_char CHR ''g'' = CHR ''G''"
  "byte CHR ''h'' < 128" "upper_char CHR ''h'' = CHR ''H''"
  "byte CHR ''i'' < 128" "upper_char CHR ''i'' = CHR ''I''"
  "byte CHR ''j'' < 128" "upper_char CHR ''j'' = CHR ''J''"
  "byte CHR ''k'' < 128" "upper_char CHR ''k'' = CHR ''K''"
  "byte CHR ''l'' < 128" "upper_char CHR ''l'' = CHR ''L''"
  "byte CHR ''m'' < 128" "upper_char CHR ''m'' = CHR ''M''"
  "byte CHR ''n'' < 128" "upper_char CHR ''n'' = CHR ''N''"
  "byte CHR ''o'' < 128" "upper_char CHR ''o'' = CHR ''O''"
  "byte CHR ''p'' < 128" "upper_char CHR ''p'' = CHR ''P''"
  "byte CHR ''q'' < 128" "upper_char CHR ''q'' = CHR ''Q''"
  "byte CHR ''r'' < 128" "upper_char CHR ''r'' = CHR ''R''"
  "byte CHR ''s'' < 128" "upper_char CHR ''s'' = CHR ''S''"
  "byte CHR ''t'' < 128" "upper_char CHR ''t'' = CHR ''T''"
  "byte CHR ''u'' < 128" "upper_char CHR ''u'' = CHR ''U''"
  "byte CHR ''v'' < 128" "upper_char CHR ''v'' = CHR ''V''"
  "byte CHR ''w'' < 128" "upper_char CHR ''w'' = CHR ''W''"
  "byte CHR ''x'' < 128" "upper_char CHR ''x'' = CHR ''X''"
  "byte CHR ''y'' < 128" "upper_char CHR ''y'' = CHR ''Y''"
  "byte CHR ''z'' < 128" "upper_char CHR ''z'' = CHR ''Z''"
  "byte CHR ''_'' < 128" "upper_char CHR ''_'' = CHR ''_''"
  "byte CHR ''Q'' < 128" "upper_char CHR ''Q'' = CHR ''Q''"
  "byte CHR ''U'' < 128" "upper_char CHR ''U'' = CHR ''U''"
  "byte CHR ''A'' < 128" "upper_char CHR ''A'' = CHR ''A''"
  "byte CHR ''N'' < 128" "upper_char CHR ''N'' = CHR ''N''"
  "byte CHR ''T'' < 128" "upper_char CHR ''T'' = CHR ''T''"
  "byte CHR ''I'' < 128" "upper_char CHR ''I'' = CHR ''I''"
  "byte CHR ''Y'' < 128" "upper_char CHR ''Y'' = CHR ''Y''"
  by code_simp+

lemmas fold_ascii = foldName_ascii foldName.simps(4) ascii_letters

lemma fold_names:
  "foldName ''event_time'' = ''EVENT_TIME''" "foldName ''exchange_time'' = ''EXCHANGE_TIME''"
  "foldName ''local_receive_time'' = ''LOCAL_RECEIVE_TIME''" "foldName ''trade_id'' = ''TRADE_ID''"
  "foldName ''raw_trade_id'' = ''RAW_TRADE_ID''" "foldName ''price'' = ''PRICE''"
  "foldName ''quantity'' = ''QUANTITY''" "foldName ''QUANTITY'' = ''QUANTITY''" "foldName ''side'' = ''SIDE''"
  "foldName ''source'' = ''SOURCE''" "foldName ''interval'' = ''INTERVAL''"
  "foldName ''open_time'' = ''OPEN_TIME''" "foldName ''close_time'' = ''CLOSE_TIME''"
  "foldName ''open'' = ''OPEN''" "foldName ''high'' = ''HIGH''" "foldName ''low'' = ''LOW''"
  "foldName ''close'' = ''CLOSE''" "foldName ''volume'' = ''VOLUME''"
  "foldName ''quote_volume'' = ''QUOTE_VOLUME''" "foldName ''trade_count'' = ''TRADE_COUNT''"
  "foldName ''is_closed'' = ''IS_CLOSED''" "foldName ''revision'' = ''REVISION''"
  "foldName ''raw_event_id'' = ''RAW_EVENT_ID''" "foldName ''first_update_id'' = ''FIRST_UPDATE_ID''"
  "foldName ''last_update_id'' = ''LAST_UPDATE_ID''" "foldName ''prev_update_id'' = ''PREV_UPDATE_ID''"
  "foldName ''sequence'' = ''SEQUENCE''" "foldName ''bids'' = ''BIDS''" "foldName ''asks'' = ''ASKS''"
  by (simp_all only: fold_ascii)

lemmas decode_eval = decode_payload_def decode_struct_def field_is_def fold_names flexTime_json_def Let_def
  UnixMilli_def millisecond_def flexString_json_def string_json_def flexInt64_json_def pointer_json_def
  priceLevels_json_def decodePriceLevel_def ParseInt_def split_sign_def parse_unsigned_def is_digit_def
  digits_val_def digit_val_def

definition sample_trade_payload :: bytes where
  "sample_trade_payload = ''{\"event_time\": 1700000000000, \"price\": \"100.25\", \"QUANTITY\": 2, \"side\": \"BUY\"}''"

lemma sample_trade_parsed:
  "parse_json sample_trade_payload = Some (JObj [(''event_time'', JNum ''1700000000000''),
     (''price'', JStr ''100.25''), (''QUANTITY'', JNum ''2''), (''side'', JStr ''BUY'')])"
  by code_simp

lemma sample_trade_decoded:
  "decodeTrade sample_trade_payload = Inr (zero_tradeMessage
     \<lparr> tm_EventTime := \<lparr> ft_t = 1700000000000000000, ft_set = True \<rparr>, tm_Price := ''100.25'',
       tm_Quantity := ''2'', tm_Side := ''BUY'' \<rparr>)"
  by (simp add: decodeTrade_def sample_trade_parsed put_trade_def decode_eval del: foldName.simps)

lemma lower_buy: "ToLower ''BUY'' = ''buy''"
  by code_simp

lemma sample_trade_built: "\<exists>t. buildTrade (sample_stream StreamKindTrade [] StreamKindTrade)
    (sample_message 7 sample_trade_payload) = Inr t"
  by (simp add: buildTrade_def sample_message_def sample_trade_decoded validate_trade_def
      normalizeSide_def decimal_eval lower_buy del: ToLower.simps)

theorem accepted_trade_is_valid_witness:
  "\<exists>t. buildTrade (sample_stream StreamKindTrade [] StreamKindTrade)
     (sample_message 7 sample_trade_payload) = Inr t \<and> validPositiveNumeric (tr_Price t)"
  using sample_trade_built accepted_trade_is_valid by blast

definition sample_kline_payload :: bytes where
  "sample_kline_payload =
     ''{\"interval\":\"1m\",\"open_time\":0,\"close_time\":60000,\"open\":2,\"high\":\"3\",\"low\":\"1\",\"close\":\"2\",\"volume\":0}''"

lemma sample_kline_parsed:
  "parse_json sample_kline_payload = Some (JObj [(''interval'', JStr ''1m''), (''open_time'', JNum ''0''),
     (''close_time'', JNum ''60000''), (''open'', JNum ''2''), (''high'', JStr ''3''), (''low'', JStr ''1''),
     (''close'', JStr ''2''), (''volume'', JNum ''0'')])"
  by code_simp

lemma sample_kline_decoded:
  "decodeKline sample_kline_payload = Inr (zero_klineMessage
     \<lparr> kg_Interval := ''1m'', kg_OpenTime := \<lparr> ft_t = 0, ft_set = True \<rparr>,
       kg_CloseTime := \<lparr> ft_t = 60000000000, ft_set = True \<rparr>, kg_Open := ''2'', kg_High := ''3'',
       kg_Low := ''1'', kg_Close := ''2'', kg_Volume := ''0'' \<rparr>)"
  by (simp add: decodeKline_def sample_kline_parsed put_kline_def decode_eval del: foldName.simps)

theorem accepted_kline_is_valid_witness:
  "\<exists>k. buildKline (sample_stream StreamKindKline ''1m'' ''kline_1m'') (sample_message 9 sample_kline_payload) = Inr k \<and>
     kl_OpenTime k < kl_CloseTime k"
proof -
  have "\<exists>k. buildKline (sample_stream StreamKindKline ''1m'' ''kline_1m'')
      (sample_message 9 sample_kline_payload) = Inr k"
    by (simp add: buildKline_def sample_message_def sample_kline_decoded validate_kline_def sample_stream_def
        StreamKeyFor_def klineStreamKeyPrefix_def guard_r_def kline_source_def zero_klineMessage_def
        KlineSourceExchange_def within_range_def compare_or_panic_def decimal_eval)
  then show ?thesis using accepted_kline_is_valid by blast
qed

definition sample_delta_payload :: bytes where
  "sample_delta_payload = ''{\"event_time\": 1, \"sequence\": \"11\", \"bids\": [[\"100\", 1]], \"asks\": null}''"

lemma sample_delta_parsed:
  "parse_json sample_delta_payload = Some (JObj [(''event_time'', JNum ''1''), (''sequence'', JStr ''11''),
     (''bids'', JArr [JArr [JStr ''100'', JNum ''1'']]), (''asks'', JNull)])"
  by code_simp

lemma sample_delta_decoded:
  "decodeOrderBookDelta sample_delta_payload = Inr (zero_deltaMessage
     \<lparr> dm_EventTime := \<lparr> ft_t = 1000000, ft_set = True \<rparr>, dm_Sequence := Some 11,
       dm_Bids := [\<lparr> pl_Price = ''100'', pl_Quantity = ''1'' \<rparr>] \<rparr>)"
  by (simp add: decodeOrderBookDelta_def sample_delta_parsed put_delta_def decode_eval zero_deltaMessage_def
      TrimSpace_graphic graphic_def del: foldName.simps)

lemma sample_delta_built:
  "\<exists>d. buildOrderBookDelta (sample_stream StreamKindOrderBookDelta [] StreamKindOrderBookDelta)
     (sample_message 3 sample_delta_payload) = Inr d"
  by (simp add: buildOrderBookDelta_def sample_message_def sample_delta_decoded validate_delta_def
      zero_deltaMessage_def negative_id_def decimal_eval)

theorem accepted_delta_is_valid_witness:
  "\<exists>d. buildOrderBookDelta (sample_stream StreamKindOrderBookDelta [] StreamKindOrderBookDelta)
     (sample_message 3 sample_delta_payload) = Inr d \<and> ob_Bids d @ ob_Asks d \<noteq> []"
  using sample_delta_built accepted_delta_is_valid by blast

end
