(* ===== verification/Input_Worker.thy ===== *)
theory Input_Worker
  imports Fact_Store Order_Book Message_Decode
begin

section \<open>The input worker: internal/runtime/input_worker.go\<close>

text \<open>
  One worker consumes one trade, kline or order-book-delta stream: it decodes records, collects them
  into a batch, writes the batch with the stream's progress in one transaction, and commits the
  highest Kafka offset only after that. The state of the worker is a record; \<open>ingest_world\<close> holds what
  is outside it: the fact store, the committed offsets of the Kafka consumer group, and the order book
  the deltas are handed to.

  The consume loop is a step function: each event is one turn of the loop (a fetched message, the
  flush deadline, a failed fetch, the stop). The answers of the calls made in that turn are part of
  the event, so every interleaving of failures is some event. A retry loop runs through its list of
  answers; a call that fails because the context was canceled carries the flag, and the end of the
  list is the cancellation during the back-off sleep.

  The main result is the at-least-once guarantee: Kafka's committed offset never gets ahead of what
  is stored or dead-lettered.
\<close>

subsection \<open>Configuration\<close>

record BatchConfig =
  bc_Size :: goint
  bc_FlushInterval :: duration

definition withDefaults :: "BatchConfig \<Rightarrow> BatchConfig" where
  "withDefaults c =
     \<lparr> bc_Size = (if bc_Size c \<le> 0 then 1 else bc_Size c),
       bc_FlushInterval = (if bc_FlushInterval c \<le> 0 then 100 * millisecond else bc_FlushInterval c) \<rparr>"

record ConsumptionConfig =
  cc_StatusReportEvery :: duration
  cc_InputReconcileEvery :: duration
  cc_TradeBatch :: BatchConfig
  cc_KlineBatch :: BatchConfig
  cc_OrderBookDeltaBatch :: BatchConfig
  cc_SnapshotInterval :: duration

definition batchFor :: "ConsumptionConfig \<Rightarrow> string \<Rightarrow> BatchConfig" where
  "batchFor c kind =
     (if kind = StreamKindTrade then withDefaults (cc_TradeBatch c)
      else if kind = StreamKindKline then withDefaults (cc_KlineBatch c)
      else if kind = StreamKindOrderBookDelta then withDefaults (cc_OrderBookDeltaBatch c)
      else withDefaults \<lparr> bc_Size = 0, bc_FlushInterval = 0 \<rparr>)"

definition isRetryableStage :: "string \<Rightarrow> bool" where
  "isRetryableStage stage \<longleftrightarrow> stage = ''sequence'' \<or> stage = ''durable''"

subsection \<open>State\<close>

record pendingRecord =
  pd_msg :: KafkaMessage
  pd_eventTime :: time
  pd_trade :: "Trade option"
  pd_kline :: "Kline option"
  pd_delta :: "OrderBookDelta option"

record inputWorker =
  iw_group :: MarketGroup
  iw_input :: GroupInput
  iw_nodeID :: string
  iw_batch :: BatchConfig
  iw_status :: string
  iw_lastErr :: string
  iw_partition :: goint
  iw_committed :: "int64 option"
  iw_highWM :: "int64 option"
  iw_lastEvent :: "time option"
  iw_lastProc :: "time option"
  iw_lastDelta :: "goint \<Rightarrow> OrderBookDelta option"
  iw_loaded :: "goint \<Rightarrow> bool"
  iw_durable :: "goint \<Rightarrow> int64 option"
  iw_resetSeq :: "int64 option"
  iw_resetLastUpdate :: "int64 option"
  iw_pending :: "pendingRecord list"

record ingest_world =
  wd_db :: fact_db
  wd_committed :: "goint \<Rightarrow> int64 option"
  wd_book :: "orderBookState option"

definition newInputWorker :: "MarketGroup \<Rightarrow> GroupInput \<Rightarrow> string \<Rightarrow> BatchConfig \<Rightarrow> inputWorker" where
  "newInputWorker grp input nodeID batch =
     \<lparr> iw_group = grp, iw_input = input, iw_nodeID = nodeID, iw_batch = withDefaults batch,
       iw_status = ActualStatusRunning, iw_lastErr = [], iw_partition = 0, iw_committed = None,
       iw_highWM = None, iw_lastEvent = None, iw_lastProc = None, iw_lastDelta = (\<lambda>_. None),
       iw_loaded = (\<lambda>_. False), iw_durable = (\<lambda>_. None), iw_resetSeq = None,
       iw_resetLastUpdate = None, iw_pending = [] \<rparr>"

definition setStatus :: "string \<Rightarrow> string \<Rightarrow> inputWorker \<Rightarrow> inputWorker" where
  "setStatus status lastErr iw = iw\<lparr>iw_status := status, iw_lastErr := lastErr\<rparr>"

definition advance :: "KafkaMessage \<Rightarrow> time option \<Rightarrow> time \<Rightarrow> inputWorker \<Rightarrow> inputWorker" where
  "advance msg eventTime now iw =
     iw\<lparr> iw_partition := km_Partition msg, iw_committed := Some (km_Offset msg),
         iw_highWM := (if km_HighWatermark msg > 0 then Some (km_HighWatermark msg) else iw_highWM iw),
         iw_lastEvent := (if eventTime \<noteq> None then eventTime else iw_lastEvent iw),
         iw_lastProc := Some now \<rparr>"

definition lagLocked :: "int64 option \<Rightarrow> int64 option \<Rightarrow> int64 option" where
  "lagLocked committed highWM =
     (case (committed, highWM) of
        (Some c, Some h) \<Rightarrow> (let lag = wrap64 (wrap64 (h - c) - 1) in Some (if lag < 0 then 0 else lag))
      | _ \<Rightarrow> None)"

definition snapshotLocked :: "inputWorker \<Rightarrow> string \<Rightarrow> string \<Rightarrow> StreamRuntimeStatus" where
  "snapshotLocked iw status lastErr =
     \<lparr> ss_InputID = inputID (iw_input iw), ss_GroupID = mg_GroupID (iw_group iw),
       ss_StreamKey = gi_StreamKey (iw_input iw), ss_NodeID = iw_nodeID iw, ss_ActualStatus = status,
       ss_KafkaPartition = Some (iw_partition iw),
       ss_KafkaLag = lagLocked (iw_committed iw) (iw_highWM iw),
       ss_CommittedOffset = iw_committed iw, ss_HighWatermarkOffset = iw_highWM iw,
       ss_LastEventTime = iw_lastEvent iw, ss_LastProcessedTime = iw_lastProc iw,
       ss_LastError = lastErr, ss_UpdatedAt = zero_time \<rparr>"

subsection \<open>Answers of the calls in one turn of the loop\<close>

datatype commit_outcome = CommitOk | CommitFailed | CommitLost

type_synonym write_answer = "fact_fault \<times> time \<times> bool"
type_synonym commit_answer = "commit_outcome \<times> bool"
type_synonym load_answer = "bool \<times> bool"

record flush_answers =
  fa_writes :: "write_answer list"
  fa_commits :: "commit_answer list"
  fa_now :: time

definition commit_offset :: "commit_outcome \<Rightarrow> KafkaMessage \<Rightarrow> ingest_world \<Rightarrow> ingest_world" where
  "commit_offset outcome msg wd =
     (if outcome = CommitFailed then wd
      else wd\<lparr>wd_committed := (wd_committed wd)(km_Partition msg \<mapsto> km_Offset msg)\<rparr>)"

subsection \<open>Flushing a batch\<close>

fun write_loop :: "write_answer list \<Rightarrow> FactBatch \<Rightarrow> inputWorker \<Rightarrow> ingest_world \<Rightarrow>
  bool \<times> inputWorker \<times> ingest_world" where
  "write_loop [] batch iw wd = (False, iw, wd)"
| "write_loop ((fault, now, canceled) # rs) batch iw wd =
     (case WriteFactBatch fault now (wd_db wd) batch of
        (None, db) \<Rightarrow> (True, iw, wd\<lparr>wd_db := db\<rparr>)
      | (Some e, db) \<Rightarrow>
          if canceled then (False, iw, wd\<lparr>wd_db := db\<rparr>)
          else write_loop rs batch (setStatus ActualStatusError ''write'' iw) (wd\<lparr>wd_db := db\<rparr>))"

fun commit_loop :: "commit_answer list \<Rightarrow> KafkaMessage \<Rightarrow> inputWorker \<Rightarrow> ingest_world \<Rightarrow>
  bool \<times> inputWorker \<times> ingest_world" where
  "commit_loop [] msg iw wd = (False, iw, wd)"
| "commit_loop ((outcome, canceled) # rs) msg iw wd =
     (let wd = commit_offset outcome msg wd in
      if outcome = CommitOk then (True, iw, wd)
      else if canceled then (False, iw, wd)
      else commit_loop rs msg (setStatus ActualStatusError ''commit'' iw) wd)"

definition batch_of :: "inputWorker \<Rightarrow> pendingRecord list \<Rightarrow> FactBatch" where
  "batch_of iw records =
     (let msg = pd_msg (last records);
          cursor = (if gi_StreamKind (iw_input iw) = StreamKindOrderBookDelta
                    then (case iw_lastDelta iw (km_Partition msg) of None \<Rightarrow> zero_delta | Some d \<Rightarrow> d)
                    else zero_delta)
      in \<lparr> fb_Trades = List.map_filter pd_trade records,
           fb_Klines = List.map_filter pd_kline records,
           fb_OrderBookDeltas = List.map_filter pd_delta records,
           fb_Progress =
             \<lparr> wp_InputID = inputID (iw_input iw), wp_KafkaPartition = km_Partition msg,
               wp_DurableOffset = km_Offset msg, wp_LastRawEventID = ob_RawEventID cursor,
               wp_LastUpdateID = ob_LastUpdateID cursor, wp_LastSequence = ob_Sequence cursor,
               wp_UpdatedAt = zero_time \<rparr> \<rparr>)"

definition last_event_time :: "pendingRecord list \<Rightarrow> time option" where
  "last_event_time records =
     map_option pd_eventTime (find (\<lambda>r. pd_eventTime r \<noteq> zero_time) (rev records))"

definition flushBatch :: "flush_answers \<Rightarrow> pendingRecord list \<Rightarrow> inputWorker \<Rightarrow> ingest_world \<Rightarrow>
  bool \<times> inputWorker \<times> ingest_world" where
  "flushBatch ans records iw wd =
     (if records = [] then (True, iw, wd)
      else
      let msg = pd_msg (last records) in
      (case write_loop (fa_writes ans) (batch_of iw records) iw wd of
         (False, iw, wd) \<Rightarrow> (False, iw, wd)
       | (True, iw, wd) \<Rightarrow>
      (case commit_loop (fa_commits ans) msg iw wd of
         (False, iw, wd) \<Rightarrow> (False, iw, wd)
       | (True, iw, wd) \<Rightarrow>
          (let iw = iw\<lparr>iw_durable := (iw_durable iw)(km_Partition msg \<mapsto> km_Offset msg)\<rparr>;
               wd = (if gi_StreamKind (iw_input iw) = StreamKindOrderBookDelta
                     then wd\<lparr>wd_book := foldl onDeltaApplied (wd_book wd)
                               (List.map_filter pd_delta records)\<rparr>
                     else wd);
               iw = advance msg (last_event_time records) (fa_now ans) iw;
               iw = setStatus ActualStatusRunning [] iw
           in (True, iw, wd)))))"

subsection \<open>Progress and preparation\<close>

definition adopt_progress :: "goint \<Rightarrow> StreamWriteProgress option \<Rightarrow> inputWorker \<Rightarrow> inputWorker" where
  "adopt_progress part progress iw =
     (let iw = iw\<lparr>iw_loaded := (iw_loaded iw)(part := True)\<rparr> in
      case progress of
        None \<Rightarrow> iw\<lparr>iw_durable := (iw_durable iw)(part \<mapsto> -1)\<rparr>
      | Some p \<Rightarrow>
          let iw = iw\<lparr> iw_durable := (iw_durable iw)(part \<mapsto> wp_DurableOffset p),
                       iw_partition := part, iw_committed := Some (wp_DurableOffset p) \<rparr>;
              entry = zero_delta\<lparr> ob_RawEventID := wp_LastRawEventID p,
                        ob_LastUpdateID := (if iw_resetLastUpdate iw \<noteq> None then iw_resetLastUpdate iw
                                            else wp_LastUpdateID p),
                        ob_Sequence := (if iw_resetSeq iw \<noteq> None then iw_resetSeq iw
                                        else wp_LastSequence p) \<rparr>;
              iw = (if gi_StreamKind (iw_input iw) = StreamKindOrderBookDelta
                    then iw\<lparr>iw_lastDelta := (iw_lastDelta iw)(part \<mapsto> entry)\<rparr> else iw)
          in iw\<lparr>iw_resetSeq := None, iw_resetLastUpdate := None\<rparr>)"

fun load_loop :: "load_answer list \<Rightarrow> goint \<Rightarrow> inputWorker \<Rightarrow> ingest_world \<Rightarrow> bool \<times> inputWorker" where
  "load_loop [] part iw wd = (False, iw)"
| "load_loop ((fails, canceled) # rs) part iw wd =
     (case LoadStreamWriteProgress fails (wd_db wd) (inputID (iw_input iw)) part of
        Inr progress \<Rightarrow> (True, adopt_progress part progress iw)
      | Inl e \<Rightarrow>
          if canceled then (False, iw)
          else load_loop rs part (setStatus ActualStatusError ''load progress'' iw) wd)"

definition ensureProgress :: "load_answer list \<Rightarrow> goint \<Rightarrow> inputWorker \<Rightarrow> ingest_world \<Rightarrow> bool \<times> inputWorker" where
  "ensureProgress ans part iw wd =
     (if iw_loaded iw part then (True, iw) else load_loop ans part iw wd)"

text \<open>
  A lookup of a partition without an entry gives 0, as a Go map does. The error of the continuity
  check is always nil, so its branch has no counterpart here.
\<close>

definition prepare :: "KafkaMessage \<Rightarrow> inputWorker \<Rightarrow> (string \<times> decode_error) + (pendingRecord \<times> inputWorker)" where
  "prepare msg iw =
     (let part = km_Partition msg; kind = gi_StreamKind (iw_input iw);
          durable = (case iw_durable iw part of None \<Rightarrow> 0 | Some d \<Rightarrow> d);
          rec0 = \<lparr> pd_msg = msg, pd_eventTime = zero_time, pd_trade = None, pd_kline = None,
                   pd_delta = None \<rparr>
      in if km_Offset msg \<le> durable then Inr (rec0, iw)
         else if kind = StreamKindTrade then
           (case buildTrade (iw_input iw) msg of
              Inl e \<Rightarrow> Inl (''decode'', e)
            | Inr trade \<Rightarrow> Inr (rec0\<lparr>pd_eventTime := tr_EventTime trade, pd_trade := Some trade\<rparr>, iw))
         else if kind = StreamKindKline then
           (case buildKline (iw_input iw) msg of
              Inl e \<Rightarrow> Inl (''decode'', e)
            | Inr kline \<Rightarrow> Inr (rec0\<lparr>pd_eventTime := kl_CloseTime kline, pd_kline := Some kline\<rparr>, iw))
         else if kind = StreamKindOrderBookDelta then
           (case buildOrderBookDelta (iw_input iw) msg of
              Inl e \<Rightarrow> Inl (''decode'', e)
            | Inr delta \<Rightarrow>
                let advance = checkDeltaContinuity (iw_lastDelta iw part) delta;
                    delta = delta\<lparr>ob_RawPayload := km_Value msg\<rparr>
                in if advance
                   then Inr (rec0\<lparr>pd_eventTime := ob_EventTime delta, pd_delta := Some delta\<rparr>,
                             iw\<lparr>iw_lastDelta := (iw_lastDelta iw)(part \<mapsto> delta)\<rparr>)
                   else Inr (rec0\<lparr>pd_eventTime := ob_EventTime delta\<rparr>, iw))
         else Inl (''decode'', UnsupportedKind kind))"

subsection \<open>The consume loop\<close>

text \<open>
  One turn. \<open>MessageFetched\<close> carries the answers of the flush before the message (partition change or
  undecodable message), of the progress load, of the dead-letter write and commit, and of the flush
  when the batch is full. The result says whether the loop goes on.
\<close>

datatype consume_event =
    MessageFetched KafkaMessage flush_answers "load_answer list" flush_answers batch_fault commit_outcome bool flush_answers
  | FlushDeadline flush_answers
  | FetchFailed bool

definition poison_of :: "inputWorker \<Rightarrow> KafkaMessage \<Rightarrow> string \<Rightarrow> PoisonRecord" where
  "poison_of iw msg errorMessage =
     \<lparr> pr_InputID = inputID (iw_input iw), pr_GroupID = mg_GroupID (iw_group iw),
       pr_StreamKind = gi_StreamKind (iw_input iw), pr_Topic = [], pr_Partition = km_Partition msg,
       pr_Offset = km_Offset msg, pr_ErrorMessage = errorMessage, pr_RawPayload = km_Value msg,
       pr_RecordedAt = zero_time \<rparr>"

text \<open>Flush what is pending and, when that worked, start over with an empty batch.\<close>

definition flush_pending :: "flush_answers \<Rightarrow> inputWorker \<Rightarrow> ingest_world \<Rightarrow> bool \<times> inputWorker \<times> ingest_world" where
  "flush_pending ans iw wd =
     (case flushBatch ans (iw_pending iw) iw wd of
        (True, iw, wd) \<Rightarrow> (True, iw\<lparr>iw_pending := []\<rparr>, wd)
      | (False, iw, wd) \<Rightarrow> (False, iw, wd))"

text \<open>
  A message that \<open>prepare\<close> refused: flush what precedes it, then dead-letter it and commit its
  offset. A failed dead-letter write leaves the offset uncommitted and the loop goes on. The error
  text in the status and in the dead-letter record is abbreviated to the stage.
\<close>

definition dead_letter ::
  "KafkaMessage \<Rightarrow> string \<Rightarrow> flush_answers \<Rightarrow> batch_fault \<Rightarrow> commit_outcome \<Rightarrow> bool \<Rightarrow> inputWorker \<Rightarrow>
   ingest_world \<Rightarrow> bool \<times> inputWorker \<times> ingest_world" where
  "dead_letter msg stage ans poison commit canceled iw wd =
     (case flush_pending ans iw wd of
        (False, iw, wd) \<Rightarrow> (False, iw, wd)
      | (True, iw, wd) \<Rightarrow>
         let iw = setStatus ActualStatusError stage iw in
         if isRetryableStage stage then (False, iw, wd)
         else (case WritePoisonRecord poison (wd_db wd) (poison_of iw msg stage) of
                 (Some e, db) \<Rightarrow> (\<not> canceled, iw, wd\<lparr>wd_db := db\<rparr>)
               | (None, db) \<Rightarrow> (True, iw, commit_offset commit msg (wd\<lparr>wd_db := db\<rparr>))))"

definition accept_record :: "pendingRecord \<Rightarrow> flush_answers \<Rightarrow> inputWorker \<Rightarrow> ingest_world \<Rightarrow>
  bool \<times> inputWorker \<times> ingest_world" where
  "accept_record record ans iw wd =
     (let iw = iw\<lparr>iw_pending := iw_pending iw @ [record]\<rparr> in
      if int (length (iw_pending iw)) \<ge> bc_Size (iw_batch iw) then flush_pending ans iw wd
      else (True, iw, wd))"

text \<open>The flush before a message of another partition, and the load of the partition's progress.\<close>

definition begin_message :: "KafkaMessage \<Rightarrow> flush_answers \<Rightarrow> load_answer list \<Rightarrow> inputWorker \<Rightarrow>
  ingest_world \<Rightarrow> bool \<times> inputWorker \<times> ingest_world" where
  "begin_message msg pre loads iw wd =
     (case (if iw_pending iw \<noteq> [] \<and> km_Partition (pd_msg (hd (iw_pending iw))) \<noteq> km_Partition msg
            then flush_pending pre iw wd else (True, iw, wd)) of
        (False, iw, wd) \<Rightarrow> (False, iw, wd)
      | (True, iw, wd) \<Rightarrow>
         (case ensureProgress loads (km_Partition msg) iw wd of (ok, iw) \<Rightarrow> (ok, iw, wd)))"

fun consume_step :: "inputWorker \<times> ingest_world \<Rightarrow> consume_event \<Rightarrow> bool \<times> inputWorker \<times> ingest_world" where
  "consume_step (iw, wd) (MessageFetched msg pre loads predead poison commit canceled full) =
     (case begin_message msg pre loads iw wd of
        (False, iw, wd) \<Rightarrow> (False, iw, wd)
      | (True, iw, wd) \<Rightarrow>
         (case prepare msg iw of
            Inl (stage, e) \<Rightarrow> dead_letter msg stage predead poison commit canceled iw wd
          | Inr (record, iw) \<Rightarrow> accept_record record full iw wd))"
| "consume_step (iw, wd) (FlushDeadline ans) =
     (if iw_pending iw = [] then (True, setStatus ActualStatusError ''fetch'' iw, wd)
      else (case flush_pending ans iw wd of (ok, iw, wd) \<Rightarrow> (True, iw, wd)))"
| "consume_step (iw, wd) (FetchFailed canceled) =
     (if canceled then (False, iw, wd) else (True, setStatus ActualStatusError ''fetch'' iw, wd))"

text \<open>The deferred function of \<open>consume\<close>, run on every way out of the loop.\<close>

definition consume_exit :: "bool \<Rightarrow> flush_answers \<Rightarrow> inputWorker \<Rightarrow> ingest_world \<Rightarrow> inputWorker \<times> ingest_world" where
  "consume_exit flushOnStop ans iw wd =
     (if flushOnStop \<and> iw_pending iw \<noteq> []
      then (case flushBatch ans (iw_pending iw) iw wd of (ok, iw, wd) \<Rightarrow> (iw, wd))
      else (iw, wd))"

subsection \<open>What a message is owed\<close>

text \<open>
  \<open>decode_fact\<close> is what a message means, independently of the worker's state. A message is
  \<open>handled\<close> when the store holds what it is owed: a row of its trade (or of the trade with the same
  raw id), a candle at its key at least as new or closed, a row of its delta, or, when it cannot be
  decoded, its dead-letter record.
\<close>

datatype fact = FTrade Trade | FKline Kline | FDelta OrderBookDelta

definition decode_fact :: "GroupInput \<Rightarrow> KafkaMessage \<Rightarrow> decode_error + fact" where
  "decode_fact input msg =
     (let kind = gi_StreamKind input in
      if kind = StreamKindTrade then map_sum id FTrade (buildTrade input msg)
      else if kind = StreamKindKline then map_sum id FKline (buildKline input msg)
      else if kind = StreamKindOrderBookDelta
      then map_sum id (\<lambda>d. FDelta (d\<lparr>ob_RawPayload := km_Value msg\<rparr>)) (buildOrderBookDelta input msg)
      else Inl (UnsupportedKind kind))"

definition fact_stored :: "fact_db \<Rightarrow> fact \<Rightarrow> bool" where
  "fact_stored db f =
     (case f of
        FTrade t \<Rightarrow> list_ex (\<lambda>x. trade_conflict x (trade_row_of 0 0 t)) (db_trades db)
      | FKline k \<Rightarrow> (case map_of (db_klines db) (kline_key_of k) of
            None \<Rightarrow> False
          | Some row \<Rightarrow> kl_Revision k \<le> kw_revision row \<or> kw_is_closed row)
      | FDelta d \<Rightarrow> list_ex (\<lambda>x. delta_fact x = delta_fact (delta_row_of 0 d)) (db_deltas db))"

definition poisoned :: "GroupInput \<Rightarrow> fact_db \<Rightarrow> KafkaMessage \<Rightarrow> bool" where
  "poisoned input db msg \<longleftrightarrow>
     list_ex (\<lambda>x. pw_input_id x = inputID input \<and> pw_kafka_partition x = km_Partition msg \<and>
                  pw_kafka_offset x = km_Offset msg) (db_poison db)"

definition handled :: "GroupInput \<Rightarrow> fact_db \<Rightarrow> KafkaMessage \<Rightarrow> bool" where
  "handled input db msg =
     (case decode_fact input msg of Inl e \<Rightarrow> poisoned input db msg | Inr f \<Rightarrow> fact_stored db f)"

text \<open>A batch of \<open>r\<close> writes the fact of its message.\<close>

definition carries :: "GroupInput \<Rightarrow> pendingRecord \<Rightarrow> bool" where
  "carries input r \<longleftrightarrow>
     (\<exists>f. decode_fact input (pd_msg r) = Inr f \<and>
        (case f of FTrade t \<Rightarrow> pd_trade r = Some t | FKline k \<Rightarrow> pd_kline r = Some k
                 | FDelta d \<Rightarrow> pd_delta r = Some d))"

lemma kline_present_foldl:
  assumes "k \<in> set ks"
  shows "\<exists>row. map_of (db_klines (foldl (upsert_kline now) db ks)) (kline_key_of k) = Some row \<and>
    (kl_Revision k \<le> kw_revision row \<or> kw_is_closed row)"
proof -
  obtain before rest where ks: "ks = before @ k # rest" using assms by (meson split_list)
  let ?db = "foldl (upsert_kline now) db before"
  have "\<exists>row. map_of (db_klines (upsert_kline now ?db k)) (kline_key_of k) = Some row \<and>
      (kl_Revision k \<le> kw_revision row \<or> kw_is_closed row)"
    unfolding upsert_kline_lookup
    by (cases "map_of (db_klines ?db) (kline_key_of k)")
       (auto simp: kline_overwrites_def kline_row_of_def simp del: map_of_eq_Some_iff)
  then obtain row where row: "map_of (db_klines (upsert_kline now ?db k)) (kline_key_of k) = Some row"
    "kl_Revision k \<le> kw_revision row \<or> kw_is_closed row" by blast
  from upsert_klines_mono [OF row(1), of now rest] row(2) show ?thesis
    unfolding ks foldl_append foldl_Cons candle_le_def by force
qed

lemma fact_stored_seq [simp]: "fact_stored (db\<lparr>db_trade_seq := n\<rparr>) f = fact_stored db f"
  by (cases f) (simp_all add: fact_stored_def)

lemma fact_stored_applied:
  assumes v: "validateFactBatch batch = None" and st: "fact_stored db f"
  shows "fact_stored (applied now db batch) f"
proof -
  note tables = applied_tables [OF v refl refl refl, of now db]
  show ?thesis
  proof (cases f)
    case (FTrade t)
    with st tables show ?thesis
      using insert_trades_mono by (simp add: fact_stored_def list_ex_iff) blast
  next
    case (FKline k)
    with st obtain row where row: "map_of (db_klines db) (kline_key_of k) = Some row"
      "kl_Revision k \<le> kw_revision row \<or> kw_is_closed row"
      by (auto simp: fact_stored_def simp del: map_of_eq_Some_iff split: option.splits)
    from upsert_klines_mono [OF row(1)] obtain new where
      "map_of (db_klines (applied now db batch)) (kline_key_of k) = Some new" "candle_le row new"
      using tables by metis
    with row(2) FKline show ?thesis by (auto simp: fact_stored_def candle_le_def)
  next
    case (FDelta d)
    with st tables show ?thesis by (auto simp: fact_stored_def list_ex_iff)
  qed
qed

lemma handled_write:
  assumes "handled input db msg"
  shows "handled input (snd (WriteFactBatch fault now db batch)) msg"
proof (rule WriteFactBatch_induct)
  fix n show "handled input (db\<lparr>db_trade_seq := n\<rparr>) msg"
    using assms by (simp add: handled_def poisoned_def split: sum.splits)
next
  assume v: "validateFactBatch batch = None"
  from applied_tables [OF this refl refl refl, of now db]
  have "db_poison (applied now db batch) = db_poison db" by blast
  then show "handled input (applied now db batch) msg"
    using assms fact_stored_applied [OF v] by (auto simp: handled_def poisoned_def split: sum.splits)
qed

subsection \<open>The log and what is settled\<close>

type_synonym message_log = "goint \<Rightarrow> KafkaMessage list"

definition log_ok :: "message_log \<Rightarrow> bool" where
  "log_ok L \<longleftrightarrow> (\<forall>p. sorted_wrt (\<lambda>a b. km_Offset a < km_Offset b) (L p) \<and>
     (\<forall>m \<in> set (L p). km_Partition m = p))"

text \<open>\<open>X\<close> holds the messages that were given up on purpose or by failure.\<close>

definition settled :: "GroupInput \<Rightarrow> KafkaMessage set \<Rightarrow> fact_db \<Rightarrow> KafkaMessage \<Rightarrow> bool" where
  "settled input X db m \<longleftrightarrow> m \<in> X \<or> handled input db m"

definition covered :: "GroupInput \<Rightarrow> message_log \<Rightarrow> KafkaMessage set \<Rightarrow> fact_db \<Rightarrow> goint \<Rightarrow> int64 \<Rightarrow> bool" where
  "covered input L X db p c \<longleftrightarrow> (\<forall>m \<in> set (L p). km_Offset m \<le> c \<longrightarrow> settled input X db m)"

definition db_covered :: "GroupInput \<Rightarrow> message_log \<Rightarrow> KafkaMessage set \<Rightarrow> fact_db \<Rightarrow> bool" where
  "db_covered input L X db \<longleftrightarrow> (\<forall>p. covered input L X db p (durable_of db (inputID input, p)))"

text \<open>The records of one flush, with everything before the last of them in the log accounted for.\<close>

definition batch_ready ::
  "GroupInput \<Rightarrow> message_log \<Rightarrow> KafkaMessage set \<Rightarrow> fact_db \<Rightarrow> pendingRecord list \<Rightarrow> bool" where
  "batch_ready input L X db rs \<longleftrightarrow>
     (\<exists>p. \<forall>r \<in> set rs. pd_msg r \<in> set (L p)) \<and>
     (\<forall>r \<in> set rs. settled input X db (pd_msg r) \<or> carries input r) \<and>
     (\<forall>m \<in> set (L (km_Partition (pd_msg (last rs)))). rs \<noteq> [] \<longrightarrow>
        km_Offset m \<le> km_Offset (pd_msg (last rs)) \<longrightarrow>
        settled input X db m \<or> m \<in> pd_msg ` set rs)"

lemma settled_mono:
  assumes "settled input X db m" "X \<subseteq> Y" "\<And>m. handled input db m \<Longrightarrow> handled input db' m"
  shows "settled input Y db' m"
  using assms by (auto simp: settled_def)

lemma covered_mono:
  assumes "covered input L X db p c" "X \<subseteq> Y" "\<And>m. handled input db m \<Longrightarrow> handled input db' m"
  shows "covered input L Y db' p c"
  using assms unfolding covered_def settled_def by blast

lemma batch_ready_mono:
  assumes "batch_ready input L X db rs" "X \<subseteq> Y" "\<And>m. handled input db m \<Longrightarrow> handled input db' m"
  shows "batch_ready input L Y db' rs"
  using assms unfolding batch_ready_def settled_def by blast

lemma db_covered_mono:
  assumes "db_covered input L X db" "X \<subseteq> Y" "\<And>m. handled input db m \<Longrightarrow> handled input db' m"
    and "\<And>p. durable_of db' (inputID input, p) = durable_of db (inputID input, p)"
  shows "db_covered input L Y db'"
  using assms covered_mono unfolding db_covered_def by metis

lemma validateFactBatch_rows:
  assumes "validateFactBatch batch = None" "p = fb_Progress batch"
  shows "t \<in> set (fb_Trades batch) \<Longrightarrow> trade_coord t = (wp_InputID p, wp_KafkaPartition p, tr_KafkaOffset t) \<and>
      tr_KafkaOffset t \<le> wp_DurableOffset p"
    and "k \<in> set (fb_Klines batch) \<Longrightarrow> kline_coord k = (wp_InputID p, wp_KafkaPartition p, kl_KafkaOffset k) \<and>
      kl_KafkaOffset k \<le> wp_DurableOffset p"
proof -
  from assms have v: "validate_rows TradeFact p (-1) (map trade_coord (fb_Trades batch)) = None"
    "validate_rows KlineFact p (-1) (map kline_coord (fb_Klines batch)) = None"
    by (simp_all add: validateFactBatch_def Let_def split: if_splits option.splits)
  then show "t \<in> set (fb_Trades batch) \<Longrightarrow> trade_coord t = (wp_InputID p, wp_KafkaPartition p, tr_KafkaOffset t) \<and>
      tr_KafkaOffset t \<le> wp_DurableOffset p"
    and "k \<in> set (fb_Klines batch) \<Longrightarrow> kline_coord k = (wp_InputID p, wp_KafkaPartition p, kl_KafkaOffset k) \<and>
      kl_KafkaOffset k \<le> wp_DurableOffset p"
    by (auto simp: validate_rows_None_iff list_all_iff trade_coord_def kline_coord_def)
qed

text \<open>A fact of the batch above the durable offset is stored by applying the batch.\<close>

lemma applied_stores:
  assumes v: "validateFactBatch batch = None" and p: "p = fb_Progress batch"
    and d: "d = durable_of db (wp_InputID p, wp_KafkaPartition p)"
  shows "t \<in> set (fb_Trades batch) \<Longrightarrow> d < tr_KafkaOffset t \<Longrightarrow> fact_stored (applied now db batch) (FTrade t)"
    and "k \<in> set (fb_Klines batch) \<Longrightarrow> d < kl_KafkaOffset k \<Longrightarrow> fact_stored (applied now db batch) (FKline k)"
    and "x \<in> set (fb_OrderBookDeltas batch) \<Longrightarrow> d < ob_KafkaOffset x \<Longrightarrow>
      fact_stored (applied now db batch) (FDelta x)"
proof -
  note tables = applied_tables [OF v p refl d, of now]
  note rows = validateFactBatch_rows [OF v p]
  show "fact_stored (applied now db batch) (FTrade t)" if t: "t \<in> set (fb_Trades batch)" "d < tr_KafkaOffset t"
  proof -
    have "t \<in> set (tradesAfterOffset (fb_Trades batch) p d)"
      using t rows(1) [OF t(1)] by (simp add: tradesAfterOffset_def trade_coord_def)
    from insert_trades_present [OF this, of now db] show ?thesis
      using tables by (simp add: fact_stored_def list_ex_iff)
  qed
  show "fact_stored (applied now db batch) (FKline k)" if k: "k \<in> set (fb_Klines batch)" "d < kl_KafkaOffset k"
  proof -
    have "k \<in> set (klinesAfterOffset (fb_Klines batch) p d)"
      using k rows(2) [OF k(1)] by (simp add: klinesAfterOffset_def kline_coord_def)
    from kline_present_foldl [OF this, of now db] show ?thesis
      using tables by (auto simp: fact_stored_def)
  qed
  show "fact_stored (applied now db batch) (FDelta x)"
    if x: "x \<in> set (fb_OrderBookDeltas batch)" "d < ob_KafkaOffset x"
  proof -
    have "x \<in> set (deltasAfterOffset (fb_OrderBookDeltas batch) p d)"
      using x validateFactBatch_deltas(1) [OF v p] by (auto simp: deltasAfterOffset_def list_all_iff)
    then have "delta_row_of now x \<in> set (db_deltas (applied now db batch))" using tables by simp
    then show ?thesis using delta_fact_of by (fastforce simp: fact_stored_def list_ex_iff)
  qed
qed

lemma built_offset:
  "buildTrade input msg = Inr t \<Longrightarrow> tr_KafkaOffset t = km_Offset msg"
  "buildKline input msg = Inr k \<Longrightarrow> kl_KafkaOffset k = km_Offset msg"
  "buildOrderBookDelta input msg = Inr d \<Longrightarrow> ob_KafkaOffset d = km_Offset msg"
  by (auto simp: buildTrade_def buildKline_def buildOrderBookDelta_def bind_r_Inr_iff toTrade_def
      toKline_def toOrderBookDelta_def split: option.splits)

lemma map_sum_Inr_iff: "map_sum id g x = Inr y \<longleftrightarrow> (\<exists>z. x = Inr z \<and> y = g z)"
  by (cases x) auto

lemma decode_fact_offset:
  "decode_fact input msg = Inr (FTrade t) \<Longrightarrow> tr_KafkaOffset t = km_Offset msg"
  "decode_fact input msg = Inr (FKline k) \<Longrightarrow> kl_KafkaOffset k = km_Offset msg"
  "decode_fact input msg = Inr (FDelta d) \<Longrightarrow> ob_KafkaOffset d = km_Offset msg"
  by (auto simp: decode_fact_def Let_def map_sum_Inr_iff built_offset split: if_splits)

lemma batch_of_simps [simp]:
  "fb_Trades (batch_of iw rs) = List.map_filter pd_trade rs"
  "fb_Klines (batch_of iw rs) = List.map_filter pd_kline rs"
  "fb_OrderBookDeltas (batch_of iw rs) = List.map_filter pd_delta rs"
  "wp_InputID (fb_Progress (batch_of iw rs)) = inputID (iw_input iw)"
  "wp_KafkaPartition (fb_Progress (batch_of iw rs)) = km_Partition (pd_msg (last rs))"
  "wp_DurableOffset (fb_Progress (batch_of iw rs)) = km_Offset (pd_msg (last rs))"
  by (simp_all add: batch_of_def Let_def)

lemma applied_carries:
  assumes v: "validateFactBatch (batch_of iw rs) = None" and r: "r \<in> set rs" "carries (iw_input iw) r"
    and d: "durable_of db (inputID (iw_input iw), km_Partition (pd_msg (last rs))) < km_Offset (pd_msg r)"
  shows "handled (iw_input iw) (applied now db (batch_of iw rs)) (pd_msg r)"
proof -
  obtain f where f: "decode_fact (iw_input iw) (pd_msg r) = Inr f"
    "case f of FTrade t \<Rightarrow> pd_trade r = Some t | FKline k \<Rightarrow> pd_kline r = Some k | FDelta d \<Rightarrow> pd_delta r = Some d"
    using r(2) unfolding carries_def by blast
  have mf: "pd r = Some y \<Longrightarrow> y \<in> set (List.map_filter pd rs)" for pd :: "pendingRecord \<Rightarrow> 'x option" and y
    using r(1) by (force simp: List.map_filter_def)
  note stores = applied_stores [OF v refl refl, of _ db now, unfolded batch_of_simps]
  have "fact_stored (applied now db (batch_of iw rs)) f"
  proof (cases f)
    case (FTrade t)
    with f d show ?thesis by (auto intro!: stores(1) mf simp: decode_fact_offset)
  next
    case (FKline k)
    with f d show ?thesis by (auto intro!: stores(2) mf simp: decode_fact_offset)
  next
    case (FDelta x)
    with f d show ?thesis by (auto intro!: stores(3) mf simp: decode_fact_offset)
  qed
  with f(1) show ?thesis by (simp add: handled_def)
qed

subsection \<open>Flushing settles the batch\<close>

definition grows :: "GroupInput \<Rightarrow> fact_db \<Rightarrow> fact_db \<Rightarrow> bool" where
  "grows input db db' \<longleftrightarrow> (\<forall>m. handled input db m \<longrightarrow> handled input db' m)"

lemma grows_refl [simp]: "grows input db db"
  by (simp add: grows_def)

lemma grows_trans: "grows input a b \<Longrightarrow> grows input b c \<Longrightarrow> grows input a c"
  by (simp add: grows_def)

lemmas grows_monos = settled_mono [OF _ subset_refl] covered_mono [OF _ subset_refl]
  batch_ready_mono [OF _ subset_refl]

lemma batch_ready_partition:
  assumes "batch_ready input L X db rs" "log_ok L" "r \<in> set rs"
  shows "pd_msg r \<in> set (L (km_Partition (pd_msg (last rs))))"
proof -
  obtain p where p: "\<forall>r \<in> set rs. pd_msg r \<in> set (L p)" using assms(1) by (auto simp: batch_ready_def)
  have "last rs \<in> set rs" using assms(3) by (cases rs) auto
  with p assms(2) have "km_Partition (pd_msg (last rs)) = p" by (auto simp: log_ok_def)
  with p assms(3) show ?thesis by blast
qed

lemma batch_covered:
  assumes "batch_ready input L X db rs" "rs \<noteq> []" "\<forall>r \<in> set rs. settled input X db (pd_msg r)"
  shows "covered input L X db (km_Partition (pd_msg (last rs))) (km_Offset (pd_msg (last rs)))"
  using assms unfolding batch_ready_def covered_def by blast

lemma applied_settles:
  assumes cov: "db_covered (iw_input iw) L X db" and ready: "batch_ready (iw_input iw) L X db rs"
    and "log_ok L" "rs \<noteq> []" and v: "validateFactBatch (batch_of iw rs) = None"
    and db'_def: "db' = applied now db (batch_of iw rs)"
  shows "\<forall>r \<in> set rs. settled (iw_input iw) X db' (pd_msg r)"
    and "db_covered (iw_input iw) L X db'"
proof -
  have grow: "handled (iw_input iw) db m \<Longrightarrow> handled (iw_input iw) db' m" for m
    using handled_write [of _ db m NoFault now] by (simp add: db'_def applied_def)
  show all: "\<forall>r \<in> set rs. settled (iw_input iw) X db' (pd_msg r)"
  proof
    fix r assume r: "r \<in> set rs"
    consider "settled (iw_input iw) X db (pd_msg r)"
      | "carries (iw_input iw) r" "durable_of db (inputID (iw_input iw), km_Partition (pd_msg (last rs))) < km_Offset (pd_msg r)"
      using ready r cov batch_ready_partition [OF ready \<open>log_ok L\<close> r]
      unfolding batch_ready_def db_covered_def covered_def by (meson not_le)
    then show "settled (iw_input iw) X db' (pd_msg r)"
    proof cases
      case 1 then show ?thesis using grow by (rule settled_mono [OF _ subset_refl])
    next
      case 2 then show ?thesis using applied_carries [OF v r] by (simp add: settled_def db'_def)
    qed
  qed
  have last: "covered (iw_input iw) L X db' (km_Partition (pd_msg (last rs))) (km_Offset (pd_msg (last rs)))"
    by (rule batch_covered [OF batch_ready_mono [OF ready subset_refl grow] \<open>rs \<noteq> []\<close> all])
  show "db_covered (iw_input iw) L X db'"
    unfolding db_covered_def
  proof
    fix p
    have "covered (iw_input iw) L X db' p (durable_of db (inputID (iw_input iw), p))"
      using cov grow covered_mono [OF _ subset_refl] unfolding db_covered_def by blast
    then show "covered (iw_input iw) L X db' p (durable_of db' (inputID (iw_input iw), p))"
      using last by (auto simp: db'_def applied_durable [OF v refl] max_def)
  qed
qed

lemma write_batch_step:
  assumes "db_covered (iw_input iw) L X db" "batch_ready (iw_input iw) L X db rs" "log_ok L" "rs \<noteq> []"
    and w: "WriteFactBatch fault now db (batch_of iw rs) = (err, db')"
  shows "db_covered (iw_input iw) L X db'" "grows (iw_input iw) db db'"
    and "err = None \<Longrightarrow> \<forall>r \<in> set rs. settled (iw_input iw) X db' (pd_msg r)"
proof -
  let ?batch = "batch_of iw rs"
  have seq: "db_covered (iw_input iw) L X (db\<lparr>db_trade_seq := n\<rparr>)" for n
    by (rule db_covered_mono [OF assms(1) subset_refl])
       (simp_all add: handled_def poisoned_def split: sum.splits)
  note settles = applied_settles [OF assms(1-4) _ refl, of now]
  have "db_covered (iw_input iw) L X (snd (WriteFactBatch fault now db ?batch))"
    by (rule WriteFactBatch_induct) (rule seq, rule settles(2))
  then show "db_covered (iw_input iw) L X db'" by (simp add: w)
  show "grows (iw_input iw) db db'"
    using handled_write [of _ db _ fault now ?batch] by (simp add: grows_def w)
  assume "err = None"
  with w have "validateFactBatch ?batch = None"
    by (auto simp: WriteFactBatch_def Let_def split: option.splits)
  moreover have "db' = applied now db ?batch"
    using WriteFactBatch_outcome [of db now ?batch fault] \<open>err = None\<close> by (simp add: outcome_ok_def w)
  ultimately show "\<forall>r \<in> set rs. settled (iw_input iw) X db' (pd_msg r)" using settles(1) by simp
qed

text \<open>A retry loop changes only the reported status of the worker.\<close>

definition only_status :: "inputWorker \<Rightarrow> inputWorker \<Rightarrow> bool" where
  "only_status iw iw' \<longleftrightarrow> (\<exists>s e. iw' = iw\<lparr>iw_status := s, iw_lastErr := e\<rparr>)"

lemma only_status_refl [simp]: "only_status iw iw"
proof -
  have "iw = iw\<lparr>iw_status := iw_status iw, iw_lastErr := iw_lastErr iw\<rparr>" by simp
  then show ?thesis unfolding only_status_def by blast
qed

lemma only_status_set: "only_status (setStatus s e iw) iw' \<Longrightarrow> only_status iw iw'"
  by (auto simp: only_status_def setStatus_def)

lemma only_status_fields:
  assumes "only_status iw iw'"
  shows "iw_input iw' = iw_input iw" "iw_pending iw' = iw_pending iw" "iw_loaded iw' = iw_loaded iw"
    "iw_durable iw' = iw_durable iw" "iw_lastDelta iw' = iw_lastDelta iw" "iw_batch iw' = iw_batch iw"
  using assms by (auto simp: only_status_def)

lemma write_loop_ok:
  assumes "write_loop ws (batch_of iw rs) iw0 wd = (ok, iw', wd')"
    and "db_covered (iw_input iw) L X (wd_db wd)" "batch_ready (iw_input iw) L X (wd_db wd) rs"
    and "log_ok L" "rs \<noteq> []"
  shows "only_status iw0 iw' \<and> wd' = wd\<lparr>wd_db := wd_db wd'\<rparr> \<and>
    db_covered (iw_input iw) L X (wd_db wd') \<and> grows (iw_input iw) (wd_db wd) (wd_db wd') \<and>
    (ok \<longrightarrow> (\<forall>r \<in> set rs. settled (iw_input iw) X (wd_db wd') (pd_msg r)))"
  using assms(1-3)
proof (induction ws arbitrary: iw0 wd)
  case (Cons a ws)
  obtain fault now canceled where a: "a = (fault, now, canceled)" by (cases a)
  obtain err db where w: "WriteFactBatch fault now (wd_db wd) (batch_of iw rs) = (err, db)" by fastforce
  note step = write_batch_step [OF Cons.prems(2,3) assms(4,5) w]
  show ?case
  proof (cases err)
    case None
    with Cons.prems(1) step show ?thesis by (auto simp: a w)
  next
    case (Some e)
    show ?thesis
    proof (cases canceled)
      case True
      with Some Cons.prems(1) step show ?thesis by (auto simp: a w)
    next
      case False
      let ?wd = "wd\<lparr>wd_db := db\<rparr>" and ?iw = "setStatus ActualStatusError ''write'' iw0"
      have rec: "write_loop ws (batch_of iw rs) ?iw ?wd = (ok, iw', wd')"
        using Cons.prems(1) Some False by (simp add: a w)
      have "batch_ready (iw_input iw) L X db rs"
        using step(2) batch_ready_mono [OF Cons.prems(3) subset_refl] by (auto simp: grows_def)
      from Cons.IH [OF rec] step(1) this show ?thesis
        using step(2) by (auto dest: only_status_set intro: grows_trans)
    qed
  qed
qed simp

lemma commit_loop_ok:
  "commit_loop cs msg iw wd = (ok, iw', wd') \<Longrightarrow>
   only_status iw iw' \<and> wd_db wd' = wd_db wd \<and>
   (wd_committed wd' = wd_committed wd \<or>
    wd_committed wd' = (wd_committed wd)(km_Partition msg \<mapsto> km_Offset msg))"
proof (induction cs arbitrary: iw wd)
  case (Cons a cs)
  obtain outcome canceled where a: "a = (outcome, canceled)" by (cases a)
  show ?case
  proof (cases "outcome = CommitOk \<or> canceled")
    case True
    with Cons.prems show ?thesis by (auto simp: a Let_def commit_offset_def split: if_splits)
  next
    case False
    with Cons.prems have "commit_loop cs msg (setStatus ActualStatusError ''commit'' iw)
        (commit_offset outcome msg wd) = (ok, iw', wd')" by (simp add: a Let_def)
    from Cons.IH [OF this] show ?thesis
      by (auto simp: commit_offset_def dest: only_status_set split: if_splits)
  qed
qed simp

subsection \<open>The state of a worker and its turns\<close>

definition world_ok :: "GroupInput \<Rightarrow> message_log \<Rightarrow> KafkaMessage set \<Rightarrow> inputWorker \<Rightarrow> ingest_world \<Rightarrow> bool" where
  "world_ok input L X iw wd \<longleftrightarrow>
     iw_input iw = input \<and> db_covered input L X (wd_db wd) \<and>
     (\<forall>p c. wd_committed wd p = Some c \<longrightarrow> covered input L X (wd_db wd) p c) \<and>
     (\<forall>p d. iw_durable iw p = Some d \<longrightarrow> covered input L X (wd_db wd) p d) \<and>
     (\<forall>p. iw_loaded iw p \<longrightarrow> iw_durable iw p \<noteq> None)"

definition fetched_ok ::
  "GroupInput \<Rightarrow> message_log \<Rightarrow> KafkaMessage set \<Rightarrow> (goint \<Rightarrow> nat) \<Rightarrow> fact_db \<Rightarrow> pendingRecord list \<Rightarrow> bool" where
  "fetched_ok input L X nxt db rs \<longleftrightarrow>
     (\<forall>p. \<forall>m \<in> set (take (nxt p) (L p)). settled input X db m \<or> m \<in> pd_msg ` set rs)"

definition ingest_ok ::
  "GroupInput \<Rightarrow> message_log \<Rightarrow> KafkaMessage set \<Rightarrow> (goint \<Rightarrow> nat) \<Rightarrow> inputWorker \<Rightarrow> ingest_world \<Rightarrow> bool" where
  "ingest_ok input L X nxt iw wd \<longleftrightarrow>
     world_ok input L X iw wd \<and> batch_ready input L X (wd_db wd) (iw_pending iw) \<and>
     fetched_ok input L X nxt (wd_db wd) (iw_pending iw)"

lemma world_ok_db:
  assumes "world_ok input L X iw wd" "grows input (wd_db wd) db" "db_covered input L X db"
  shows "world_ok input L X iw (wd\<lparr>wd_db := db\<rparr>)"
proof -
  have "covered input L X (wd_db wd) p c \<Longrightarrow> covered input L X db p c" for p c
    using assms(2) covered_mono [OF _ subset_refl] unfolding grows_def by blast
  with assms(1,3) show ?thesis unfolding world_ok_def by simp
qed

lemma world_ok_commit:
  assumes "world_ok input L X iw wd" "covered input L X (wd_db wd) p c" "wd_db wd' = wd_db wd"
    and "wd_committed wd' = wd_committed wd \<or> wd_committed wd' = (wd_committed wd)(p \<mapsto> c)"
  shows "world_ok input L X iw wd'"
  using assms by (auto simp: world_ok_def split: if_splits)

lemma world_ok_worker:
  assumes "world_ok input L X iw wd" "iw_input iw' = iw_input iw" "iw_loaded iw' = iw_loaded iw"
    and "iw_durable iw' = iw_durable iw \<or>
      (\<exists>p d. iw_durable iw' = (iw_durable iw)(p \<mapsto> d) \<and> covered input L X (wd_db wd) p d)"
  shows "world_ok input L X iw' wd"
  using assms by (auto simp: world_ok_def split: if_splits)

lemma flushBatch_ok:
  assumes fl: "flushBatch ans rs iw wd = (ok, iw', wd')"
    and ok: "world_ok input L X iw wd" and ready: "batch_ready input L X (wd_db wd) rs" and "log_ok L"
  shows "world_ok input L X iw' wd' \<and> grows input (wd_db wd) (wd_db wd') \<and>
    iw_pending iw' = iw_pending iw \<and> iw_loaded iw' = iw_loaded iw \<and> iw_batch iw' = iw_batch iw \<and>
    iw_lastDelta iw' = iw_lastDelta iw \<and> (ok \<longrightarrow> (\<forall>r \<in> set rs. settled input X (wd_db wd') (pd_msg r)))"
proof (cases "rs = []")
  case True
  with fl ok show ?thesis by (simp add: flushBatch_def)
next
  case False
  have input: "iw_input iw = input" and cov: "db_covered input L X (wd_db wd)"
    using ok by (simp_all add: world_ok_def)
  let ?p = "km_Partition (pd_msg (last rs))" and ?c = "km_Offset (pd_msg (last rs))"
  obtain wok iw1 wd1 where w: "write_loop (fa_writes ans) (batch_of iw rs) iw wd = (wok, iw1, wd1)"
    by (metis prod_cases3)
  note wl = write_loop_ok [OF w, unfolded input, OF cov ready \<open>log_ok L\<close> False]
  have iw1: "only_status iw iw1" and grow: "grows input (wd_db wd) (wd_db wd1)" using wl by blast+
  have ok1: "world_ok input L X iw1 wd1"
    using world_ok_db [OF ok] wl world_ok_worker only_status_fields [OF iw1] by metis
  show ?thesis
  proof (cases wok)
    case False
    with fl w \<open>rs \<noteq> []\<close> ok1 grow only_status_fields [OF iw1] show ?thesis
      by (simp add: flushBatch_def Let_def)
  next
    case True
    with wl have all: "\<forall>r \<in> set rs. settled input X (wd_db wd1) (pd_msg r)" by blast
    have cov1: "covered input L X (wd_db wd1) ?p ?c"
      using grow by (intro batch_covered [OF batch_ready_mono [OF ready subset_refl] False all])
        (simp add: grows_def)
    obtain cok iw2 wd2 where c: "commit_loop (fa_commits ans) (pd_msg (last rs)) iw1 wd1 = (cok, iw2, wd2)"
      by (metis prod_cases3)
    note cl = commit_loop_ok [OF c]
    have iw2: "only_status iw1 iw2" and db2: "wd_db wd2 = wd_db wd1" using cl by blast+
    have "world_ok input L X iw1 wd2" using world_ok_commit [OF ok1 cov1] cl by blast
    then have ok2: "world_ok input L X iw2 wd2"
      using world_ok_worker only_status_fields [OF iw2] by metis
    note fields = only_status_fields [OF iw1] only_status_fields [OF iw2]
    show ?thesis
    proof (cases cok)
      case False
      with fl w c \<open>rs \<noteq> []\<close> \<open>wok\<close> ok2 grow fields db2 show ?thesis
        by (simp add: flushBatch_def Let_def)
    next
      case True
      have fin: "ok" "iw_input iw' = iw_input iw2" "iw_loaded iw' = iw_loaded iw2"
        "iw_pending iw' = iw_pending iw2" "iw_batch iw' = iw_batch iw2" "iw_lastDelta iw' = iw_lastDelta iw2"
        "iw_durable iw' = (iw_durable iw2)(?p \<mapsto> ?c)"
        "wd_db wd' = wd_db wd2" "wd_committed wd' = wd_committed wd2"
        using fl w c \<open>rs \<noteq> []\<close> \<open>wok\<close> True
        by (auto simp: flushBatch_def Let_def advance_def setStatus_def)
      have "world_ok input L X iw' wd2"
        by (rule world_ok_worker [OF ok2 fin(2,3)]) (use fin(7) cov1 db2 in auto)
      then have "world_ok input L X iw' wd'" using fin(8,9) by (simp add: world_ok_def)
      with fin grow fields db2 all show ?thesis by simp
    qed
  qed
qed

lemma fetched_ok_mono:
  assumes "fetched_ok input L X nxt db rs" "X \<subseteq> Y" "grows input db db'"
    and "\<And>r. r \<in> set rs \<Longrightarrow> settled input Y db' (pd_msg r) \<or> r \<in> set rs'"
  shows "fetched_ok input L Y nxt db' rs'"
  unfolding fetched_ok_def
proof (intro allI ballI)
  fix p m assume m: "m \<in> set (take (nxt p) (L p))"
  consider "settled input X db m" | "m \<in> pd_msg ` set rs" using assms(1) m unfolding fetched_ok_def by blast
  then show "settled input Y db' m \<or> m \<in> pd_msg ` set rs'"
  proof cases
    case 1 then show ?thesis using assms(2,3) settled_mono unfolding grows_def by blast
  next
    case 2 then show ?thesis using assms(4) by blast
  qed
qed

lemma flush_pending_ok:
  assumes fl: "flush_pending ans iw wd = (ok, iw', wd')"
    and ok: "ingest_ok input L X nxt iw wd" and "log_ok L"
  shows "ingest_ok input L X nxt iw' wd' \<and> (ok \<longrightarrow> iw_pending iw' = []) \<and>
    (\<not> ok \<longrightarrow> iw_pending iw' = iw_pending iw) \<and> iw_loaded iw' = iw_loaded iw"
proof -
  obtain iw1 where f: "flushBatch ans (iw_pending iw) iw wd = (ok, iw1, wd')"
    and iw': "iw' = (if ok then iw1\<lparr>iw_pending := []\<rparr> else iw1)"
    using fl by (auto simp: flush_pending_def split: prod.splits bool.splits)
  have w: "world_ok input L X iw wd" "batch_ready input L X (wd_db wd) (iw_pending iw)"
    "fetched_ok input L X nxt (wd_db wd) (iw_pending iw)"
    using ok by (simp_all add: ingest_ok_def)
  note fb = flushBatch_ok [OF f w(1,2) \<open>log_ok L\<close>]
  have grow: "grows input (wd_db wd) (wd_db wd')" using fb by blast
  have "world_ok input L X iw' wd'" using fb iw' by (auto simp: world_ok_def)
  moreover have "batch_ready input L X (wd_db wd') (iw_pending iw')"
    using batch_ready_mono [OF w(2) subset_refl] grow fb iw'
    by (auto simp: grows_def batch_ready_def split: if_splits)
  moreover have "fetched_ok input L X nxt (wd_db wd') (iw_pending iw')"
    by (rule fetched_ok_mono [OF w(3) subset_refl grow]) (use fb iw' in auto)
  ultimately show ?thesis using fb iw' by (simp add: ingest_ok_def)
qed

subsection \<open>One turn keeps the account\<close>

lemma ingest_ok_mono:
  assumes "ingest_ok input L X nxt iw wd" "X \<subseteq> Y"
  shows "ingest_ok input L Y nxt iw wd"
proof -
  have "world_ok input L Y iw wd"
    using assms covered_mono [OF _ assms(2)] db_covered_mono [OF _ assms(2)]
    unfolding ingest_ok_def world_ok_def by blast
  then show ?thesis
    using assms batch_ready_mono [OF _ assms(2)] fetched_ok_mono [OF _ assms(2) grows_refl]
    unfolding ingest_ok_def by blast
qed

text \<open>Only the input, the pending records and the offsets of the worker matter.\<close>

lemma ingest_ok_worker:
  assumes "ingest_ok input L X nxt iw wd" "iw_input iw' = iw_input iw" "iw_loaded iw' = iw_loaded iw"
    and "iw_durable iw' = iw_durable iw" "iw_pending iw' = iw_pending iw"
  shows "ingest_ok input L X nxt iw' wd"
  using assms by (simp add: ingest_ok_def world_ok_def)

definition adopted :: "goint \<Rightarrow> StreamWriteProgress option \<Rightarrow> int64" where
  "adopted part progress = (case progress of None \<Rightarrow> -1 | Some p \<Rightarrow> wp_DurableOffset p)"

lemma adopt_progress_fields:
  "iw_input (adopt_progress part progress iw) = iw_input iw"
  "iw_pending (adopt_progress part progress iw) = iw_pending iw"
  "iw_loaded (adopt_progress part progress iw) = (iw_loaded iw)(part := True)"
  "iw_durable (adopt_progress part progress iw) = (iw_durable iw)(part \<mapsto> adopted part progress)"
  by (cases progress; simp add: adopt_progress_def Let_def adopted_def)+

lemma load_loop_ok:
  assumes "load_loop ls part iw wd = (ok, iw')" "ingest_ok input L X nxt iw wd"
  shows "ingest_ok input L X nxt iw' wd \<and> iw_pending iw' = iw_pending iw \<and> (ok \<longrightarrow> iw_loaded iw' part)"
  using assms
proof (induction ls arbitrary: iw)
  case (Cons a ls)
  obtain fails canceled where a: "a = (fails, canceled)" by (cases a)
  show ?case
  proof (cases fails)
    case True
    have "ingest_ok input L X nxt (setStatus ActualStatusError ''load progress'' iw) wd"
      by (rule ingest_ok_worker [OF Cons.prems(2)]) (simp_all add: setStatus_def)
    with Cons.IH [of "setStatus ActualStatusError ''load progress'' iw"] Cons.prems True show ?thesis
      by (auto simp: a LoadStreamWriteProgress_def setStatus_def split: if_splits)
  next
    case False
    then obtain pr where pr: "LoadStreamWriteProgress fails (wd_db wd) (inputID (iw_input iw)) part = Inr pr"
      "adopted part pr = durable_of (wd_db wd) (inputID (iw_input iw), part)"
      by (cases "db_progress (wd_db wd) (inputID (iw_input iw), part)")
         (auto simp: LoadStreamWriteProgress_def adopted_def durable_of_def)
    then have iw': "ok" "iw' = adopt_progress part pr iw" using Cons.prems(1) by (auto simp: a)
    have "covered input L X (wd_db wd) part (adopted part pr)"
      using Cons.prems(2) pr(2) by (simp add: ingest_ok_def world_ok_def db_covered_def)
    then have "ingest_ok input L X nxt iw' wd"
      using Cons.prems(2) iw'(2)
      by (auto simp: ingest_ok_def world_ok_def adopt_progress_fields split: if_splits)
    with iw' show ?thesis by (simp add: adopt_progress_fields)
  qed
qed simp

lemma begin_message_ok:
  assumes b: "begin_message msg pre loads iw wd = (ok, iw', wd')"
    and ok: "ingest_ok input L X nxt iw wd" and "log_ok L"
  shows "ingest_ok input L X nxt iw' wd'"
    and "ok \<Longrightarrow> iw_loaded iw' (km_Partition msg)"
    and "ok \<Longrightarrow> iw_pending iw' = [] \<or> km_Partition (pd_msg (hd (iw_pending iw'))) = km_Partition msg"
proof -
  let ?c = "iw_pending iw \<noteq> [] \<and> km_Partition (pd_msg (hd (iw_pending iw))) \<noteq> km_Partition msg"
  obtain fok iw1 wd1 where f: "(if ?c then flush_pending pre iw wd else (True, iw, wd)) = (fok, iw1, wd1)"
    by (metis prod_cases3)
  have one: "ingest_ok input L X nxt iw1 wd1"
    "fok \<Longrightarrow> iw_pending iw1 = [] \<or> km_Partition (pd_msg (hd (iw_pending iw1))) = km_Partition msg"
    using f flush_pending_ok [OF _ ok \<open>log_ok L\<close>] ok by (auto split: if_splits)
  obtain eok iw2 where e: "ensureProgress loads (km_Partition msg) iw1 wd1 = (eok, iw2)" by fastforce
  have two: "ingest_ok input L X nxt iw2 wd1 \<and> iw_pending iw2 = iw_pending iw1 \<and>
      (eok \<longrightarrow> iw_loaded iw2 (km_Partition msg))"
    using e load_loop_ok [OF _ one(1)] one(1) by (auto simp: ensureProgress_def split: if_splits)
  have eqs: "(ok, iw', wd') = (if fok then (eok, iw2, wd1) else (False, iw1, wd1))"
    using b e unfolding begin_message_def f by (auto split: bool.splits)
  show "ingest_ok input L X nxt iw' wd'" using eqs one two by (auto split: if_splits)
  show "ok \<Longrightarrow> iw_loaded iw' (km_Partition msg)" using eqs two by (auto split: if_splits)
  show "ok \<Longrightarrow> iw_pending iw' = [] \<or> km_Partition (pd_msg (hd (iw_pending iw'))) = km_Partition msg"
    using eqs one two by (auto split: if_splits)
qed

text \<open>The gate of a delta stream rejects the message as stale.\<close>

definition gate_rejects :: "inputWorker \<Rightarrow> KafkaMessage \<Rightarrow> bool" where
  "gate_rejects iw msg \<longleftrightarrow>
     gi_StreamKind (iw_input iw) = StreamKindOrderBookDelta \<and>
     (case buildOrderBookDelta (iw_input iw) msg of
        Inl e \<Rightarrow> False
      | Inr d \<Rightarrow> \<not> checkDeltaContinuity (iw_lastDelta iw (km_Partition msg)) d)"

lemmas kind_defs = StreamKindTrade_def StreamKindKline_def StreamKindOrderBookDelta_def

lemma prepare_Inl:
  assumes "prepare msg iw = Inl (stage, e)"
  shows "stage = ''decode'' \<and> decode_fact (iw_input iw) msg = Inl e"
  using assms
  by (auto simp: prepare_def decode_fact_def Let_def split: if_splits sum.splits)

lemma prepare_Inr:
  assumes "prepare msg iw = Inr (r, iw')"
  shows "pd_msg r = msg" "iw_input iw' = iw_input iw" "iw_loaded iw' = iw_loaded iw"
    "iw_durable iw' = iw_durable iw" "iw_pending iw' = iw_pending iw" "iw_batch iw' = iw_batch iw"
    and "carries (iw_input iw) r \<or> gate_rejects iw msg \<or>
      km_Offset msg \<le> (case iw_durable iw (km_Partition msg) of None \<Rightarrow> 0 | Some d \<Rightarrow> d)"
proof -
  show "pd_msg r = msg" "iw_input iw' = iw_input iw" "iw_loaded iw' = iw_loaded iw"
    "iw_durable iw' = iw_durable iw" "iw_pending iw' = iw_pending iw" "iw_batch iw' = iw_batch iw"
    using assms by (auto simp: prepare_def Let_def split: if_splits sum.splits)
  show "carries (iw_input iw) r \<or> gate_rejects iw msg \<or>
      km_Offset msg \<le> (case iw_durable iw (km_Partition msg) of None \<Rightarrow> 0 | Some d \<Rightarrow> d)"
    using assms
    by (auto simp: prepare_def decode_fact_def carries_def gate_rejects_def kind_defs Let_def
        split: if_splits sum.splits)
qed

lemma log_up_to:
  assumes "log_ok L" "i < length (L p)" "m \<in> set (L p)" "km_Offset m \<le> km_Offset (L p ! i)"
  shows "m \<in> set (take (Suc i) (L p))"
proof -
  obtain j where j: "j < length (L p)" "m = L p ! j" using assms(3) by (metis in_set_conv_nth)
  have "\<not> i < j"
  proof
    assume "i < j"
    then have "km_Offset (L p ! i) < km_Offset (L p ! j)"
      using assms(1) j(1) unfolding log_ok_def by (metis sorted_wrt_nth_less)
    then show False using assms(4) j(2) by simp
  qed
  then have "j < length (take (Suc i) (L p))" "take (Suc i) (L p) ! j = m" using j by auto
  then show ?thesis by (metis nth_mem)
qed

lemma append_ok:
  assumes ok: "ingest_ok input L X nxt iw wd" and "log_ok L"
    and p: "p = km_Partition msg" "nxt p < length (L p)" "msg = L p ! nxt p"
    and r: "pd_msg r = msg" "settled input X (wd_db wd) msg \<or> carries input r"
    and part: "iw_pending iw = [] \<or> km_Partition (pd_msg (hd (iw_pending iw))) = p"
  shows "ingest_ok input L X (nxt(p := Suc (nxt p))) (iw\<lparr>iw_pending := iw_pending iw @ [r]\<rparr>) wd"
proof -
  let ?rs = "iw_pending iw @ [r]" and ?db = "wd_db wd"
  have ready: "batch_ready input L X ?db (iw_pending iw)" and fetched: "fetched_ok input L X nxt ?db (iw_pending iw)"
    using ok by (simp_all add: ingest_ok_def)
  have msg: "msg \<in> set (L p)" using p(2,3) by simp
  have "\<forall>x \<in> set (iw_pending iw). pd_msg x \<in> set (L p)"
  proof (cases "iw_pending iw = []")
    case False
    let ?q = "km_Partition (pd_msg (last (iw_pending iw)))"
    have "pd_msg (hd (iw_pending iw)) \<in> set (L ?q)"
      using batch_ready_partition [OF ready \<open>log_ok L\<close>] False by simp
    then have "km_Partition (pd_msg (hd (iw_pending iw))) = ?q" using \<open>log_ok L\<close> unfolding log_ok_def by blast
    with part False have "?q = p" by simp
    then show ?thesis using batch_ready_partition [OF ready \<open>log_ok L\<close>] by blast
  qed simp
  moreover have "\<forall>x \<in> set ?rs. settled input X ?db (pd_msg x) \<or> carries input x"
    using ready r by (auto simp: batch_ready_def)
  moreover have taken: "\<forall>m \<in> set (take (Suc (nxt p)) (L p)). settled input X ?db m \<or> m \<in> pd_msg ` set ?rs"
    using fetched p(2,3) r(1) by (auto simp: fetched_ok_def take_Suc_conv_app_nth)
  then have "\<forall>m \<in> set (L p). km_Offset m \<le> km_Offset msg \<longrightarrow> settled input X ?db m \<or> m \<in> pd_msg ` set ?rs"
    using log_up_to [OF \<open>log_ok L\<close> p(2)] p(3) by blast
  ultimately have "batch_ready input L X ?db ?rs"
    unfolding batch_ready_def using r(1) msg p(1) by (intro conjI exI [of _ p]) auto
  moreover have "fetched_ok input L X (nxt(p := Suc (nxt p))) ?db ?rs"
    using fetched taken by (auto simp: fetched_ok_def)
  ultimately show ?thesis using ok by (simp add: ingest_ok_def world_ok_def)
qed

lemma skip_ok:
  assumes "ingest_ok input L X nxt iw wd" "nxt p < length (L p)" "settled input X (wd_db wd) (L p ! nxt p)"
  shows "ingest_ok input L X (nxt(p := Suc (nxt p))) iw wd"
  using assms by (auto simp: ingest_ok_def fetched_ok_def take_Suc_conv_app_nth)

lemma WritePoisonRecord_outcome:
  assumes "WritePoisonRecord fault db (poison_of iw msg e) = (err, db')"
  shows "grows (iw_input iw) db db'" "durable_of db' = durable_of db"
    and "fault = BatchOk \<longleftrightarrow> err = None" "err = None \<Longrightarrow> poisoned (iw_input iw) db' msg"
proof -
  have tables: "db_trades db' = db_trades db" "db_klines db' = db_klines db" "db_deltas db' = db_deltas db"
    "db_progress db' = db_progress db" "set (db_poison db) \<subseteq> set (db_poison db')"
    using assms by (auto simp: WritePoisonRecord_def Let_def split: batch_fault.splits if_splits)
  have "fact_stored db' f = fact_stored db f" for f
    using tables by (simp add: fact_stored_def split: fact.splits)
  then show "grows (iw_input iw) db db'"
    using tables(5) by (auto simp: grows_def handled_def poisoned_def list_ex_iff split: sum.splits)
  show "durable_of db' = durable_of db" using tables(4) by (simp add: durable_of_def fun_eq_iff)
  show "fault = BatchOk \<longleftrightarrow> err = None" "err = None \<Longrightarrow> poisoned (iw_input iw) db' msg"
    using assms
    by (auto simp: WritePoisonRecord_def Let_def poison_of_def poisoned_def list_ex_iff
        split: batch_fault.splits if_splits)
qed

lemma ingest_ok_db:
  assumes "ingest_ok input L X nxt iw wd" "grows input (wd_db wd) db"
    and "\<And>p. durable_of db (inputID input, p) = durable_of (wd_db wd) (inputID input, p)"
  shows "ingest_ok input L X nxt iw (wd\<lparr>wd_db := db\<rparr>)"
proof -
  have grow: "handled input (wd_db wd) m \<Longrightarrow> handled input db m" for m using assms(2) by (simp add: grows_def)
  have parts: "world_ok input L X iw wd" "batch_ready input L X (wd_db wd) (iw_pending iw)"
    "fetched_ok input L X nxt (wd_db wd) (iw_pending iw)" "db_covered input L X (wd_db wd)"
    using assms(1) by (simp_all add: ingest_ok_def world_ok_def)
  show ?thesis
    unfolding ingest_ok_def
    using world_ok_db [OF parts(1) assms(2) db_covered_mono [OF parts(4) subset_refl grow assms(3)]]
      batch_ready_mono [OF parts(2) subset_refl grow]
      fetched_ok_mono [OF parts(3) subset_refl assms(2)]
    by auto
qed

text \<open>The messages a turn gives up: stale ones, and undecodable ones whose dead letter failed.\<close>

fun stale_of :: "inputWorker \<times> ingest_world \<Rightarrow> consume_event \<Rightarrow> KafkaMessage list" where
  "stale_of (iw, wd) (MessageFetched msg pre loads predead poison commit canceled full) =
     (case begin_message msg pre loads iw wd of
        (ok, iw, wd) \<Rightarrow> if ok \<and> gate_rejects iw msg then [msg] else [])"
| "stale_of s ev = []"

fun undelivered_of :: "GroupInput \<Rightarrow> consume_event \<Rightarrow> KafkaMessage list" where
  "undelivered_of input (MessageFetched msg pre loads predead poison commit canceled full) =
     (if isl (decode_fact input msg) \<and> poison \<noteq> BatchOk then [msg] else [])"
| "undelivered_of input ev = []"

lemma dead_letter_ok:
  assumes dl: "dead_letter msg stage ans poison commit canceled iw wd = (ok, iw', wd')"
    and ok: "ingest_ok input L X nxt iw wd" and "log_ok L"
    and bad: "stage = ''decode''" "decode_fact input msg = Inl e"
    and p: "p = km_Partition msg" "nxt p < length (L p)" "msg = L p ! nxt p"
    and X: "poison \<noteq> BatchOk \<Longrightarrow> msg \<in> X"
  shows "ingest_ok input L X nxt iw' wd' \<and> (ok \<longrightarrow> ingest_ok input L X (nxt(p := Suc (nxt p))) iw' wd')"
proof -
  obtain fok iw1 wd1 where f: "flush_pending ans iw wd = (fok, iw1, wd1)" by (metis prod_cases3)
  note fl = flush_pending_ok [OF f ok \<open>log_ok L\<close>]
  show ?thesis
  proof (cases fok)
    case False
    with dl f fl show ?thesis by (auto simp: dead_letter_def)
  next
    case True
    let ?iw = "setStatus ActualStatusError stage iw1"
    have iw2: "ingest_ok input L X nxt ?iw wd1" "iw_pending ?iw = []" "iw_input ?iw = input"
      using fl True by (auto simp: setStatus_def ingest_ok_def world_ok_def)
    obtain err db where w: "WritePoisonRecord poison (wd_db wd1) (poison_of ?iw msg stage) = (err, db)"
      by fastforce
    note out = WritePoisonRecord_outcome [OF w, unfolded iw2(3)]
    have base: "ingest_ok input L X nxt ?iw (wd1\<lparr>wd_db := db\<rparr>)"
      by (rule ingest_ok_db [OF iw2(1) out(1)]) (simp add: out(2))
    have "settled input X db msg"
      using out(3,4) X bad(2) by (auto simp: settled_def handled_def)
    with skip_ok [OF base p(2)] p(3)
    have skip: "ingest_ok input L X (nxt(p := Suc (nxt p))) ?iw (wd1\<lparr>wd_db := db\<rparr>)" by simp
    have upto: "covered input L X db p (km_Offset msg)"
      unfolding covered_def
    proof (intro ballI impI)
      fix m assume "m \<in> set (L p)" "km_Offset m \<le> km_Offset msg"
      with log_up_to [OF \<open>log_ok L\<close> p(2)] p(3) have "m \<in> set (take (Suc (nxt p)) (L p))" by blast
      moreover have "fetched_ok input L X (nxt(p := Suc (nxt p))) db []"
        using skip iw2(2) by (simp add: ingest_ok_def)
      then have "\<forall>m \<in> set (take (Suc (nxt p)) (L p)). settled input X db m"
        by (metis (no_types, lifting) empty_iff fetched_ok_def fun_upd_same image_empty list.set(1))
      ultimately show "settled input X db m" by blast
    qed
    have co: "ingest_ok input L X n ?iw (commit_offset commit msg (wd1\<lparr>wd_db := db\<rparr>))"
      if "ingest_ok input L X n ?iw (wd1\<lparr>wd_db := db\<rparr>)" for n
    proof -
      have "world_ok input L X ?iw (commit_offset commit msg (wd1\<lparr>wd_db := db\<rparr>))"
        by (rule world_ok_commit [where p = p and c = "km_Offset msg" and wd = "wd1\<lparr>wd_db := db\<rparr>"])
           (use that upto p(1) in \<open>auto simp: ingest_ok_def commit_offset_def\<close>)
      with that show ?thesis by (auto simp: ingest_ok_def commit_offset_def)
    qed
    show ?thesis
      using dl f w True base skip co bad(1)
      by (auto simp: dead_letter_def Let_def isRetryableStage_def split: option.splits)
  qed
qed

fun delivers :: "message_log \<Rightarrow> (goint \<Rightarrow> nat) \<Rightarrow> consume_event \<Rightarrow> bool" where
  "delivers L nxt (MessageFetched msg pre loads predead poison commit canceled full) \<longleftrightarrow>
     nxt (km_Partition msg) < length (L (km_Partition msg)) \<and>
     msg = L (km_Partition msg) ! nxt (km_Partition msg)"
| "delivers L nxt ev \<longleftrightarrow> True"

fun after_fetch :: "(goint \<Rightarrow> nat) \<Rightarrow> consume_event \<Rightarrow> goint \<Rightarrow> nat" where
  "after_fetch nxt (MessageFetched msg pre loads predead poison commit canceled full) =
     nxt(km_Partition msg := Suc (nxt (km_Partition msg)))"
| "after_fetch nxt ev = nxt"

lemma accept_record_ok:
  assumes a: "accept_record r ans iw wd = (go, iw', wd')"
    and ok: "ingest_ok input L X nxt iw wd" and "log_ok L"
    and p: "p = km_Partition msg" "nxt p < length (L p)" "msg = L p ! nxt p"
    and r: "pd_msg r = msg" "settled input X (wd_db wd) msg \<or> carries input r"
    and part: "iw_pending iw = [] \<or> km_Partition (pd_msg (hd (iw_pending iw))) = p"
  shows "ingest_ok input L X (nxt(p := Suc (nxt p))) iw' wd'"
proof -
  note app = append_ok [OF ok \<open>log_ok L\<close> p r part]
  let ?iw = "iw\<lparr>iw_pending := iw_pending iw @ [r]\<rparr>"
  show ?thesis
    using a app flush_pending_ok [OF _ app \<open>log_ok L\<close>, of ans go iw' wd']
    by (auto simp: accept_record_def Let_def split: if_splits)
qed

lemma ingest_ok_pull_back:
  assumes "ingest_ok input L X (nxt(p := Suc (nxt p))) iw wd"
  shows "ingest_ok input L X nxt iw wd"
proof -
  have "set (take (nxt q) (L q)) \<subseteq> set (take ((nxt(p := Suc (nxt p))) q) (L q))" for q
    by (simp add: set_take_subset_set_take)
  then show ?thesis using assms unfolding ingest_ok_def fetched_ok_def by blast
qed

text \<open>The whole turn: \<open>X\<close> is what was given up before it, together with what this turn gives up.\<close>

lemma consume_step_ok:
  assumes st: "consume_step (iw, wd) ev = (go, iw', wd')"
    and ok: "ingest_ok input L X nxt iw wd" and "log_ok L" "delivers L nxt ev"
    and X: "set (stale_of (iw, wd) ev) \<subseteq> X" "set (undelivered_of input ev) \<subseteq> X"
  shows "ingest_ok input L X nxt iw' wd' \<and> (go \<longrightarrow> ingest_ok input L X (after_fetch nxt ev) iw' wd')"
proof (cases ev)
  case (MessageFetched msg pre loads predead poison commit canceled full)
  let ?p = "km_Partition msg"
  have p: "?p = km_Partition msg" "nxt ?p < length (L ?p)" "msg = L ?p ! nxt ?p"
    using assms(4) MessageFetched by simp_all
  obtain bok iw1 wd1 where b: "begin_message msg pre loads iw wd = (bok, iw1, wd1)" by (metis prod_cases3)
  note bm = begin_message_ok [OF b ok \<open>log_ok L\<close>]
  have input: "iw_input iw1 = input" using bm(1) by (simp add: ingest_ok_def world_ok_def)
  show ?thesis
  proof (cases bok)
    case False
    with st MessageFetched b bm(1) show ?thesis by auto
  next
    case True
    show ?thesis
    proof (cases "prepare msg iw1")
      case (Inl x)
      obtain stage e where x: "prepare msg iw1 = Inl (stage, e)" using Inl by (cases x) auto
      note bad = prepare_Inl [OF x, unfolded input]
      have dl: "dead_letter msg stage predead poison commit canceled iw1 wd1 = (go, iw', wd')"
        using st MessageFetched b True x by simp
      have "poison \<noteq> BatchOk \<Longrightarrow> msg \<in> X" using X(2) bad MessageFetched by auto
      from dead_letter_ok [OF dl bm(1) \<open>log_ok L\<close> _ _ p this] bad MessageFetched show ?thesis by simp
    next
      case (Inr x)
      obtain r iw2 where x: "prepare msg iw1 = Inr (r, iw2)" using Inr by (cases x) auto
      note good = prepare_Inr [OF x, unfolded input]
      have ok2: "ingest_ok input L X nxt iw2 wd1" by (rule ingest_ok_worker [OF bm(1)]) (simp_all add: good input)
      obtain d where d: "iw_durable iw1 ?p = Some d" "covered input L X (wd_db wd1) ?p d"
        using bm(1,2) True by (auto simp: ingest_ok_def world_ok_def)
      have "settled input X (wd_db wd1) msg \<or> carries input r"
        using good(7)
      proof (elim disjE)
        assume "gate_rejects iw1 msg"
        then show ?thesis using X(1) MessageFetched b True by (simp add: settled_def)
      next
        assume "km_Offset msg \<le> (case iw_durable iw1 ?p of None \<Rightarrow> 0 | Some d \<Rightarrow> d)"
        then show ?thesis using d p(2,3) by (simp add: covered_def) (metis nth_mem)
      qed simp
      moreover have "iw_pending iw2 = [] \<or> km_Partition (pd_msg (hd (iw_pending iw2))) = ?p"
        using bm(3) True good(5) by simp
      moreover have "accept_record r full iw2 wd1 = (go, iw', wd')"
        using st MessageFetched b True x by simp
      ultimately have "ingest_ok input L X (nxt(?p := Suc (nxt ?p))) iw' wd'"
        using accept_record_ok [OF _ ok2 \<open>log_ok L\<close> p good(1)] by blast
      from this ingest_ok_pull_back [OF this] show ?thesis by (simp add: MessageFetched)
    qed
  qed
next
  case (FlushDeadline ans)
  obtain fok iw1 wd1 where f: "flush_pending ans iw wd = (fok, iw1, wd1)" by (metis prod_cases3)
  have "ingest_ok input L X nxt (setStatus ActualStatusError ''fetch'' iw) wd"
    by (rule ingest_ok_worker [OF ok]) (simp_all add: setStatus_def)
  then show ?thesis
    using st FlushDeadline flush_pending_ok [OF f ok \<open>log_ok L\<close>] f by (auto split: if_splits)
next
  case (FetchFailed canceled)
  have "ingest_ok input L X nxt (setStatus ActualStatusError ''fetch'' iw) wd"
    by (rule ingest_ok_worker [OF ok]) (simp_all add: setStatus_def)
  then show ?thesis using st FetchFailed ok by (auto split: if_splits)
qed

lemma consume_exit_ok:
  assumes "consume_exit flushOnStop ans iw wd = (iw', wd')"
    and ok: "ingest_ok input L X nxt iw wd" and "log_ok L"
  shows "world_ok input L X iw' wd'"
proof -
  have w: "world_ok input L X iw wd" "batch_ready input L X (wd_db wd) (iw_pending iw)"
    using ok by (simp_all add: ingest_ok_def)
  show ?thesis
    using assms(1) w(1) flushBatch_ok [OF _ w \<open>log_ok L\<close>]
    by (auto simp: consume_exit_def split: if_splits prod.splits)
qed

subsection \<open>Restarts, reassignments and other writers\<close>

text \<open>
  The ingestion of one input over its whole life. \<open>L\<close> is the log of each partition. A new session
  resumes after the committed offset (\<open>FirstOffset\<close> without one) with a fresh worker, at any moment: a
  crash loses the worker's state. The group may reassign a partition, which moves the next offset to
  read back to the committed one. Workers of other inputs write to the same store.
\<close>

record ingest_sys =
  sy_worker :: inputWorker
  sy_world :: ingest_world
  sy_next :: "goint \<Rightarrow> nat"
  sy_running :: bool
  sy_stale :: "KafkaMessage list"
  sy_undelivered :: "KafkaMessage list"

definition resume_at :: "message_log \<Rightarrow> ingest_world \<Rightarrow> goint \<Rightarrow> nat" where
  "resume_at L wd p =
     (case wd_committed wd p of None \<Rightarrow> 0 | Some c \<Rightarrow> length (takeWhile (\<lambda>m. km_Offset m \<le> c) (L p)))"

definition empty_world :: ingest_world where
  "empty_world = \<lparr> wd_db = empty_db, wd_committed = (\<lambda>_. None), wd_book = None \<rparr>"

inductive ingest_reach :: "MarketGroup \<Rightarrow> GroupInput \<Rightarrow> string \<Rightarrow> BatchConfig \<Rightarrow> message_log \<Rightarrow> ingest_sys \<Rightarrow> bool"
  for grp input node cfg L where
  start: "ingest_reach grp input node cfg L
    \<lparr> sy_worker = newInputWorker grp input node cfg, sy_world = empty_world, sy_next = (\<lambda>_. 0),
      sy_running = True, sy_stale = [], sy_undelivered = [] \<rparr>"
| turn: "ingest_reach grp input node cfg L s \<Longrightarrow> sy_running s \<Longrightarrow> delivers L (sy_next s) ev \<Longrightarrow>
    consume_step (sy_worker s, sy_world s) ev = (True, iw, wd) \<Longrightarrow>
    ingest_reach grp input node cfg L
      \<lparr> sy_worker = iw, sy_world = wd, sy_next = after_fetch (sy_next s) ev, sy_running = True,
        sy_stale = stale_of (sy_worker s, sy_world s) ev @ sy_stale s,
        sy_undelivered = undelivered_of input ev @ sy_undelivered s \<rparr>"
| stop: "ingest_reach grp input node cfg L s \<Longrightarrow> sy_running s \<Longrightarrow> delivers L (sy_next s) ev \<Longrightarrow>
    consume_step (sy_worker s, sy_world s) ev = (False, iw, wd) \<Longrightarrow>
    consume_exit flushOnStop ans iw wd = (iw', wd') \<Longrightarrow>
    ingest_reach grp input node cfg L
      \<lparr> sy_worker = iw', sy_world = wd', sy_next = sy_next s, sy_running = False,
        sy_stale = stale_of (sy_worker s, sy_world s) ev @ sy_stale s,
        sy_undelivered = undelivered_of input ev @ sy_undelivered s \<rparr>"
| reassigned: "ingest_reach grp input node cfg L s \<Longrightarrow>
    ingest_reach grp input node cfg L (s\<lparr>sy_next := (sy_next s)(p := resume_at L (sy_world s) p)\<rparr>)"
| restart: "ingest_reach grp input node cfg L s \<Longrightarrow>
    ingest_reach grp input node cfg L
      (s\<lparr>sy_worker := (newInputWorker grp input node cfg)\<lparr>iw_resetSeq := q, iw_resetLastUpdate := u\<rparr>,
         sy_world := (sy_world s)\<lparr>wd_book := book\<rparr>, sy_next := resume_at L (sy_world s), sy_running := True\<rparr>)"
| other: "ingest_reach grp input node cfg L s \<Longrightarrow> wp_InputID (fb_Progress batch) \<noteq> inputID input \<Longrightarrow>
    ingest_reach grp input node cfg L
      (s\<lparr>sy_world := (sy_world s)\<lparr>wd_db := snd (WriteFactBatch fault now (wd_db (sy_world s)) batch)\<rparr>\<rparr>)"

inductive_cases ingest_reachE: "ingest_reach grp input node cfg L s"

abbreviation given_up :: "ingest_sys \<Rightarrow> KafkaMessage set" where
  "given_up s \<equiv> set (sy_stale s) \<union> set (sy_undelivered s)"

definition sys_ok :: "GroupInput \<Rightarrow> message_log \<Rightarrow> ingest_sys \<Rightarrow> bool" where
  "sys_ok input L s \<longleftrightarrow>
     world_ok input L (given_up s) (sy_worker s) (sy_world s) \<and>
     (sy_running s \<longrightarrow> ingest_ok input L (given_up s) (sy_next s) (sy_worker s) (sy_world s))"

lemma world_ok_mono:
  assumes "world_ok input L X iw wd" "X \<subseteq> Y"
  shows "world_ok input L Y iw wd"
  using assms(1) covered_mono [OF _ assms(2)] db_covered_mono [OF _ assms(2)]
  unfolding world_ok_def by blast

lemma resumed_settled:
  assumes "world_ok input L X iw wd" "m \<in> set (take (resume_at L wd p) (L p))"
  shows "settled input X (wd_db wd) m"
proof (cases "wd_committed wd p")
  case None
  with assms(2) show ?thesis by (simp add: resume_at_def)
next
  case (Some c)
  have "take (resume_at L wd p) (L p) = takeWhile (\<lambda>m. km_Offset m \<le> c) (L p)"
    by (simp add: resume_at_def Some takeWhile_eq_take [symmetric])
  with assms(2) have "m \<in> set (L p)" "km_Offset m \<le> c" by (auto dest: set_takeWhileD)
  with assms(1) Some show ?thesis by (auto simp: world_ok_def covered_def)
qed

lemma fresh_worker_ok:
  assumes "world_ok input L X iw wd" "wd_db wd' = wd_db wd" "wd_committed wd' = wd_committed wd"
  shows "ingest_ok input L X (resume_at L wd)
    ((newInputWorker grp input node cfg)\<lparr>iw_resetSeq := q, iw_resetLastUpdate := u\<rparr>) wd'"
  using assms resumed_settled [OF assms(1)]
  by (auto simp: ingest_ok_def world_ok_def newInputWorker_def batch_ready_def fetched_ok_def)

lemma reassigned_ok:
  assumes "ingest_ok input L X nxt iw wd"
  shows "ingest_ok input L X (nxt(p := resume_at L wd p)) iw wd"
  using assms resumed_settled [of input L X iw wd _ p]
  by (auto simp: ingest_ok_def fetched_ok_def)

lemma other_write_ok:
  assumes "wp_InputID (fb_Progress batch) \<noteq> inputID input"
    and "db' = snd (WriteFactBatch fault now (wd_db wd) batch)"
  shows "ingest_ok input L X nxt iw wd \<Longrightarrow> ingest_ok input L X nxt iw (wd\<lparr>wd_db := db'\<rparr>)"
    and "world_ok input L X iw wd \<Longrightarrow> world_ok input L X iw (wd\<lparr>wd_db := db'\<rparr>)"
proof -
  have grow: "grows input (wd_db wd) db'" using handled_write assms(2) by (simp add: grows_def)
  have dur: "durable_of db' (inputID input, p) = durable_of (wd_db wd) (inputID input, p)" for p
    unfolding assms(2)
    by (rule WriteFactBatch_induct)
       (simp, use assms(1) in \<open>simp add: applied_durable [OF _ refl]\<close>)
  show "ingest_ok input L X nxt iw wd \<Longrightarrow> ingest_ok input L X nxt iw (wd\<lparr>wd_db := db'\<rparr>)"
    by (rule ingest_ok_db [OF _ grow dur])
  assume w: "world_ok input L X iw wd"
  then have "db_covered input L X db'"
    using db_covered_mono [OF _ subset_refl _ dur] grow unfolding world_ok_def grows_def by blast
  then show "world_ok input L X iw (wd\<lparr>wd_db := db'\<rparr>)" by (rule world_ok_db [OF w grow])
qed

lemma start_ok: "ingest_ok input L {} (\<lambda>_. 0) (newInputWorker grp input node cfg) empty_world"
  if "\<And>p m. m \<in> set (L p) \<Longrightarrow> 0 \<le> km_Offset m"
  using that
  by (force simp: ingest_ok_def world_ok_def newInputWorker_def empty_world_def batch_ready_def
      fetched_ok_def db_covered_def covered_def durable_of_def empty_db_def)

lemma ingest_reach_ok:
  assumes "ingest_reach grp input node cfg L s" "log_ok L" "\<And>p m. m \<in> set (L p) \<Longrightarrow> 0 \<le> km_Offset m"
  shows "sys_ok input L s"
  using assms(1)
proof induction
  case start
  have "ingest_ok input L {} (\<lambda>_. 0) (newInputWorker grp input node cfg) empty_world"
    by (rule start_ok) (rule assms(3))
  then show ?case by (simp add: sys_ok_def ingest_ok_def)
next
  case (turn s ev iw wd)
  let ?X = "set (stale_of (sy_worker s, sy_world s) ev @ sy_stale s) \<union> set (undelivered_of input ev @ sy_undelivered s)"
  have "ingest_ok input L (given_up s) (sy_next s) (sy_worker s) (sy_world s)"
    using turn by (simp add: sys_ok_def)
  then have "ingest_ok input L ?X (sy_next s) (sy_worker s) (sy_world s)" by (rule ingest_ok_mono) auto
  from consume_step_ok [OF turn.hyps(4) this assms(2) turn.hyps(3)]
  have "ingest_ok input L ?X (after_fetch (sy_next s) ev) iw wd" by auto
  then show ?case by (simp add: sys_ok_def ingest_ok_def)
next
  case (stop s ev iw wd flushOnStop ans iw' wd')
  let ?X = "set (stale_of (sy_worker s, sy_world s) ev @ sy_stale s) \<union> set (undelivered_of input ev @ sy_undelivered s)"
  have "ingest_ok input L (given_up s) (sy_next s) (sy_worker s) (sy_world s)"
    using stop by (simp add: sys_ok_def)
  then have "ingest_ok input L ?X (sy_next s) (sy_worker s) (sy_world s)" by (rule ingest_ok_mono) auto
  from consume_step_ok [OF stop.hyps(4) this assms(2) stop.hyps(3)]
  have "ingest_ok input L ?X (sy_next s) iw wd" by auto
  from consume_exit_ok [OF stop.hyps(5) this assms(2)] show ?case by (simp add: sys_ok_def)
next
  case (reassigned s p)
  then show ?case using reassigned_ok by (simp add: sys_ok_def)
next
  case (restart s book u q)
  then have w: "world_ok input L (given_up s) (sy_worker s) (sy_world s)" by (simp add: sys_ok_def)
  from fresh_worker_ok [OF w, of "(sy_world s)\<lparr>wd_book := book\<rparr>"] show ?case
    by (simp add: sys_ok_def ingest_ok_def)
next
  case (other s batch fault now)
  then show ?case using other_write_ok [OF other.hyps(2) refl] by (simp add: sys_ok_def)
qed

text \<open>
  C1. At-least-once ingestion. In every state the ingestion of an input can reach, through any
  sequence of fetches, batch flushes, write and commit failures, cancellations, crashes, restarts,
  partition reassignments and writes of other inputs, every message of the log at or below the
  committed Kafka offset is accounted for: its trade, candle or delta is in the store, or its
  dead-letter record is, or the delta gate found it stale, or it could not be decoded and its
  dead-letter write failed. The same holds below the durable offset of the progress row.
\<close>

theorem at_least_once:
  assumes "ingest_reach grp input node cfg L s" "log_ok L" "\<And>p m. m \<in> set (L p) \<Longrightarrow> 0 \<le> km_Offset m"
    and "m \<in> set (L p)"
    and "wd_committed (sy_world s) p = Some c \<and> km_Offset m \<le> c \<or>
      km_Offset m \<le> durable_of (wd_db (sy_world s)) (inputID input, p)"
  shows "handled input (wd_db (sy_world s)) m \<or> m \<in> set (sy_stale s) \<or>
    (m \<in> set (sy_undelivered s) \<and> isl (decode_fact input m))"
proof -
  have w: "world_ok input L (given_up s) (sy_worker s) (sy_world s)"
    using ingest_reach_ok [OF assms(1-3)] by (simp add: sys_ok_def)
  have bad: "\<forall>m \<in> set (sy_undelivered s). isl (decode_fact input m)"
    using assms(1)
  proof induction
    case (turn s ev iw wd) then show ?case by (cases ev) auto
  next
    case (stop s ev iw wd flushOnStop ans iw' wd') then show ?case by (cases ev) auto
  qed auto
  from w assms(4,5) have "settled input (given_up s) (wd_db (sy_world s)) m"
    by (auto simp: world_ok_def db_covered_def covered_def)
  with bad show ?thesis by (auto simp: settled_def)
qed

subsection \<open>A run, and what a failed dead-letter write loses\<close>

definition garbage :: "int64 \<Rightarrow> KafkaMessage" where
  "garbage off = sample_message off ''x''"

definition garbage_log :: message_log where
  "garbage_log p = (if p = 0 then [garbage 0, garbage 1] else [])"

abbreviation trade_stream :: GroupInput where
  "trade_stream \<equiv> sample_stream StreamKindTrade [] StreamKindTrade"

definition sample_group :: MarketGroup where
  "sample_group = \<lparr> mg_GroupID = ''g'', mg_Exchange = ''g'', mg_MarketType = ''g'', mg_Symbol = ''g'',
     mg_BaseAsset = ''g'', mg_QuoteAsset = ''g'', mg_DesiredStatus = ''g'', mg_Weight = 0, mg_Inputs = [], mg_CreatedAt = 0, mg_UpdatedAt = 0 \<rparr>"

definition calm :: flush_answers where
  "calm = \<lparr> fa_writes = [], fa_commits = [], fa_now = 0 \<rparr>"

definition fetch_garbage :: "int64 \<Rightarrow> batch_fault \<Rightarrow> consume_event" where
  "fetch_garbage off poison = MessageFetched (garbage off) calm [(False, False)] calm poison CommitOk False calm"

lemma garbage_refused: "decode_fact trade_stream (garbage off) = Inl MalformedPayload"
proof -
  have "parse_json ''x'' = None" by code_simp
  then show ?thesis
    by (simp add: decode_fact_def sample_stream_def garbage_def sample_message_def buildTrade_def
        decodeTrade_def decode_payload_def bind_r_def)
qed

lemma garbage_log_ok: "log_ok garbage_log" "m \<in> set (garbage_log p) \<Longrightarrow> 0 \<le> km_Offset m"
  by (auto simp: log_ok_def garbage_log_def garbage_def sample_message_def split: if_splits)

lemma prepare_garbage:
  assumes "iw_input iw = trade_stream" "iw_durable iw 0 = Some (-1)" "0 \<le> off"
  shows "prepare (garbage off) iw = Inl (''decode'', MalformedPayload)"
proof -
  have "parse_json ''x'' = None" by code_simp
  then show ?thesis using assms
    by (simp add: prepare_def sample_stream_def garbage_def sample_message_def buildTrade_def
        decodeTrade_def decode_payload_def bind_r_def Let_def)
qed

text \<open>A worker between two undecodable messages, and what one of them changes.\<close>

definition idle :: "inputWorker \<Rightarrow> ingest_world \<Rightarrow> bool" where
  "idle iw wd \<longleftrightarrow> iw_input iw = trade_stream \<and> iw_pending iw = [] \<and>
     (iw_loaded iw 0 \<longrightarrow> iw_durable iw 0 = Some (-1)) \<and> db_progress (wd_db wd) (''i'', 0) = None"

lemma garbage_dead_letter:
  assumes "idle iw wd" "dead_letter (garbage off) ''decode'' calm poison CommitOk False iw wd = (go, iw', wd')"
  shows "go \<and> idle iw' wd' \<and> (poison = BatchFails 0 \<longrightarrow> wd' = wd) \<and>
    (poison = BatchOk \<longrightarrow> wd_committed wd' = (wd_committed wd)(0 \<mapsto> off) \<and>
      (\<forall>x \<in> set (db_poison (wd_db wd')). x \<in> set (db_poison (wd_db wd)) \<or> pw_kafka_offset x = off))"
  using assms
  by (cases poison)
     (auto simp: idle_def dead_letter_def flush_pending_def flushBatch_def isRetryableStage_def Let_def
       setStatus_def commit_offset_def WritePoisonRecord_def poison_of_def garbage_def sample_message_def
       split: if_splits)

lemma garbage_turn:
  assumes "idle iw wd" "0 \<le> off" "consume_step (iw, wd) (fetch_garbage off poison) = (go, iw', wd')"
  shows "go \<and> idle iw' wd' \<and> (poison = BatchFails 0 \<longrightarrow> wd' = wd) \<and>
    (poison = BatchOk \<longrightarrow> wd_committed wd' = (wd_committed wd)(0 \<mapsto> off) \<and>
      (\<forall>x \<in> set (db_poison (wd_db wd')). x \<in> set (db_poison (wd_db wd)) \<or> pw_kafka_offset x = off))"
proof -
  have part: "km_Partition (garbage off) = 0" by (simp add: garbage_def sample_message_def)
  obtain iw1 where b: "begin_message (garbage off) calm [(False, False)] iw wd = (True, iw1, wd)"
    and iw1: "idle iw1 wd" "iw_durable iw1 0 = Some (-1)"
  proof (cases "iw_loaded iw 0")
    case True
    with assms(1) that [of iw] show ?thesis by (simp add: idle_def begin_message_def part ensureProgress_def)
  next
    case False
    with assms(1) that [of "adopt_progress 0 None iw"] show ?thesis
      by (simp add: idle_def begin_message_def part ensureProgress_def LoadStreamWriteProgress_def
          sample_stream_def inputID_def adopt_progress_fields adopted_def)
  qed
  have "iw_input iw1 = trade_stream" using iw1(1) by (simp add: idle_def)
  then have "dead_letter (garbage off) ''decode'' calm poison CommitOk False iw1 wd = (go, iw', wd')"
    using assms(3) by (simp add: fetch_garbage_def b prepare_garbage [OF _ iw1(2) assms(2)])
  from garbage_dead_letter [OF iw1(1) this] show ?thesis .
qed

lemma stale_of_garbage: "stale_of (iw, wd) (fetch_garbage off poison) = []" if "idle iw wd"
proof -
  obtain ok iw1 wd1 where b: "begin_message (garbage off) calm [(False, False)] iw wd = (ok, iw1, wd1)"
    by (metis prod_cases3)
  have "iw_input iw1 = trade_stream"
    using b that by (auto simp: begin_message_def ensureProgress_def LoadStreamWriteProgress_def idle_def
        adopt_progress_fields split: if_splits option.splits)
  then show ?thesis
    by (simp add: fetch_garbage_def b gate_rejects_def sample_stream_def kind_defs)
qed

text \<open>Two undecodable messages; the dead-letter write of the first has the given outcome.\<close>

lemma two_garbage_turns:
  assumes "poison = BatchFails 0 \<or> poison = BatchOk"
  shows "\<exists>s. ingest_reach grp trade_stream node cfg garbage_log s \<and>
    wd_committed (sy_world s) 0 = Some 1 \<and> sy_stale s = [] \<and>
    sy_undelivered s = (if poison = BatchOk then [] else [garbage 0]) \<and>
    (poison \<noteq> BatchOk \<longrightarrow> \<not> poisoned trade_stream (wd_db (sy_world s)) (garbage 0))"
proof -
  let ?iw0 = "newInputWorker grp trade_stream node cfg"
  have idle0: "idle ?iw0 empty_world" by (simp add: idle_def newInputWorker_def empty_world_def empty_db_def)
  obtain g1 iw1 wd1 where one: "consume_step (?iw0, empty_world) (fetch_garbage 0 poison) = (g1, iw1, wd1)"
    by (metis prod_cases3)
  note t1 = garbage_turn [OF idle0 _ one]
  obtain g2 iw2 wd2 where two: "consume_step (iw1, wd1) (fetch_garbage 1 BatchOk) = (g2, iw2, wd2)"
    by (metis prod_cases3)
  have idle1: "idle iw1 wd1" and g1: g1 using t1 by simp_all
  note t2 = garbage_turn [OF idle1 _ two]
  note r0 = ingest_reach.start [of grp trade_stream node cfg garbage_log]
  have del: "delivers garbage_log (\<lambda>_. 0) (fetch_garbage 0 poison)"
    "delivers garbage_log (after_fetch (\<lambda>_. 0) (fetch_garbage 0 poison)) (fetch_garbage 1 BatchOk)"
    by (simp_all add: fetch_garbage_def garbage_log_def garbage_def sample_message_def)
  note r1 = ingest_reach.turn [OF r0, simplified, OF del(1), OF one [unfolded eqTrueI [OF g1]]]
  note r2 = ingest_reach.turn [OF r1, simplified, OF del(2) two [unfolded eqTrueI [OF conjunct1 [OF t2 [simplified]]]]]
  have und: "undelivered_of trade_stream (fetch_garbage off f) = (if f = BatchOk then [] else [garbage off])" for off f
    by (simp add: fetch_garbage_def garbage_refused)
  have off0: "km_Offset (garbage 0) = 0" by (simp add: garbage_def sample_message_def)
  have empty: "db_poison (wd_db empty_world) = []" by (simp add: empty_world_def empty_db_def)
  show ?thesis
    by (rule exI, rule conjI, rule r2)
       (use t1 t2 assms in \<open>auto simp: stale_of_garbage [OF idle0] stale_of_garbage [OF idle1] und off0 empty
          poisoned_def list_ex_iff\<close>)
qed

text \<open>
  A dead-letter write that fails does not keep its message for a retry: the loop goes on, and
  the next committed offset covers the message. There is a reachable state in which an undecodable
  message lies below the committed offset and has neither a fact nor a dead-letter record.
\<close>

theorem failed_dead_letter_is_lost:
  "\<exists>s. ingest_reach grp trade_stream node cfg garbage_log s \<and> garbage 0 \<in> set (garbage_log 0) \<and>
     wd_committed (sy_world s) 0 = Some 1 \<and> km_Offset (garbage 0) < 1 \<and>
     \<not> handled trade_stream (wd_db (sy_world s)) (garbage 0)"
proof -
  have "km_Offset (garbage 0) < 1" "garbage 0 \<in> set (garbage_log 0)"
    by (simp_all add: garbage_log_def garbage_def sample_message_def)
  then show ?thesis using two_garbage_turns [of "BatchFails 0" grp node cfg]
    by (auto simp: handled_def garbage_refused)
qed

theorem at_least_once_witness:
  "\<exists>s. ingest_reach sample_group trade_stream ''n'' \<lparr> bc_Size = 1, bc_FlushInterval = 1 \<rparr> garbage_log s \<and>
     wd_committed (sy_world s) 0 = Some 1 \<and> handled trade_stream (wd_db (sy_world s)) (garbage 0)"
proof -
  obtain s where s: "ingest_reach sample_group trade_stream ''n'' \<lparr> bc_Size = 1, bc_FlushInterval = 1 \<rparr> garbage_log s"
    "wd_committed (sy_world s) 0 = Some 1" "sy_stale s = []" "sy_undelivered s = []"
    using two_garbage_turns [of BatchOk sample_group "''n''" "\<lparr> bc_Size = 1, bc_FlushInterval = 1 \<rparr>"] by auto
  have m: "garbage 0 \<in> set (garbage_log 0)" "km_Offset (garbage 0) \<le> 1"
    by (simp_all add: garbage_log_def garbage_def sample_message_def)
  from at_least_once [OF s(1) garbage_log_ok m(1), where c = 1] m(2) s show ?thesis by auto
qed

subsection \<open>A flush gets through once its dependencies answer\<close>

definition well_prepared :: "GroupInput \<Rightarrow> pendingRecord \<Rightarrow> bool" where
  "well_prepared input r \<longleftrightarrow>
     (\<forall>t. pd_trade r = Some t \<longrightarrow> gi_StreamKind input = StreamKindTrade \<and> buildTrade input (pd_msg r) = Inr t) \<and>
     (\<forall>k. pd_kline r = Some k \<longrightarrow> gi_StreamKind input = StreamKindKline \<and> buildKline input (pd_msg r) = Inr k) \<and>
     (\<forall>d. pd_delta r = Some d \<longrightarrow> gi_StreamKind input = StreamKindOrderBookDelta \<and>
        (\<exists>b. buildOrderBookDelta input (pd_msg r) = Inr b \<and> d = b\<lparr>ob_RawPayload := km_Value (pd_msg r)\<rparr>))"

lemma prepare_well_prepared:
  "prepare msg iw = Inr (r, iw') \<Longrightarrow> well_prepared (iw_input iw) r"
  by (auto simp: prepare_def well_prepared_def Let_def split: if_splits sum.splits)

lemma well_prepared_coord:
  assumes "well_prepared input r"
  shows "pd_trade r = Some t \<Longrightarrow> trade_coord t = (inputID input, km_Partition (pd_msg r), km_Offset (pd_msg r))"
    and "pd_kline r = Some k \<Longrightarrow> kline_coord k = (inputID input, km_Partition (pd_msg r), km_Offset (pd_msg r))"
    and "pd_delta r = Some d \<Longrightarrow> delta_coord d = (inputID input, km_Partition (pd_msg r), km_Offset (pd_msg r))"
  using assms
  by (auto simp: well_prepared_def buildTrade_def buildKline_def buildOrderBookDelta_def bind_r_Inr_iff
      toTrade_def toKline_def toOrderBookDelta_def trade_coord_def kline_coord_def delta_coord_def
      split: option.splits)

text \<open>Records of one partition in log order.\<close>

definition in_log_order :: "goint \<Rightarrow> pendingRecord list \<Rightarrow> bool" where
  "in_log_order p rs \<longleftrightarrow> sorted_wrt (<) (map (\<lambda>r. km_Offset (pd_msg r)) rs) \<and>
     (\<forall>r \<in> set rs. km_Partition (pd_msg r) = p \<and> 0 \<le> km_Offset (pd_msg r))"

lemma in_log_order_last:
  assumes "in_log_order p rs" "r \<in> set rs"
  shows "km_Offset (pd_msg r) \<le> km_Offset (pd_msg (last rs))"
proof -
  have "rs \<noteq> []" using assms(2) by auto
  then have "rs = butlast rs @ [last rs]" by simp
  with assms have "sorted_wrt (<) (map (\<lambda>r. km_Offset (pd_msg r)) (butlast rs @ [last rs]))"
    "r \<in> set (butlast rs @ [last rs])"
    by (metis in_log_order_def)+
  then show ?thesis by (auto simp: sorted_wrt_append)
qed

lemma map_filter_coords:
  assumes "in_log_order p rs" "-1 \<le> lo" "\<And>r. r \<in> set rs \<Longrightarrow> lo < km_Offset (pd_msg r)"
    and "wp_InputID q = i" "wp_KafkaPartition q = p" "\<And>r. r \<in> set rs \<Longrightarrow> km_Offset (pd_msg r) \<le> wp_DurableOffset q"
    and "\<And>r x. r \<in> set rs \<Longrightarrow> f r = Some x \<Longrightarrow> coord x = (i, km_Partition (pd_msg r), km_Offset (pd_msg r))"
  shows "validate_rows kind q lo (map coord (List.map_filter f rs)) = None"
  using assms(1-3,6,7)
proof (induction rs arbitrary: lo)
  case (Cons r rs)
  have tl: "in_log_order p rs" "km_Partition (pd_msg r) = p" "0 \<le> km_Offset (pd_msg r)"
    "\<And>x. x \<in> set rs \<Longrightarrow> km_Offset (pd_msg r) < km_Offset (pd_msg x)"
    using Cons.prems(1) by (auto simp: in_log_order_def)
  note hd = Cons.prems(3,4) [of r]
  show ?case
  proof (cases "f r")
    case None
    with Cons.IH [OF tl(1) Cons.prems(2)] Cons.prems(3-5) show ?thesis by (simp add: List.map_filter_simps)
  next
    case (Some x)
    have "validate_rows kind q (km_Offset (pd_msg r)) (map coord (List.map_filter f rs)) = None"
      by (rule Cons.IH [OF tl(1)]) (use tl(3,4) Cons.prems(4,5) in auto)
    then show ?thesis
      using Some Cons.prems(5) [OF _ Some] hd tl assms(4,5)
      by (simp add: List.map_filter_simps validate_coordinates_def)
  qed
qed (simp add: List.map_filter_simps)

lemma prepared_batch_valid:
  assumes "rs \<noteq> []" "in_log_order p rs" "\<forall>r \<in> set rs. well_prepared (iw_input iw) r" "0 \<le> p"
    and "inputID (iw_input iw) \<noteq> []"
  shows "validateFactBatch (batch_of iw rs) = None"
proof -
  let ?b = "batch_of iw rs"
  have last: "last rs \<in> set rs" "km_Partition (pd_msg (last rs)) = p" "0 \<le> km_Offset (pd_msg (last rs))"
    using assms(1,2) by (auto simp: in_log_order_def)
  have empty: "fb_Trades ?b = []" if "gi_StreamKind (iw_input iw) \<noteq> StreamKindTrade"
    using assms(3) that by (fastforce simp: List.map_filter_def filter_empty_conv well_prepared_def)
  have empty': "fb_Klines ?b = []" if "gi_StreamKind (iw_input iw) \<noteq> StreamKindKline"
    using assms(3) that by (fastforce simp: List.map_filter_def filter_empty_conv well_prepared_def)
  have empty'': "fb_OrderBookDeltas ?b = []" if "gi_StreamKind (iw_input iw) \<noteq> StreamKindOrderBookDelta"
    using assms(3) that by (fastforce simp: List.map_filter_def filter_empty_conv well_prepared_def)
  have kinds: "(if fb_Trades ?b \<noteq> [] then 1 else 0) + (if fb_Klines ?b \<noteq> [] then 1 else 0) +
      (if fb_OrderBookDeltas ?b \<noteq> [] then 1 else 0) \<le> (1::nat)"
    by (cases "gi_StreamKind (iw_input iw) = StreamKindTrade"; cases "gi_StreamKind (iw_input iw) = StreamKindKline")
       (simp_all add: empty empty' empty'' kind_defs del: batch_of_simps)
  have low: "- 1 < km_Offset (pd_msg r)" if "r \<in> set rs" for r
    using assms(2) that by (force simp: in_log_order_def)
  have top: "km_Offset (pd_msg r) \<le> wp_DurableOffset (fb_Progress ?b)" if "r \<in> set rs" for r
    using in_log_order_last [OF assms(2) that] by simp
  have prog: "wp_InputID (fb_Progress ?b) = inputID (iw_input iw)" "wp_KafkaPartition (fb_Progress ?b) = p"
    using last by simp_all
  note coords = map_filter_coords [OF assms(2) order_refl low prog top]
  have rows: "validate_rows TradeFact (fb_Progress ?b) (-1) (map trade_coord (fb_Trades ?b)) = None"
    "validate_rows KlineFact (fb_Progress ?b) (-1) (map kline_coord (fb_Klines ?b)) = None"
    "validate_rows DeltaFact (fb_Progress ?b) (-1) (map delta_coord (fb_OrderBookDeltas ?b)) = None"
    unfolding batch_of_simps using assms(3) well_prepared_coord by (blast intro: coords)+
  show ?thesis
    using kinds rows last assms(4,5) unfolding validateFactBatch_def Let_def
    by (simp add: not_less)
qed

lemma write_loop_retries:
  assumes "validateFactBatch batch = None" "\<forall>(f, n, c) \<in> set ws. \<not> c"
    and "write_loop (ws @ (NoFault, now, b) # rest) batch iw wd = (ok, iw', wd')"
  shows "ok \<and> only_status iw iw' \<and> wd_committed wd' = wd_committed wd \<and>
    wp_DurableOffset (fb_Progress batch) \<le>
      durable_of (wd_db wd') (wp_InputID (fb_Progress batch), wp_KafkaPartition (fb_Progress batch))"
  using assms(2,3)
proof (induction ws arbitrary: iw wd)
  case Nil
  obtain err db where w: "WriteFactBatch NoFault now (wd_db wd) batch = (err, db)" by fastforce
  have "err = None"
    using w assms(1) init_progress_row [of now "wd_db wd" "(wp_InputID (fb_Progress batch), wp_KafkaPartition (fb_Progress batch))"]
    by (auto simp: WriteFactBatch_def Let_def write_facts_no_fault commit_tx_def split: if_splits)
  moreover have "db = applied now (wd_db wd) batch" by (simp add: applied_def w)
  ultimately show ?case using Nil w by (auto simp: applied_durable [OF assms(1) refl])
next
  case (Cons a ws)
  obtain f n c where a: "a = (f, n, c)" by (cases a)
  obtain err db where w: "WriteFactBatch f n (wd_db wd) batch = (err, db)" by fastforce
  show ?case
  proof (cases err)
    case None
    then have "db = applied n (wd_db wd) batch"
      using WriteFactBatch_outcome [of "wd_db wd" n batch f] by (simp add: outcome_ok_def w)
    with Cons.prems None show ?thesis by (auto simp: a w applied_durable [OF assms(1) refl])
  next
    case (Some e)
    then have "write_loop (ws @ (NoFault, now, b) # rest) batch (setStatus ActualStatusError ''write'' iw)
        (wd\<lparr>wd_db := db\<rparr>) = (ok, iw', wd')"
      using Cons.prems by (simp add: a w)
    from Cons.IH [OF _ this] Cons.prems(1) show ?thesis by (auto dest: only_status_set)
  qed
qed

lemma commit_loop_retries:
  assumes "\<forall>(oc, c) \<in> set cs. \<not> c" "commit_loop (cs @ (CommitOk, b) # rest) msg iw wd = (ok, iw', wd')"
  shows "ok \<and> only_status iw iw' \<and> wd_db wd' = wd_db wd \<and> wd_committed wd' (km_Partition msg) = Some (km_Offset msg)"
  using assms
proof (induction cs arbitrary: iw wd)
  case Nil
  then show ?case by (auto simp: Let_def commit_offset_def)
next
  case (Cons a cs)
  obtain oc c where a: "a = (oc, c)" by (cases a)
  show ?case
  proof (cases "oc = CommitOk")
    case True
    with Cons.prems show ?thesis by (auto simp: a Let_def commit_offset_def)
  next
    case False
    with Cons.prems have "commit_loop (cs @ (CommitOk, b) # rest) msg (setStatus ActualStatusError ''commit'' iw)
        (commit_offset oc msg wd) = (ok, iw', wd')" by (simp add: a Let_def)
    from Cons.IH [OF _ this] Cons.prems(1) show ?thesis
      by (auto simp: commit_offset_def dest: only_status_set split: if_splits)
  qed
qed



end
