(* ===== verification/Group_Runtime.thy ===== *)
theory Group_Runtime
  imports Metadata_Store Input_Worker
begin

section \<open>Nodes and group workers: reconcile.go, node.go, worker.go\<close>

text \<open>
  A node claims runnable groups by lease and runs one worker per claimed group. The worker is a state
  machine: its loop renews the lease and ends when it is canceled or the lease is lost. Its goroutines
  (run loop, \<open>Stop\<close>, cancellation of the parent context) are the events of \<open>worker_step\<close>, in any order.
  The node's passes are functions on the node and the metadata tables; the answers of the database
  calls and of \<open>Stop\<close> (finished in time or not) are given per group. A worker whose \<open>Stop\<close> timed out is
  no longer tracked by the node but still draining: \<open>nd_draining\<close> keeps those.

  The lemmas show the plan function's specification, the life cycle of a worker, that the node never
  exceeds its capacity, that a pass leaves no claimable group unclaimed while there is capacity, and
  that a timed-out stop can be followed by a second worker of the same group.
\<close>

subsection \<open>The plan\<close>

record reconcilePlan =
  rp_toStart :: "string list"
  rp_toStop :: "string list"
  rp_startSlots :: goint

definition planReconcile :: "string list \<Rightarrow> string list \<Rightarrow> goint \<Rightarrow> reconcilePlan" where
  "planReconcile desired running maxGroups =
     (let toStop = filter (\<lambda>i. i \<notin> set desired) running;
          kept = int (length (remdups running)) - int (length toStop);
          candidates = sort (filter (\<lambda>i. i \<notin> set running) (remdups desired));
          available = (if maxGroups > 0 then max 0 (maxGroups - kept) else int (length candidates))
      in \<lparr> rp_toStart = candidates, rp_toStop = sort toStop,
           rp_startSlots = min available (int (length candidates)) \<rparr>)"

subsection \<open>Workers\<close>

datatype WorkerState = WorkerStarting | WorkerRunning | WorkerStopping | WorkerStopped | WorkerError

fun WorkerState_String :: "WorkerState \<Rightarrow> string" where
  "WorkerState_String WorkerStarting = ''starting''"
| "WorkerState_String WorkerRunning = ''running''"
| "WorkerState_String WorkerStopping = ''stopping''"
| "WorkerState_String WorkerStopped = ''stopped''"
| "WorkerState_String WorkerError = ''error''"

definition terminal :: "WorkerState \<Rightarrow> bool" where
  "terminal s \<longleftrightarrow> s = WorkerStopped \<or> s = WorkerError"

text \<open>
  \<open>wk_phase\<close> is where the run loop is, \<open>wk_managing\<close> whether its input manager runs, and \<open>wk_flushed\<close> the
  argument of the manager's stop. \<open>wk_stopSnapshot\<close> is the channel that ends the snapshot loops: absent,
  open (\<open>False\<close>) or closed.
\<close>

datatype phase = Created | Looping | Ended

record Worker =
  wk_group :: MarketGroup
  wk_inputs :: "GroupInput list"
  wk_nodeID :: string
  wk_ttl :: duration
  wk_renewEvery :: duration
  wk_brokers :: "string list"
  wk_consumption :: "ConsumptionConfig option"
  wk_orderBook :: "orderBookState option"
  wk_stopSnapshot :: "bool option"
  wk_state :: WorkerState
  wk_canceled :: bool
  wk_phase :: phase
  wk_managing :: bool
  wk_flushed :: "bool option"

definition newWorker ::
  "MarketGroup \<Rightarrow> GroupInput list \<Rightarrow> string \<Rightarrow> duration \<Rightarrow> duration \<Rightarrow> Worker" where
  "newWorker grp inputs nodeID ttl renewEvery =
     \<lparr> wk_group = grp, wk_inputs = inputs, wk_nodeID = nodeID, wk_ttl = ttl, wk_renewEvery = renewEvery,
       wk_brokers = [], wk_consumption = None, wk_orderBook = None, wk_stopSnapshot = None, wk_state = WorkerStarting, wk_canceled = False,
       wk_phase = Created, wk_managing = False, wk_flushed = None \<rparr>"

definition enableConsumptionWithConfig :: "string list \<Rightarrow> ConsumptionConfig \<Rightarrow> Worker \<Rightarrow> Worker" where
  "enableConsumptionWithConfig brokers cfg w =
     (let cfg = cfg
            \<lparr> cc_StatusReportEvery := (if cc_StatusReportEvery cfg \<le> 0 then second else cc_StatusReportEvery cfg),
              cc_InputReconcileEvery :=
                (if cc_InputReconcileEvery cfg \<le> 0 then 5 * second else cc_InputReconcileEvery cfg),
              cc_SnapshotInterval :=
                (if cc_SnapshotInterval cfg \<le> 0 then 60 * second else cc_SnapshotInterval cfg) \<rparr>;
          snapInputID = (case find (\<lambda>x. gi_StreamKind x = StreamKindOrderBookSnapshot) (wk_inputs w) of
                           None \<Rightarrow> [] | Some x \<Rightarrow> inputID x)
      in w\<lparr> wk_brokers := brokers, wk_consumption := Some cfg,
            wk_orderBook := Some (newOrderBookState (mg_GroupID (wk_group w)) snapInputID),
            wk_stopSnapshot := Some False \<rparr>)"

definition consumptionEnabled :: "Worker \<Rightarrow> bool" where
  "consumptionEnabled w \<longleftrightarrow> wk_consumption w \<noteq> None"

definition isConsumableStreamKind :: "string \<Rightarrow> bool" where
  "isConsumableStreamKind kind \<longleftrightarrow>
     kind = StreamKindTrade \<or> kind = StreamKindKline \<or> kind = StreamKindOrderBookDelta \<or>
     kind = StreamKindOrderBookSnapshot"

definition bare_status :: "string \<Rightarrow> string \<Rightarrow> string \<Rightarrow> string \<Rightarrow> string \<Rightarrow> string \<Rightarrow> StreamRuntimeStatus" where
  "bare_status input grp key nodeID status lastErr =
     \<lparr> ss_InputID = input, ss_GroupID = grp, ss_StreamKey = key, ss_NodeID = nodeID, ss_ActualStatus = status,
       ss_KafkaPartition = None, ss_KafkaLag = None, ss_CommittedOffset = None, ss_HighWatermarkOffset = None,
       ss_LastEventTime = None, ss_LastProcessedTime = None, ss_LastError = lastErr, ss_UpdatedAt = zero_time \<rparr>"

text \<open>Reports are best effort: the fault of each is given by input, and a failed one is only logged.\<close>

definition reportAll :: "(string \<Rightarrow> stmt_fault) \<Rightarrow> time \<Rightarrow> Worker \<Rightarrow> string \<Rightarrow> string \<Rightarrow> meta_db \<Rightarrow> meta_db" where
  "reportAll faults now w status lastErr db =
     foldl (\<lambda>db x. snd (ReportStreamRuntimeStatus (faults (gi_InputID x)) now db
              (bare_status (gi_InputID x) (mg_GroupID (wk_group w)) (gi_StreamKey x) (wk_nodeID w) status lastErr)))
       db (wk_inputs w)"

definition reportUnsupportedInputs :: "(string \<Rightarrow> stmt_fault) \<Rightarrow> time \<Rightarrow> Worker \<Rightarrow> meta_db \<Rightarrow> meta_db" where
  "reportUnsupportedInputs faults now w db =
     foldl (\<lambda>db x. if isConsumableStreamKind (gi_StreamKind x) then db
              else snd (ReportStreamRuntimeStatus (faults (gi_InputID x)) now db
                (bare_status (inputID x) (mg_GroupID (wk_group w)) (gi_StreamKey x) (wk_nodeID w)
                   ActualStatusPending [])))
       db (wk_inputs w)"

text \<open>The outcome of one renewal in \<open>leaseLoop\<close>: \<open>None\<close> goes on. The text of the driver's error is an argument.\<close>

definition lease_tick :: "string \<Rightarrow> meta_error + bool \<Rightarrow> bool \<Rightarrow> (WorkerState \<times> string \<times> string) option" where
  "lease_tick errText renewed canceled =
     (case renewed of
        Inl e \<Rightarrow> if canceled then Some (WorkerStopped, ActualStatusStopped, [])
                 else Some (WorkerError, ActualStatusError, ''renew lease: '' @ errText)
      | Inr ok \<Rightarrow> if ok then None else Some (WorkerError, ActualStatusError, ''lease lost''))"

definition finish :: "(string \<Rightarrow> stmt_fault) \<Rightarrow> time \<Rightarrow> WorkerState \<Rightarrow> string \<Rightarrow> string \<Rightarrow> Worker \<Rightarrow> meta_db \<Rightarrow> Worker \<times> meta_db" where
  "finish faults now state status lastErr w db =
     (let w = w\<lparr>wk_state := state, wk_stopSnapshot := map_option (\<lambda>_. True) (wk_stopSnapshot w)\<rparr> in (w, reportAll faults now w status lastErr db))"

text \<open>The tail of \<open>run\<close>: the input manager is stopped before the terminal status is published.\<close>

definition run_end :: "(string \<Rightarrow> stmt_fault) \<Rightarrow> time \<Rightarrow> WorkerState \<times> string \<times> string \<Rightarrow> Worker \<Rightarrow> meta_db \<Rightarrow> Worker \<times> meta_db" where
  "run_end faults now result w db =
     (case result of (state, status, lastErr) \<Rightarrow>
        let w = (if consumptionEnabled w
                 then w\<lparr>wk_managing := False, wk_flushed := Some (state = WorkerStopped)\<rparr> else w)
        in (case finish faults now state status lastErr w db of (w, db) \<Rightarrow> (w\<lparr>wk_phase := Ended\<rparr>, db)))"

definition run_begin :: "(string \<Rightarrow> stmt_fault) \<Rightarrow> time \<Rightarrow> Worker \<Rightarrow> meta_db \<Rightarrow> Worker \<times> meta_db" where
  "run_begin faults now w db =
     (let w = w\<lparr>wk_state := WorkerStarting\<rparr>;
          db = reportAll faults now w ActualStatusStarting [] db;
          w = w\<lparr>wk_state := WorkerRunning\<rparr>;
          db = (if consumptionEnabled w then reportUnsupportedInputs faults now w db
                else reportAll faults now w ActualStatusRunning [] db)
      in (w\<lparr>wk_managing := consumptionEnabled w, wk_phase := Looping\<rparr>, db))"

definition request_stop :: "Worker \<Rightarrow> Worker" where
  "request_stop w =
     w\<lparr> wk_state := (if wk_state w = WorkerStarting \<or> wk_state w = WorkerRunning then WorkerStopping
                     else wk_state w),
        wk_canceled := True \<rparr>"

datatype worker_event =
    RunBegins "string \<Rightarrow> stmt_fault" time
  | LeaseTick stmt_fault string time "string \<Rightarrow> stmt_fault"
  | CancelSeen "string \<Rightarrow> stmt_fault" time
  | StopRequested
  | ParentCanceled

fun worker_step :: "Worker \<times> meta_db \<Rightarrow> worker_event \<Rightarrow> Worker \<times> meta_db" where
  "worker_step (w, db) (RunBegins faults now) =
     (if wk_phase w = Created then run_begin faults now w db else (w, db))"
| "worker_step (w, db) (LeaseTick fault errText now faults) =
     (if wk_phase w = Looping then
        (case RenewGroupLease fault now db (mg_GroupID (wk_group w)) (wk_nodeID w) (wk_ttl w) of
           (renewed, db) \<Rightarrow>
             (case lease_tick errText renewed (wk_canceled w) of
                None \<Rightarrow> (w, db)
              | Some result \<Rightarrow> run_end faults now result w db))
      else (w, db))"
| "worker_step (w, db) (CancelSeen faults now) =
     (if wk_phase w = Looping \<and> wk_canceled w
      then run_end faults now (WorkerStopped, ActualStatusStopped, []) w db else (w, db))"
| "worker_step (w, db) StopRequested = (request_stop w, db)"
| "worker_step (w, db) ParentCanceled = (w\<lparr>wk_canceled := True\<rparr>, db)"

subsection \<open>Nodes\<close>

record NodeConfig =
  nc_NodeID :: string
  nc_Hostname :: string
  nc_PodName :: string
  nc_MaxGroups :: goint
  nc_MaxWeight :: goint
  nc_LeaseTTL :: duration
  nc_RenewInterval :: duration
  nc_ReconcileInterval :: duration
  nc_HeartbeatInterval :: duration
  nc_ShutdownTimeout :: duration

definition defaultShutdownTimeout :: duration where
  "defaultShutdownTimeout = 10 * second"

text \<open>Integer division truncates; the lease time is positive where it is divided.\<close>

definition NodeConfig_withDefaults :: "NodeConfig \<Rightarrow> NodeConfig" where
  "NodeConfig_withDefaults c =
     (let ttl = (if nc_LeaseTTL c \<le> 0 then 30 * second else nc_LeaseTTL c) in
      c\<lparr> nc_MaxGroups := (if nc_MaxGroups c \<le> 0 then 10 else nc_MaxGroups c),
         nc_MaxWeight := (if nc_MaxWeight c \<le> 0 then 100 else nc_MaxWeight c),
         nc_LeaseTTL := ttl,
         nc_RenewInterval := (if nc_RenewInterval c \<le> 0 \<or> nc_RenewInterval c \<ge> ttl then ttl div 3
                              else nc_RenewInterval c),
         nc_ReconcileInterval := (if nc_ReconcileInterval c \<le> 0 then 5 * second else nc_ReconcileInterval c),
         nc_HeartbeatInterval := (if nc_HeartbeatInterval c \<le> 0 then 10 * second else nc_HeartbeatInterval c),
         nc_ShutdownTimeout := (if nc_ShutdownTimeout c \<le> 0 then defaultShutdownTimeout
                                else nc_ShutdownTimeout c) \<rparr>)"

record Node =
  nd_cfg :: NodeConfig
  nd_consumption :: "ConsumptionConfig option"
  nd_brokers :: "string list"
  nd_workers :: "(string, Worker) gomap"
  nd_draining :: "(string \<times> Worker) list"

definition NewNode :: "NodeConfig \<Rightarrow> Node" where
  "NewNode cfg =
     \<lparr> nd_cfg = NodeConfig_withDefaults cfg, nd_consumption = None, nd_brokers = [], nd_workers = [], nd_draining = [] \<rparr>"

definition EnableConsumptionWithConfig :: "string list \<Rightarrow> ConsumptionConfig \<Rightarrow> Node \<Rightarrow> Node" where
  "EnableConsumptionWithConfig brokers cfg n = n\<lparr>nd_brokers := brokers, nd_consumption := Some cfg\<rparr>"

definition groupWeight :: "MarketGroup \<Rightarrow> goint" where
  "groupWeight g = (if mg_Weight g \<le> 0 then 1 else mg_Weight g)"

definition runningGroupIDs :: "Node \<Rightarrow> string list" where
  "runningGroupIDs n = map fst (nd_workers n)"

definition capacity :: "Node \<Rightarrow> RuntimeCapacity" where
  "capacity n =
     \<lparr> rc_CurrentGroups = int (length (nd_workers n)),
       rc_CurrentWeight = sum_list (map (\<lambda>(i, w). groupWeight (wk_group w)) (nd_workers n)) \<rparr>"

definition register :: "stmt_fault \<Rightarrow> time \<Rightarrow> Node \<Rightarrow> meta_db \<Rightarrow> (meta_error + unit) \<times> meta_db" where
  "register fault now n db =
     RegisterRuntimeNode fault now db
       \<lparr> rn_NodeID = nc_NodeID (nd_cfg n), rn_Hostname = nc_Hostname (nd_cfg n),
         rn_PodName = nc_PodName (nd_cfg n), rn_Status = NodeStatusAlive,
         rn_MaxGroups = nc_MaxGroups (nd_cfg n), rn_CurrentGroups = 0,
         rn_MaxWeight = nc_MaxWeight (nd_cfg n), rn_CurrentWeight = 0,
         rn_LastHeartbeatAt = zero_time, rn_CreatedAt = zero_time, rn_UpdatedAt = zero_time \<rparr>"

text \<open>
  \<open>Run\<close> up to its loops. Consumption is configured as a whole here, so the check that storage and
  consumers come together has no counterpart.
\<close>

datatype node_error = NodeIDRequired | BrokersRequired | RegisterFailed meta_error

definition Run_checks :: "stmt_fault \<Rightarrow> time \<Rightarrow> Node \<Rightarrow> meta_db \<Rightarrow> (node_error + unit) \<times> meta_db" where
  "Run_checks fault now n db =
     (if nc_NodeID (nd_cfg n) = [] then (Inl NodeIDRequired, db)
      else if nd_consumption n \<noteq> None \<and> nd_brokers n = [] then (Inl BrokersRequired, db)
      else (case register fault now n db of
              (Inl e, db) \<Rightarrow> (Inl (RegisterFailed e), db)
            | (Inr u, db) \<Rightarrow> (Inr (), db)))"

text \<open>One tick of \<open>heartbeatLoop\<close>; a failed heartbeat is only logged.\<close>

definition heartbeat :: "stmt_fault \<Rightarrow> time \<Rightarrow> Node \<Rightarrow> meta_db \<Rightarrow> meta_db" where
  "heartbeat fault now n db = snd (HeartbeatRuntimeNode fault now db (nc_NodeID (nd_cfg n)) (capacity n))"

record pass_answers =
  pa_now :: time
  pa_prune :: "string \<Rightarrow> stmt_fault"
  pa_listFails :: bool
  pa_stopped :: "string \<Rightarrow> bool"
  pa_stopRelease :: "string \<Rightarrow> stmt_fault"
  pa_acquire :: "string \<Rightarrow> stmt_fault"
  pa_inputsFail :: "string \<Rightarrow> bool"
  pa_release :: "string \<Rightarrow> stmt_fault"

definition releaseLease :: "stmt_fault \<Rightarrow> Node \<Rightarrow> string \<Rightarrow> meta_db \<Rightarrow> meta_db" where
  "releaseLease fault n gid db = snd (ReleaseGroupLease fault db gid (nc_NodeID (nd_cfg n)))"

definition pruneDeadWorkers :: "pass_answers \<Rightarrow> Node \<Rightarrow> meta_db \<Rightarrow> Node \<times> meta_db" where
  "pruneDeadWorkers ans n db =
     (let dead = map fst (filter (\<lambda>(i, w). terminal (wk_state w)) (nd_workers n)) in
      (n\<lparr>nd_workers := filter (\<lambda>(i, w). \<not> terminal (wk_state w)) (nd_workers n)\<rparr>,
       foldl (\<lambda>db gid. releaseLease (pa_prune ans gid) n gid db) db dead))"

text \<open>\<open>Stop\<close> requests the stop and waits; its answer says whether the worker finished in time.\<close>

definition stopWorker :: "pass_answers \<Rightarrow> Node \<times> meta_db \<Rightarrow> string \<Rightarrow> Node \<times> meta_db" where
  "stopWorker ans s gid =
     (case s of (n, db) \<Rightarrow>
        (case map_of (nd_workers n) gid of
           None \<Rightarrow> (n, db)
         | Some w \<Rightarrow>
             let n = n\<lparr>nd_workers := AList.delete gid (nd_workers n)\<rparr> in
             if pa_stopped ans gid then (n, releaseLease (pa_stopRelease ans gid) n gid db)
             else (n\<lparr>nd_draining := nd_draining n @ [(gid, request_stop w)]\<rparr>, db)))"

definition tryStartWorker :: "pass_answers \<Rightarrow> MarketGroup \<Rightarrow> Node \<Rightarrow> meta_db \<Rightarrow> bool \<times> Node \<times> meta_db" where
  "tryStartWorker ans g n db =
     (let gid = mg_GroupID g; cfg = nd_cfg n in
      case TryAcquireGroupLease (pa_acquire ans gid) (pa_now ans) db gid (nc_NodeID cfg) (nc_LeaseTTL cfg) of
        (Inl e, db) \<Rightarrow> (False, n, db)
      | (Inr ok, db) \<Rightarrow>
          if \<not> ok then (False, n, db)
          else (case ListGroupInputs (pa_inputsFail ans gid) db gid of
                  Inl e \<Rightarrow> (False, n, releaseLease (pa_release ans gid) n gid db)
                | Inr inputs \<Rightarrow>
                    let w = newWorker g inputs (nc_NodeID cfg) (nc_LeaseTTL cfg) (nc_RenewInterval cfg);
                        w = (case nd_consumption n of None \<Rightarrow> w | Some c \<Rightarrow> enableConsumptionWithConfig (nd_brokers n) c w)
                    in (True, n\<lparr>nd_workers := AList.update gid w (nd_workers n)\<rparr>, db)))"

fun start_loop ::
  "pass_answers \<Rightarrow> goint \<Rightarrow> goint \<Rightarrow> goint \<Rightarrow> MarketGroup list \<Rightarrow> Node \<Rightarrow> meta_db \<Rightarrow> Node \<times> meta_db" where
  "start_loop ans slots started weight [] n db = (n, db)"
| "start_loop ans slots started weight (g # gs) n db =
     (if started \<ge> slots then (n, db)
      else if nc_MaxWeight (nd_cfg n) > 0 \<and> weight + groupWeight g > nc_MaxWeight (nd_cfg n)
      then start_loop ans slots started weight gs n db
      else (case tryStartWorker ans g n db of
              (True, n, db) \<Rightarrow> start_loop ans slots (started + 1) (weight + groupWeight g) gs n db
            | (False, n, db) \<Rightarrow> start_loop ans slots started weight gs n db))"

text \<open>\<open>groupByID\<close>: the last group of the list with the id; the candidates are all in the list.\<close>

definition groups_for :: "MarketGroup list \<Rightarrow> string list \<Rightarrow> MarketGroup list" where
  "groups_for groups ids = List.map_filter (\<lambda>i. find (\<lambda>g. mg_GroupID g = i) (rev groups)) ids"

definition reconcileOnce :: "pass_answers \<Rightarrow> Node \<Rightarrow> meta_db \<Rightarrow> Node \<times> meta_db" where
  "reconcileOnce ans n db =
     (case pruneDeadWorkers ans n db of (n, db) \<Rightarrow>
        (case ListRunnableGroups (pa_listFails ans) db of
           Inl e \<Rightarrow> (n, db)
         | Inr groups \<Rightarrow>
             let plan = planReconcile (map mg_GroupID groups) (runningGroupIDs n) (nc_MaxGroups (nd_cfg n)) in
             (case foldl (stopWorker ans) (n, db) (rp_toStop plan) of (n, db) \<Rightarrow>
                start_loop ans (rp_startSlots plan) 0 (rc_CurrentWeight (capacity n))
                  (groups_for groups (rp_toStart plan)) n db)))"

definition updateNodeStatus :: "stmt_fault \<Rightarrow> time \<Rightarrow> string \<Rightarrow> Node \<Rightarrow> meta_db \<Rightarrow> meta_db" where
  "updateNodeStatus fault now status n db =
     snd (UpdateRuntimeNodeStatus fault now db (nc_NodeID (nd_cfg n)) status)"

definition shutdown :: "pass_answers \<Rightarrow> stmt_fault \<Rightarrow> stmt_fault \<Rightarrow> Node \<Rightarrow> meta_db \<Rightarrow> Node \<times> meta_db" where
  "shutdown ans fault1 fault2 n db =
     (let db = updateNodeStatus fault1 (pa_now ans) NodeStatusDraining n db in
      case foldl (stopWorker ans) (n, db) (runningGroupIDs n) of (n, db) \<Rightarrow>
        (n, updateNodeStatus fault2 (pa_now ans) NodeStatusDead n db))"

text \<open>
  A node in operation: its scheduling passes, the steps of its workers (tracked or still draining),
  heartbeats, its shutdown, and every change that other nodes and the control plane make to the tables.
  Passes and shutdown run on one goroutine, so they do not overlap.
\<close>

datatype node_event =
    Pass pass_answers
  | WorkerMoves string worker_event
  | DrainingMoves nat worker_event
  | HeartbeatTick stmt_fault time
  | DatabaseChanges meta_db
  | NodeStops pass_answers stmt_fault stmt_fault

fun node_step :: "Node \<times> meta_db \<Rightarrow> node_event \<Rightarrow> Node \<times> meta_db" where
  "node_step (n, db) (Pass ans) = reconcileOnce ans n db"
| "node_step (n, db) (WorkerMoves gid ev) =
     (case map_of (nd_workers n) gid of
        None \<Rightarrow> (n, db)
      | Some w \<Rightarrow> (case worker_step (w, db) ev of
                     (w, db) \<Rightarrow> (n\<lparr>nd_workers := AList.update gid w (nd_workers n)\<rparr>, db)))"
| "node_step (n, db) (DrainingMoves k ev) =
     (if k < length (nd_draining n)
      then (case worker_step (snd (nd_draining n ! k), db) ev of
              (w, db) \<Rightarrow> (n\<lparr>nd_draining := (nd_draining n)[k := (fst (nd_draining n ! k), w)]\<rparr>, db))
      else (n, db))"
| "node_step (n, db) (HeartbeatTick fault now) = (n, heartbeat fault now n db)"
| "node_step (n, db) (DatabaseChanges db') = (n, db')"
| "node_step (n, db) (NodeStops ans fault1 fault2) = shutdown ans fault1 fault2 n db"

subsection \<open>What a plan is\<close>

text \<open>
  The plan depends only on the sets of desired and running groups, not on the order in which the
  database or the map iteration lists them: it stops exactly the running groups that are not desired,
  offers exactly the desired groups that do not run, each once and in sorted order, and the slots are
  what the capacity leaves after the kept groups.
\<close>

theorem plan_is_a_function_of_the_sets:
  assumes "distinct running" "distinct running'" "set desired = set desired'" "set running = set running'"
    and "plan = planReconcile desired running m"
  shows "planReconcile desired' running' m = plan \<and>
    rp_toStop plan = sorted_list_of_set (set running - set desired) \<and>
    rp_toStart plan = sorted_list_of_set (set desired - set running) \<and>
    rp_startSlots plan = min (if 0 < m then max 0 (m - int (card (set running \<inter> set desired)))
      else int (card (set desired - set running))) (int (card (set desired - set running)))"
proof -
  have stop: "sort (filter (\<lambda>i. i \<notin> set d) r) = sorted_list_of_set (set r - set d)" if "distinct r" for d r :: "string list"
    using that by (intro sorted_distinct_set_unique) auto
  have start: "sort (filter (\<lambda>i. i \<notin> set r) (remdups d)) = sorted_list_of_set (set d - set r)" for d r :: "string list"
    by (intro sorted_distinct_set_unique) auto
  have cand: "length (filter (\<lambda>i. i \<notin> set r) (remdups d)) = card (set d - set r)" for d r :: "string list"
    using distinct_card [of "filter (\<lambda>i. i \<notin> set r) (remdups d)"] by (simp add: set_diff_eq)
  have kept: "int (length (remdups r)) - int (length (filter (\<lambda>i. i \<notin> set d) r)) = int (card (set r \<inter> set d))"
    if "distinct r" for d r :: "string list"
  proof -
    have "length r = length (filter (\<lambda>i. i \<in> set d) r) + length (filter (\<lambda>i. i \<notin> set d) r)"
      by (rule sum_length_filter_compl [symmetric])
    moreover have "length (filter (\<lambda>i. i \<in> set d) r) = card (set r \<inter> set d)"
      using that distinct_card [of "filter (\<lambda>i. i \<in> set d) r"] by (simp add: Int_def)
    ultimately show ?thesis using that by (simp add: distinct_remdups_id)
  qed
  note eqs = stop [OF assms(1)] stop [OF assms(2)] start cand kept [OF assms(1)] kept [OF assms(2)]
  show ?thesis
    unfolding assms(5) planReconcile_def Let_def eqs by (simp add: eqs assms(3,4))
qed

subsection \<open>The life of a worker\<close>

definition worker_inv :: "Worker \<Rightarrow> bool" where
  "worker_inv w \<longleftrightarrow>
     (terminal (wk_state w) \<longleftrightarrow> wk_phase w = Ended) \<and> (wk_managing w \<longrightarrow> wk_phase w = Looping \<and> consumptionEnabled w) \<and>
     (wk_phase w = Ended \<longrightarrow> wk_stopSnapshot w \<noteq> Some False) \<and>
     (wk_state w = WorkerStopped \<longrightarrow> wk_canceled w) \<and>
     (wk_flushed w \<noteq> None \<longrightarrow> wk_phase w = Ended \<and> wk_flushed w = Some (wk_state w = WorkerStopped))"

lemma new_worker_inv: "worker_inv (newWorker g inputs i t r)"
  "worker_inv (enableConsumptionWithConfig bs c (newWorker g inputs i t r))"
  by (simp_all add: worker_inv_def newWorker_def terminal_def enableConsumptionWithConfig_def
      consumptionEnabled_def Let_def)

lemma lease_tick_cases:
  assumes "lease_tick errText renewed canceled = Some (state, status, e)"
  shows "state = WorkerStopped \<and> canceled \<or> state = WorkerError"
  using assms by (auto simp: lease_tick_def split: sum.splits if_splits)

lemma run_end_inv:
  assumes "worker_inv w" "wk_phase w = Looping" "state = WorkerStopped \<and> wk_canceled w \<or> state = WorkerError"
  shows "worker_inv (fst (run_end faults now (state, status, e) w db))"
  using assms
  by (auto simp: worker_inv_def run_end_def finish_def Let_def terminal_def consumptionEnabled_def)

lemma worker_step_inv: "worker_inv (fst s) \<Longrightarrow> worker_inv (fst (worker_step s ev))"
proof -
  obtain w db where s: "s = (w, db)" by (cases s)
  assume inv: "worker_inv (fst s)"
  have init: "worker_inv (fst (run_begin faults now w db))" if "wk_phase w = Created" for faults now
    using inv that by (simp add: s worker_inv_def run_begin_def Let_def terminal_def consumptionEnabled_def)
  have stop: "worker_inv (request_stop w)" "worker_inv (w\<lparr>wk_canceled := True\<rparr>)"
    using inv by (auto simp: s worker_inv_def request_stop_def terminal_def consumptionEnabled_def)
  show ?thesis
  proof (cases ev)
    case (LeaseTick fault errText now faults)
    obtain r db' where r: "RenewGroupLease fault now db (mg_GroupID (wk_group w)) (wk_nodeID w) (wk_ttl w) = (r, db')"
      by fastforce
    show ?thesis
    proof (cases "wk_phase w = Looping \<and> lease_tick errText r (wk_canceled w) \<noteq> None")
      case True
      then obtain state status e where t: "lease_tick errText r (wk_canceled w) = Some (state, status, e)" by auto
      have "worker_inv (fst (run_end faults now (state, status, e) w db'))"
        using run_end_inv lease_tick_cases [OF t] inv True by (simp add: s)
      then show ?thesis using True by (simp add: s LeaseTick r t)
    next
      case False
      then show ?thesis using inv by (cases "lease_tick errText r (wk_canceled w)") (auto simp: s LeaseTick r)
    qed
  next
    case (CancelSeen faults now)
    then show ?thesis using inv run_end_inv [of w WorkerStopped] by (simp add: s)
  qed (use inv init stop in \<open>simp_all add: s\<close>)
qed

interpretation worker_run: stepper worker_step "\<lambda>s. worker_inv (fst s)" "\<lambda>_. True"
  by unfold_locales (rule worker_step_inv)

lemma ended_worker_stays:
  assumes "worker_inv (fst s)" "terminal (wk_state (fst s))"
  shows "wk_state (fst (worker_step s ev)) = wk_state (fst s)"
proof -
  obtain w db where s: "s = (w, db)" by (cases s)
  have "wk_phase w = Ended" using assms by (simp add: s worker_inv_def)
  then show ?thesis using assms(2) by (cases ev) (auto simp: s request_stop_def terminal_def)
qed

lemma ended_worker_stays_run:
  assumes "worker_inv (fst s)" "terminal (wk_state (fst s))"
  shows "wk_state (fst (foldl worker_step s es)) = wk_state (fst s)"
  using assms
proof (induction es arbitrary: s)
  case (Cons e es)
  note st = ended_worker_stays [OF Cons.prems, of e]
  show ?case
    using Cons.IH [of "worker_step s e"] worker_step_inv [OF Cons.prems(1), of e] Cons.prems(2) st by simp
qed simp

text \<open>
  C8. The life cycle of a group worker under every interleaving of its run loop, lease renewals,
  stops and cancellations: a terminal state is never left; a worker in a terminal state consumes no
  input and its snapshot loops are told to end; it ends as stopped only after a cancellation and otherwise in the error state; and pending
  batches are flushed on the way out exactly when it was stopped, never after a lost lease.
\<close>

theorem worker_life_cycle:
  assumes "w = newWorker g inputs i t r \<or> w = enableConsumptionWithConfig bs c (newWorker g inputs i t r)"
    and "(w', db') = foldl worker_step (w, db) es"
  shows "(terminal (wk_state w') \<longrightarrow> \<not> wk_managing w' \<and> wk_stopSnapshot w' \<noteq> Some False \<and>
      wk_state (fst (foldl worker_step (w, db) (es @ es'))) = wk_state w') \<and>
    (wk_state w' = WorkerStopped \<longrightarrow> wk_canceled w') \<and>
    (wk_flushed w' = Some b \<longrightarrow> b = (wk_state w' = WorkerStopped) \<and> terminal (wk_state w'))"
proof -
  have "worker_inv w" using assms(1) new_worker_inv by blast
  then have inv: "worker_inv w'"
    using worker_run.run_inv [of "(w, db)" es] assms(2) by (metis fst_conv list_all_iff)
  then have "wk_state (fst (foldl worker_step (w, db) (es @ es'))) = wk_state w'" if "terminal (wk_state w')"
    using ended_worker_stays_run [of "(w', db')" es'] that assms(2) by (metis foldl_append fst_conv)
  with inv show ?thesis by (auto simp: worker_inv_def)
qed

subsection \<open>Capacity\<close>

abbreviation total_weight :: "(string, Worker) gomap \<Rightarrow> goint" where
  "total_weight ws \<equiv> sum_list (map (\<lambda>(i, w). groupWeight (wk_group w)) ws)"

definition node_ok :: "Node \<Rightarrow> bool" where
  "node_ok n \<longleftrightarrow> gomap_ok (nd_workers n) \<and> 0 < nc_MaxGroups (nd_cfg n) \<and> 0 < nc_MaxWeight (nd_cfg n) \<and>
     0 < nc_LeaseTTL (nd_cfg n) \<and> int (length (nd_workers n)) \<le> nc_MaxGroups (nd_cfg n) \<and>
     total_weight (nd_workers n) \<le> nc_MaxWeight (nd_cfg n)"

lemma groupWeight_pos: "0 < groupWeight g"
  by (simp add: groupWeight_def)

lemma total_weight_filter: "total_weight (filter P ws) \<le> total_weight ws"
  using groupWeight_pos by (induction ws) (auto simp: less_imp_le add_increasing)

lemma gomap_ok_filter: "gomap_ok m \<Longrightarrow> gomap_ok (filter P m)"
  by (rule distinct_map_filter)

lemma AList_delete_filter: "AList.delete k m = filter (\<lambda>(i, w). i \<noteq> k) m"
  by (induction m) (auto simp: AList.delete_eq)

lemma AList_update_new: "k \<notin> fst ` set m \<Longrightarrow> AList.update k v m = m @ [(k, v)]"
  by (induction m) auto

lemma node_ok_filter:
  assumes "node_ok n" "nd_workers n' = filter P (nd_workers n)" "nd_cfg n' = nd_cfg n"
  shows "node_ok n'"
proof -
  have "int (length (filter P (nd_workers n))) \<le> int (length (nd_workers n))" by simp
  with assms total_weight_filter [of P "nd_workers n"] show ?thesis
    unfolding node_ok_def by (metis gomap_ok_filter order_trans)
qed

lemma pruneDeadWorkers_frame:
  assumes "pruneDeadWorkers ans n db = (n', db')"
  shows "nd_workers n' = filter (\<lambda>(i, w). \<not> terminal (wk_state w)) (nd_workers n)" "nd_cfg n' = nd_cfg n"
  using assms by (auto simp: pruneDeadWorkers_def Let_def)

lemma stopWorker_frame:
  assumes "stopWorker ans (n, db) gid = (n', db')"
  shows "nd_workers n' = filter (\<lambda>(i, w). i \<noteq> gid) (nd_workers n)" "nd_cfg n' = nd_cfg n"
proof -
  have "filter (\<lambda>(i, w). i \<noteq> gid) ws = ws" if "map_of ws gid = None" for ws :: "(string, Worker) gomap"
    using that by (force simp: filter_id_conv map_of_eq_None_iff image_iff)
  then show "nd_workers n' = filter (\<lambda>(i, w). i \<noteq> gid) (nd_workers n)" "nd_cfg n' = nd_cfg n"
    using assms
    by (auto simp: stopWorker_def Let_def AList_delete_filter split: option.splits if_splits simp del: map_of_eq_Some_iff)
qed

lemma stopWorkers_frame:
  assumes "foldl (stopWorker ans) (n, db) ids = (n', db')"
  shows "nd_workers n' = filter (\<lambda>(i, w). i \<notin> set ids) (nd_workers n) \<and> nd_cfg n' = nd_cfg n"
  using assms
proof (induction ids arbitrary: n db)
  case Nil
  then show ?case by (auto simp: filter_id_conv)
next
  case (Cons i ids)
  obtain n1 db1 where one: "stopWorker ans (n, db) i = (n1, db1)" by fastforce
  have "nd_workers n' = filter (\<lambda>(j, w). j \<notin> set ids) (nd_workers n1) \<and> nd_cfg n' = nd_cfg n1"
    by (rule Cons.IH [of n1 db1]) (use Cons.prems one in simp)
  then show ?case using stopWorker_frame [OF one] by (auto intro!: filter_cong)
qed

lemma fresh_worker_group:
  "wk_group (newWorker g inputs i t r) = g" "wk_group (enableConsumptionWithConfig bs c w) = wk_group w"
  by (simp_all add: newWorker_def enableConsumptionWithConfig_def Let_def)

lemma tryStartWorker_frame:
  assumes "tryStartWorker ans g n db = (ok, n', db')"
  shows "nd_cfg n' = nd_cfg n" "\<not> ok \<Longrightarrow> n' = n"
    and "ok \<Longrightarrow> \<exists>w. wk_group w = g \<and> nd_workers n' = AList.update (mg_GroupID g) w (nd_workers n)"
proof -
  show "nd_cfg n' = nd_cfg n" "\<not> ok \<Longrightarrow> n' = n"
    using assms by (auto simp: tryStartWorker_def Let_def split: prod.splits sum.splits if_splits)
  assume ok
  with assms obtain inputs where "nd_workers n' = AList.update (mg_GroupID g)
      (case nd_consumption n of
         None \<Rightarrow> newWorker g inputs (nc_NodeID (nd_cfg n)) (nc_LeaseTTL (nd_cfg n)) (nc_RenewInterval (nd_cfg n))
       | Some c \<Rightarrow> enableConsumptionWithConfig (nd_brokers n) c
           (newWorker g inputs (nc_NodeID (nd_cfg n)) (nc_LeaseTTL (nd_cfg n)) (nc_RenewInterval (nd_cfg n))))
      (nd_workers n)"
    by (auto simp: tryStartWorker_def Let_def split: prod.splits sum.splits if_splits)
  then show "\<exists>w. wk_group w = g \<and> nd_workers n' = AList.update (mg_GroupID g) w (nd_workers n)"
    by (intro exI conjI) (auto simp: fresh_worker_group split: option.split)
qed

text \<open>The start loop: how many workers it may add, and with which weight.\<close>

lemma start_loop_ok:
  assumes "start_loop ans slots started weight gs n db = (n', db')"
    and "node_ok n" "weight = total_weight (nd_workers n)"
    and "started \<le> slots \<Longrightarrow> int (length (nd_workers n)) + (slots - started) \<le> nc_MaxGroups (nd_cfg n)"
    and "distinct (map mg_GroupID gs)" "mg_GroupID ` set gs \<inter> fst ` set (nd_workers n) = {}"
  shows "node_ok n' \<and> nd_cfg n' = nd_cfg n"
  using assms
proof (induction gs arbitrary: started weight n db)
  case (Cons g gs)
  show ?case
  proof (cases "started \<ge> slots \<or> weight + groupWeight g > nc_MaxWeight (nd_cfg n)")
    case True
    then show ?thesis
    proof (cases "started \<ge> slots")
      case False
      with True Cons.prems(1,2) have "start_loop ans slots started weight gs n db = (n', db')"
        by (simp add: node_ok_def)
      from Cons.IH [OF this Cons.prems(2-4)] Cons.prems(5,6) show ?thesis by auto
    qed (use Cons.prems in simp)
  next
    case False
    obtain ok n1 db1 where t: "tryStartWorker ans g n db = (ok, n1, db1)" by (metis prod_cases3)
    note fr = tryStartWorker_frame [OF t]
    show ?thesis
    proof (cases ok)
      case False
      with fr(2) \<open>\<not> (started \<ge> slots \<or> _)\<close> Cons.prems(1) t
      have "start_loop ans slots started weight gs n db1 = (n', db')" by simp
      from Cons.IH [OF this Cons.prems(2-4)] Cons.prems(5,6) show ?thesis by auto
    next
      case True
      with fr(3) obtain w where w: "wk_group w = g"
        "nd_workers n1 = AList.update (mg_GroupID g) w (nd_workers n)" by blast
      have new: "mg_GroupID g \<notin> fst ` set (nd_workers n)" using Cons.prems(6) by auto
      have ws: "nd_workers n1 = nd_workers n @ [(mg_GroupID g, w)]" using w(2) AList_update_new [OF new] by simp
      have rec: "start_loop ans slots (started + 1) (weight + groupWeight g) gs n1 db1 = (n', db')"
        using Cons.prems(1) True \<open>\<not> (started \<ge> slots \<or> _)\<close> t by simp
      have "node_ok n1"
        using Cons.prems(2-4) False ws w(1) fr(1) new by (auto simp: node_ok_def)
      moreover have "weight + groupWeight g = total_weight (nd_workers n1)" using ws w(1) Cons.prems(3) by simp
      moreover have "int (length (nd_workers n1)) + (slots - (started + 1)) \<le> nc_MaxGroups (nd_cfg n1)"
        using Cons.prems(4) False ws fr(1) by simp
      moreover have "mg_GroupID ` set gs \<inter> fst ` set (nd_workers n1) = {}" using Cons.prems(5,6) ws by auto
      ultimately show ?thesis using Cons.IH [OF rec] Cons.prems(5) fr(1) by auto
    qed
  qed
qed simp

lemma groups_for_ids: "map mg_GroupID (groups_for groups ids) = filter (\<lambda>i. i \<in> mg_GroupID ` set groups) ids"
proof (induction ids)
  case (Cons i ids)
  show ?case
  proof (cases "find (\<lambda>g. mg_GroupID g = i) (rev groups)")
    case None
    then have "i \<notin> mg_GroupID ` set groups" by (auto simp: find_None_iff)
    with None Cons show ?thesis by (simp add: groups_for_def List.map_filter_simps)
  next
    case (Some g)
    from find_Some_iff_mem [OF this] have "mg_GroupID g = i" "g \<in> set groups" by simp_all
    with Some Cons show ?thesis by (auto simp: groups_for_def List.map_filter_simps)
  qed
qed (simp add: groups_for_def List.map_filter_simps)

text \<open>The state between the stops and the starts of a pass.\<close>

lemma stopped_for_plan:
  assumes ok: "node_ok n" and plan: "plan = planReconcile desired (runningGroupIDs n) (nc_MaxGroups (nd_cfg n))"
    and st: "foldl (stopWorker ans) (n, db) (rp_toStop plan) = (n1, db1)"
  shows "node_ok n1" "nd_cfg n1 = nd_cfg n"
    and "nd_workers n1 = filter (\<lambda>(i, w). i \<in> set desired) (nd_workers n)"
    and "rp_startSlots plan = min (max 0 (nc_MaxGroups (nd_cfg n) - int (length (nd_workers n1))))
      (int (length (rp_toStart plan)))"
proof -
  have dist: "distinct (runningGroupIDs n)" using ok by (simp add: node_ok_def runningGroupIDs_def)
  note fr = stopWorkers_frame [OF st]
  have "set (rp_toStop plan) = set (runningGroupIDs n) - set desired"
    by (auto simp: plan planReconcile_def Let_def)
  then show ws: "nd_workers n1 = filter (\<lambda>(i, w). i \<in> set desired) (nd_workers n)"
    using fr by (auto simp: runningGroupIDs_def intro!: filter_cong) (force simp: image_iff)+
  show cfg: "nd_cfg n1 = nd_cfg n" using fr by blast
  show "node_ok n1" by (rule node_ok_filter [OF ok ws cfg])
  have "length (nd_workers n1) = length (filter (\<lambda>i. i \<in> set desired) (runningGroupIDs n))"
    by (simp add: ws runningGroupIDs_def filter_map comp_def case_prod_unfold)
  moreover have "length (runningGroupIDs n) = length (filter (\<lambda>i. i \<in> set desired) (runningGroupIDs n)) +
      length (filter (\<lambda>i. i \<notin> set desired) (runningGroupIDs n))"
    by (rule sum_length_filter_compl [symmetric])
  ultimately show "rp_startSlots plan = min (max 0 (nc_MaxGroups (nd_cfg n) - int (length (nd_workers n1))))
      (int (length (rp_toStart plan)))"
    using ok dist by (simp add: plan planReconcile_def Let_def node_ok_def distinct_remdups_id)
qed

lemma releaseLease_groups [simp]: "md_groups (releaseLease f n gid db) = md_groups db"
  by (simp add: releaseLease_def ReleaseGroupLease_def run_stmt_def split: stmt_fault.split option.split)

lemma stopWorkers_groups: "md_groups (snd (foldl (stopWorker ans) s ids)) = md_groups (snd s)"
proof -
  have one: "md_groups (snd (stopWorker ans s i)) = md_groups (snd s)" for s i
    by (simp add: stopWorker_def Let_def split: prod.splits option.splits)
  show ?thesis by (induction ids arbitrary: s) (simp_all add: one)
qed

lemma pruneDeadWorkers_groups: "md_groups (snd (pruneDeadWorkers ans n db)) = md_groups db"
proof -
  have "md_groups (foldl (\<lambda>db gid. releaseLease (pa_prune ans gid) n gid db) db ids) = md_groups db" for ids db
    by (induction ids arbitrary: db) simp_all
  then show ?thesis by (simp add: pruneDeadWorkers_def Let_def)
qed

abbreviation runnable :: "meta_db \<Rightarrow> MarketGroup set" where
  "runnable db \<equiv> {g \<in> set (md_groups db). mg_DesiredStatus g = DesiredStatusRunning}"

lemma groups_for_candidates:
  assumes "set ids \<subseteq> mg_GroupID ` set groups"
  shows "map mg_GroupID (groups_for groups ids) = ids" "set (groups_for groups ids) \<subseteq> set groups"
proof -
  show "map mg_GroupID (groups_for groups ids) = ids"
    unfolding groups_for_ids by (rule filter_True) (use assms(1) in blast)
  show "set (groups_for groups ids) \<subseteq> set groups"
  proof
    fix g assume "g \<in> set (groups_for groups ids)"
    then obtain i where "find (\<lambda>g. mg_GroupID g = i) (rev groups) = Some g"
      by (auto simp: groups_for_def List.map_filter_def)
    from find_Some_iff_mem [OF this] show "g \<in> set groups" by simp
  qed
qed

text \<open>A pass that gets its list: the node between the stops and the starts, and what the loop is given.\<close>

lemma reconcile_stages:
  assumes "node_ok n" "reconcileOnce ans n db = (n', db')" "\<not> pa_listFails ans"
  obtains n1 db1 gs where
    "node_ok n1" "nd_cfg n1 = nd_cfg n" "md_groups db1 = md_groups db"
    "start_loop ans (min (max 0 (nc_MaxGroups (nd_cfg n) - int (length (nd_workers n1)))) (int (length gs))) 0
       (total_weight (nd_workers n1)) gs n1 db1 = (n', db')"
    "distinct (map mg_GroupID gs)" "mg_GroupID ` set gs \<inter> fst ` set (nd_workers n1) = {}"
    "set gs \<subseteq> runnable db" "fst ` set (nd_workers n1) \<subseteq> mg_GroupID ` runnable db"
    "mg_GroupID ` runnable db \<subseteq> fst ` set (nd_workers n1) \<union> mg_GroupID ` set gs"
proof -
  obtain n0 db0 where p: "pruneDeadWorkers ans n db = (n0, db0)" by fastforce
  note prune = pruneDeadWorkers_frame [OF p]
  have ok0: "node_ok n0" by (rule node_ok_filter [OF assms(1) prune])
  have g0: "md_groups db0 = md_groups db" using pruneDeadWorkers_groups [of ans n db] p by simp
  define groups where "groups = sort_key mg_GroupID (filter (\<lambda>g. mg_DesiredStatus g = DesiredStatusRunning) (md_groups db))"
  have groups: "ListRunnableGroups (pa_listFails ans) db0 = Inr groups" "set groups = runnable db"
    using assms(3) by (auto simp: ListRunnableGroups_def groups_def g0)
  define plan where "plan = planReconcile (map mg_GroupID groups) (runningGroupIDs n0) (nc_MaxGroups (nd_cfg n0))"
  obtain n1 db1 where st: "foldl (stopWorker ans) (n0, db0) (rp_toStop plan) = (n1, db1)" by fastforce
  note mid = stopped_for_plan [OF ok0 plan_def st]
  have start: "set (rp_toStart plan) = mg_GroupID ` set groups - set (runningGroupIDs n0)" "distinct (rp_toStart plan)"
    by (auto simp: plan_def planReconcile_def Let_def)
  let ?gs = "groups_for groups (rp_toStart plan)"
  note gf = groups_for_candidates [of "rp_toStart plan" groups]
  have ids: "map mg_GroupID ?gs = rp_toStart plan" "set ?gs \<subseteq> set groups" using gf start(1) by auto
  have len: "length ?gs = length (rp_toStart plan)" using arg_cong [OF ids(1), of length] by simp
  have img: "mg_GroupID ` set ?gs = set (rp_toStart plan)" using arg_cong [OF ids(1), of set] by simp
  have run: "start_loop ans (rp_startSlots plan) 0 (total_weight (nd_workers n1)) ?gs n1 db1 = (n', db')"
    using assms(2) p groups(1) st by (simp add: reconcileOnce_def plan_def [symmetric] Let_def capacity_def)
  have cfg: "nd_cfg n1 = nd_cfg n" using mid(2) prune(2) by simp
  have w1: "fst ` set (nd_workers n1) = set (runningGroupIDs n0) \<inter> mg_GroupID ` set groups"
    using mid(3) by (force simp: runningGroupIDs_def)
  show thesis
  proof (rule that [of n1 db1 ?gs])
    show "start_loop ans (min (max 0 (nc_MaxGroups (nd_cfg n) - int (length (nd_workers n1)))) (int (length ?gs))) 0
       (total_weight (nd_workers n1)) ?gs n1 db1 = (n', db')" using run mid(2,4) cfg len by simp
    show "md_groups db1 = md_groups db" using stopWorkers_groups [of ans "(n0, db0)" "rp_toStop plan"] st g0 by simp
  qed (use mid(1) cfg ids start img w1 groups(2) in auto)
qed

lemma reconcileOnce_ok:
  assumes "node_ok n" "reconcileOnce ans n db = (n', db')"
  shows "node_ok n' \<and> nd_cfg n' = nd_cfg n"
proof (cases "pa_listFails ans")
  case True
  obtain n0 db0 where p: "pruneDeadWorkers ans n db = (n0, db0)" by fastforce
  note prune = pruneDeadWorkers_frame [OF p]
  have "n' = n0" using assms(2) p True by (simp add: reconcileOnce_def ListRunnableGroups_def)
  with node_ok_filter [OF assms(1) prune] prune(2) show ?thesis by simp
next
  case False
  obtain n1 db1 gs where
    st: "node_ok n1" "nd_cfg n1 = nd_cfg n" "md_groups db1 = md_groups db"
    "start_loop ans (min (max 0 (nc_MaxGroups (nd_cfg n) - int (length (nd_workers n1)))) (int (length gs))) 0
       (total_weight (nd_workers n1)) gs n1 db1 = (n', db')"
    "distinct (map mg_GroupID gs)" "mg_GroupID ` set gs \<inter> fst ` set (nd_workers n1) = {}"
    by (rule reconcile_stages [OF assms False])
  have "int (length (nd_workers n1)) \<le> nc_MaxGroups (nd_cfg n)" using st(1,2) by (simp add: node_ok_def)
  then have "node_ok n' \<and> nd_cfg n' = nd_cfg n1"
    by (intro start_loop_ok [OF st(4,1) refl _ st(5,6)]) (simp add: st(2))
  with st(2) show ?thesis by simp
qed

lemma worker_step_group: "wk_group (fst (worker_step s ev)) = wk_group (fst s)"
proof -
  obtain w db where s: "s = (w, db)" by (cases s)
  have fin: "wk_group (fst (run_end faults now r w db')) = wk_group w" for faults now r db'
    by (cases r) (simp add: run_end_def finish_def Let_def)
  show ?thesis
  proof (cases ev)
    case (LeaseTick fault errText now faults)
    obtain r db' where r: "RenewGroupLease fault now db (mg_GroupID (wk_group w)) (wk_nodeID w) (wk_ttl w) = (r, db')"
      by fastforce
    show ?thesis by (cases "lease_tick errText r (wk_canceled w)") (simp_all add: s LeaseTick r fin)
  qed (simp_all add: s fin run_begin_def request_stop_def Let_def)
qed

lemma AList_update_same_weight:
  assumes "map_of ws i = Some w" "groupWeight (wk_group w') = groupWeight (wk_group w)"
  shows "length (AList.update i w' ws) = length ws \<and> total_weight (AList.update i w' ws) = total_weight ws"
  using assms by (induction ws) auto

lemma shutdown_frame:
  assumes "shutdown ans f1 f2 n db = (n', db')"
  shows "nd_workers n' = []" "nd_cfg n' = nd_cfg n"
proof -
  obtain n1 db1 where st: "foldl (stopWorker ans)
      (n, updateNodeStatus f1 (pa_now ans) NodeStatusDraining n db) (runningGroupIDs n) = (n1, db1)" by fastforce
  have "n' = n1" using assms st by (simp add: shutdown_def Let_def)
  with stopWorkers_frame [OF st] show "nd_workers n' = []" "nd_cfg n' = nd_cfg n"
    by (force simp: runningGroupIDs_def filter_empty_conv image_iff)+
qed

lemma node_step_ok:
  assumes "node_ok (fst s)"
  shows "node_ok (fst (node_step s ev)) \<and> nd_cfg (fst (node_step s ev)) = nd_cfg (fst s)"
proof -
  obtain n db where s: "s = (n, db)" by (cases s)
  have n: "node_ok n" using assms by (simp add: s)
  show ?thesis
  proof (cases ev)
    case (Pass ans)
    then show ?thesis using reconcileOnce_ok [OF n] by (cases "reconcileOnce ans n db") (simp add: s)
  next
    case (WorkerMoves gid e)
    show ?thesis
    proof (cases "map_of (nd_workers n) gid")
      case (Some w)
      obtain w' db' where st: "worker_step (w, db) e = (w', db')" by fastforce
      then have "wk_group w' = wk_group w" using worker_step_group [of "(w, db)" e] by simp
      with Some n st show ?thesis
        using AList_update_same_weight [of "nd_workers n" gid w w']
        by (simp add: s WorkerMoves node_ok_def distinct_update del: map_of_eq_Some_iff)
    qed (use n in \<open>simp add: s WorkerMoves\<close>)
  next
    case (DrainingMoves k e)
    then show ?thesis using n
      by (cases "worker_step (snd (nd_draining n ! k), db) e") (simp add: s node_ok_def)
  next
    case (NodeStops ans f1 f2)
    obtain n' db' where sh: "shutdown ans f1 f2 n db = (n', db')" by fastforce
    then show ?thesis using n shutdown_frame [OF sh] by (simp add: s NodeStops node_ok_def)
  qed (use n in \<open>simp_all add: s\<close>)
qed

interpretation node_run: stepper node_step "\<lambda>s. node_ok (fst s) \<and> nd_cfg (fst s) = cfg" "\<lambda>_. True"
  for cfg
  by unfold_locales (use node_step_ok in blast)

lemma new_node_ok: "node_ok (NewNode cfg)" "node_ok n \<Longrightarrow> node_ok (EnableConsumptionWithConfig bs c n)"
  by (simp_all add: node_ok_def NewNode_def NodeConfig_withDefaults_def EnableConsumptionWithConfig_def Let_def
      second_def)

lemma enabled_cfg [simp]: "nd_cfg (EnableConsumptionWithConfig bs c n) = nd_cfg n"
  by (simp add: EnableConsumptionWithConfig_def)


subsection \<open>Progress of a pass\<close>

definition held_elsewhere :: "time \<Rightarrow> string \<Rightarrow> meta_db \<Rightarrow> string \<Rightarrow> bool" where
  "held_elsewhere now nodeID db gid =
     (case md_leases db gid of None \<Rightarrow> False | Some l \<Rightarrow> gl_NodeID l \<noteq> nodeID \<and> now \<le> gl_LeaseExpiresAt l)"

definition faultless :: "pass_answers \<Rightarrow> bool" where
  "faultless ans \<longleftrightarrow> \<not> pa_listFails ans \<and> (\<forall>i. pa_acquire ans i = StmtOk \<and> \<not> pa_inputsFail ans i)"

lemma tryStartWorker_answers:
  assumes "faultless ans" "0 < nc_LeaseTTL (nd_cfg n)" "has_group db (mg_GroupID g)"
    and "tryStartWorker ans g n db = (ok, n', db')"
  shows "\<not> ok \<Longrightarrow> db' = db \<and> held_elsewhere (pa_now ans) (nc_NodeID (nd_cfg n)) db (mg_GroupID g)"
    and "held_elsewhere (pa_now ans) (nc_NodeID (nd_cfg n)) db i \<Longrightarrow>
      held_elsewhere (pa_now ans) (nc_NodeID (nd_cfg n)) db' i"
    and "md_groups db' = md_groups db"
  using assms
  by (auto simp: tryStartWorker_def Let_def faultless_def TryAcquireGroupLease_def run_stmt_def
      ListGroupInputs_def held_elsewhere_def split: option.splits if_splits)

text \<open>What the start loop leaves undone, and that it only adds workers.\<close>

lemma start_loop_progress:
  assumes "start_loop ans slots started weight gs n db = (n', db')"
    and "faultless ans" "0 < nc_LeaseTTL (nd_cfg n)" "weight = total_weight (nd_workers n)" "started \<le> slots"
    and "\<forall>g \<in> set gs. has_group db (mg_GroupID g)"
    and "distinct (map mg_GroupID gs)" "mg_GroupID ` set gs \<inter> fst ` set (nd_workers n) = {}"
    and "node = nc_NodeID (nd_cfg n)"
  shows "fst ` set (nd_workers n) \<subseteq> fst ` set (nd_workers n') \<and>
    fst ` set (nd_workers n') \<subseteq> fst ` set (nd_workers n) \<union> mg_GroupID ` set gs \<and>
    total_weight (nd_workers n) \<le> total_weight (nd_workers n') \<and>
    (\<forall>i. held_elsewhere (pa_now ans) node db i \<longrightarrow> held_elsewhere (pa_now ans) node db' i) \<and>
    (\<forall>g \<in> set gs. mg_GroupID g \<in> fst ` set (nd_workers n') \<or>
       slots - started < int (length gs) \<and> int (length (nd_workers n')) = int (length (nd_workers n)) + (slots - started) \<or>
       total_weight (nd_workers n') + groupWeight g > nc_MaxWeight (nd_cfg n) \<or>
       held_elsewhere (pa_now ans) node db' (mg_GroupID g))"
  using assms
proof (induction gs arbitrary: started weight n db)
  case (Cons g gs)
  note ih = Cons.IH [OF _ Cons.prems(2)] and prems = Cons.prems
  have gs: "\<forall>g \<in> set gs. has_group db (mg_GroupID g)" "distinct (map mg_GroupID gs)"
    "mg_GroupID ` set gs \<inter> fst ` set (nd_workers n) = {}" using prems(6-8) by auto
  consider (full) "started \<ge> slots"
    | (heavy) "started < slots" "0 < nc_MaxWeight (nd_cfg n)" "weight + groupWeight g > nc_MaxWeight (nd_cfg n)"
    | (attempt) "started < slots" "\<not> (0 < nc_MaxWeight (nd_cfg n) \<and> weight + groupWeight g > nc_MaxWeight (nd_cfg n))"
    by fastforce
  then show ?case
  proof cases
    case full
    with prems(1,5) show ?thesis by auto
  next
    case heavy
    with prems(1) have "start_loop ans slots started weight gs n db = (n', db')" by simp
    from ih [OF this prems(3-5) gs prems(9)] heavy prems(4) show ?thesis by auto
  next
    case attempt
    obtain ok n1 db1 where t: "tryStartWorker ans g n db = (ok, n1, db1)" by (metis prod_cases3)
    have hg: "has_group db (mg_GroupID g)" using prems(6) by simp
    note fr = tryStartWorker_frame [OF t] and ans = tryStartWorker_answers [OF prems(2,3) hg t]
    show ?thesis
    proof (cases ok)
      case False
      with fr(2) attempt prems(1) t have "start_loop ans slots started weight gs n db1 = (n', db')" by auto
      with ans(1) False have "start_loop ans slots started weight gs n db = (n', db')" by simp
      from ih [OF this prems(3-5) gs prems(9)] ans(1) [OF False] prems(9) show ?thesis by auto
    next
      case True
      with fr(3) obtain w where w: "wk_group w = g"
        "nd_workers n1 = AList.update (mg_GroupID g) w (nd_workers n)" by blast
      have new: "mg_GroupID g \<notin> fst ` set (nd_workers n)" using prems(8) by auto
      have ws: "nd_workers n1 = nd_workers n @ [(mg_GroupID g, w)]" using w(2) AList_update_new [OF new] by simp
      have rec: "start_loop ans slots (started + 1) (weight + groupWeight g) gs n1 db1 = (n', db')"
        using prems(1) True attempt t by auto
      have has: "\<forall>g \<in> set gs. has_group db1 (mg_GroupID g)" using gs(1) ans(3) by (simp add: has_group_iff)
      have fresh: "mg_GroupID ` set gs \<inter> fst ` set (nd_workers n1) = {}" using prems(7,8) ws by auto
      have pre: "0 < nc_LeaseTTL (nd_cfg n1)" "weight + groupWeight g = total_weight (nd_workers n1)"
        "started + 1 \<le> slots" "node = nc_NodeID (nd_cfg n1)"
        using prems(3,4,9) ws w(1) attempt fr(1) by simp_all
      note r = ih [OF rec pre(1-3) has gs(2) fresh pre(4)]
      then have "mg_GroupID g \<in> fst ` set (nd_workers n')" using ws by auto
      with r show ?thesis using ws w(1) groupWeight_pos [of g] ans(2) fr(1) prems(9) by (auto simp: algebra_simps)
    qed
  qed
qed simp

lemma reconcile_progress:
  assumes "node_ok n" "meta_inv db" "faultless ans" "reconcileOnce ans n db = (n', db')"
  shows "set (runningGroupIDs n') \<subseteq> mg_GroupID ` runnable db \<and>
    (\<forall>g \<in> runnable db.
       mg_GroupID g \<in> set (runningGroupIDs n') \<or>
       rc_CurrentGroups (capacity n') = nc_MaxGroups (nd_cfg n) \<or>
       rc_CurrentWeight (capacity n') + groupWeight g > nc_MaxWeight (nd_cfg n) \<or>
       held_elsewhere (pa_now ans) (nc_NodeID (nd_cfg n)) db' (mg_GroupID g))"
proof -
  have listed: "\<not> pa_listFails ans" using assms(3) by (simp add: faultless_def)
  obtain n1 db1 gs where
    st: "node_ok n1" "nd_cfg n1 = nd_cfg n" "md_groups db1 = md_groups db"
    and run: "start_loop ans (min (max 0 (nc_MaxGroups (nd_cfg n) - int (length (nd_workers n1)))) (int (length gs))) 0
       (total_weight (nd_workers n1)) gs n1 db1 = (n', db')"
    and gs: "distinct (map mg_GroupID gs)" "mg_GroupID ` set gs \<inter> fst ` set (nd_workers n1) = {}" "set gs \<subseteq> runnable db"
    and ids: "fst ` set (nd_workers n1) \<subseteq> mg_GroupID ` runnable db"
      "mg_GroupID ` runnable db \<subseteq> fst ` set (nd_workers n1) \<union> mg_GroupID ` set gs"
    by (rule reconcile_stages [OF assms(1,4) listed])
  have n1: "0 < nc_LeaseTTL (nd_cfg n1)" "int (length (nd_workers n1)) \<le> nc_MaxGroups (nd_cfg n)"
    using st(1,2) by (simp_all add: node_ok_def)
  have has: "\<forall>g \<in> set gs. has_group db1 (mg_GroupID g)" using gs(3) by (auto simp: has_group_iff st(3))
  have "0 \<le> min (max 0 (nc_MaxGroups (nd_cfg n) - int (length (nd_workers n1)))) (int (length gs))" by simp
  note loop = start_loop_progress [OF run assms(3) n1(1) refl this has gs(1,2) refl, unfolded st(2)]
  have running: "set (runningGroupIDs m) = fst ` set (nd_workers m)" for m by (simp add: runningGroupIDs_def)
  have "mg_GroupID g \<in> fst ` set (nd_workers n') \<or> int (length (nd_workers n')) = nc_MaxGroups (nd_cfg n) \<or>
      total_weight (nd_workers n') + groupWeight g > nc_MaxWeight (nd_cfg n) \<or>
      held_elsewhere (pa_now ans) (nc_NodeID (nd_cfg n)) db' (mg_GroupID g)" if g: "g \<in> runnable db" for g
  proof (cases "mg_GroupID g \<in> fst ` set (nd_workers n1)")
    case False
    with ids(2) g obtain h where h: "h \<in> set gs" "mg_GroupID h = mg_GroupID g" by force
    have "inj_on mg_GroupID (set (md_groups db))" using assms(2) by (simp add: meta_inv_def groups_ok_def distinct_map)
    with h g gs(3) have "h = g" by (auto dest: inj_onD)
    with loop h(1) n1(2) show ?thesis by auto
  qed (use loop in blast)
  moreover have "fst ` set (nd_workers n') \<subseteq> mg_GroupID ` runnable db" using loop ids(1) gs(3) by blast
  ultimately show ?thesis unfolding running by (simp add: capacity_def)
qed

text \<open>
  C20. A scheduling pass whose database calls succeed makes full use of the node: it ends with only
  desired groups running, and every group desired to run is running on this node, or the node runs as
  many groups as it may, or the group's weight does not fit in what is left, or another node holds its
  lease and the lease has not expired.
\<close>

theorem reconcile_fills_capacity:
  assumes "node_ok n" "meta_inv db" "faultless ans" "reconcileOnce ans n db = (n', db')"
  shows "set (runningGroupIDs n') \<subseteq> mg_GroupID ` runnable db \<and>
    (\<forall>g \<in> runnable db.
       mg_GroupID g \<in> set (runningGroupIDs n') \<or>
       rc_CurrentGroups (capacity n') = nc_MaxGroups (nd_cfg n) \<or>
       rc_CurrentWeight (capacity n') + groupWeight g > nc_MaxWeight (nd_cfg n) \<or>
       held_elsewhere (pa_now ans) (nc_NodeID (nd_cfg n)) db' (mg_GroupID g))"
  by (rule reconcile_progress [OF assms])

text \<open>The first pass of a node over a single free group.\<close>

lemma first_pass:
  assumes "node_ok n" "nd_workers n = []" "md_groups db = [g]" "mg_DesiredStatus g = DesiredStatusRunning"
    and "md_leases db (mg_GroupID g) = None" "groupWeight g \<le> nc_MaxWeight (nd_cfg n)" "faultless ans"
    and "reconcileOnce ans n db = (n', db')"
  shows "\<exists>w. nd_workers n' = [(mg_GroupID g, w)]" "nd_cfg n' = nd_cfg n"
    and "\<exists>l. md_leases db' (mg_GroupID g) = Some l \<and> gl_NodeID l = nc_NodeID (nd_cfg n)"
proof -
  let ?gid = "mg_GroupID g" and ?cfg = "nd_cfg n"
  have ok: "0 < nc_MaxGroups ?cfg" "0 < nc_LeaseTTL ?cfg" using assms(1) by (simp_all add: node_ok_def)
  have "pruneDeadWorkers ans n db = (n, db)" by (simp add: pruneDeadWorkers_def assms(2))
  moreover have "ListRunnableGroups (pa_listFails ans) db = Inr [g]"
    using assms(7) by (simp add: ListRunnableGroups_def faultless_def assms(3,4))
  moreover have "planReconcile [?gid] [] (nc_MaxGroups ?cfg) = \<lparr> rp_toStart = [?gid], rp_toStop = [], rp_startSlots = 1 \<rparr>"
    using ok(1) by (simp add: planReconcile_def Let_def)
  moreover have "groups_for [g] [?gid] = [g]" by (simp add: groups_for_def List.map_filter_simps)
  ultimately have run: "start_loop ans 1 0 0 [g] n db = (n', db')"
    using assms(8) by (simp add: reconcileOnce_def runningGroupIDs_def capacity_def assms(2))
  obtain ok' n1 db1 where t: "tryStartWorker ans g n db = (ok', n1, db1)" by (metis prod_cases3)
  have has: "has_group db ?gid" by (simp add: has_group_def assms(3))
  from tryStartWorker_answers(1) [OF assms(7) ok(2) has t] assms(5) have ok'
    by (auto simp: held_elsewhere_def)
  then have n': "n' = n1" "db' = db1" using run t assms(6) by simp_all
  from tryStartWorker_frame [OF t] \<open>ok'\<close> assms(2) show "\<exists>w. nd_workers n' = [(?gid, w)]" "nd_cfg n' = ?cfg" by (auto simp: n')
  show "\<exists>l. md_leases db' ?gid = Some l \<and> gl_NodeID l = nc_NodeID ?cfg"
    using t \<open>ok'\<close> assms(5,7) ok(2) has
    by (auto simp: n' tryStartWorker_def Let_def TryAcquireGroupLease_def run_stmt_def faultless_def ListGroupInputs_def)
qed

subsection \<open>A stop that times out\<close>

text \<open>
  When \<open>Stop\<close> times out, \<open>stopWorker\<close> leaves the lease so that its expiry keeps the group from being
  started while the old worker drains. This holds against other nodes only: the lease can be acquired
  again by the node that holds it, so if the group is desired again this node starts a second worker
  for it at once, while the first one is still draining.
\<close>

theorem timed_out_stop_allows_second_worker:
  assumes "map_of (nd_workers n) (mg_GroupID g) = Some w" "\<not> pa_stopped ans (mg_GroupID g)"
    and "md_leases db (mg_GroupID g) = Some l" "gl_NodeID l = nc_NodeID (nd_cfg n)" "0 < nc_LeaseTTL (nd_cfg n)"
    and "pa_acquire ans' (mg_GroupID g) = StmtOk" "\<not> pa_inputsFail ans' (mg_GroupID g)"
    and "stopWorker ans (n, db) (mg_GroupID g) = (n1, db1)" "tryStartWorker ans' g n1 db1 = (ok, n2, db2)"
  shows "ok \<and> (mg_GroupID g, request_stop w) \<in> set (nd_draining n2) \<and> mg_GroupID g \<in> set (runningGroupIDs n2)"
proof -
  have n1: "n1 = n\<lparr>nd_workers := AList.delete (mg_GroupID g) (nd_workers n),
      nd_draining := nd_draining n @ [(mg_GroupID g, request_stop w)]\<rparr>" and db1: "db1 = db"
    using assms(1,2,8) by (simp_all add: stopWorker_def Let_def del: map_of_eq_Some_iff)
  show ?thesis
    using assms(3-7,9)
    by (auto simp: n1 db1 tryStartWorker_def Let_def TryAcquireGroupLease_def run_stmt_def ListGroupInputs_def
        runningGroupIDs_def dom_update)
qed

subsection \<open>Witnesses\<close>

definition sample_cfg :: NodeConfig where
  "sample_cfg = \<lparr> nc_NodeID = ''a'', nc_Hostname = [], nc_PodName = [], nc_MaxGroups = 2, nc_MaxWeight = 0,
     nc_LeaseTTL = 0, nc_RenewInterval = 0, nc_ReconcileInterval = 0, nc_HeartbeatInterval = 0,
     nc_ShutdownTimeout = 0 \<rparr>"

definition sample_answers :: "bool \<Rightarrow> pass_answers" where
  "sample_answers stopped = \<lparr> pa_now = 0, pa_prune = (\<lambda>_. StmtOk), pa_listFails = False,
     pa_stopped = (\<lambda>_. stopped), pa_stopRelease = (\<lambda>_. StmtOk), pa_acquire = (\<lambda>_. StmtOk),
     pa_inputsFail = (\<lambda>_. False), pa_release = (\<lambda>_. StmtOk) \<rparr>"

lemmas sample_runtime = sample_cfg_def sample_answers_def sample_meta_def empty_meta_def

theorem plan_is_a_function_of_the_sets_witness:
  "let plan = planReconcile [''b'', ''a''] [''c'', ''b''] 2
   in rp_toStop plan = [''c''] \<and> rp_toStart plan = [''a''] \<and> rp_startSlots plan = 1 \<and>
      planReconcile [''a'', ''b'', ''a''] [''b'', ''c''] 2 = plan"
proof -
  have "planReconcile [''a'', ''b'', ''a''] [''b'', ''c''] 2 = planReconcile [''b'', ''a''] [''c'', ''b''] 2"
    using plan_is_a_function_of_the_sets [of "[''c'', ''b'']" "[''b'', ''c'']" "[''b'', ''a'']" "[''a'', ''b'', ''a'']" _ 2]
    by (auto simp: insert_commute)
  then show ?thesis by (simp add: planReconcile_def Let_def)
qed

theorem worker_life_cycle_witness:
  "let w = newWorker (hd (md_groups sample_meta)) [] ''a'' second second;
       es = [RunBegins (\<lambda>_. StmtOk) 0, StopRequested, CancelSeen (\<lambda>_. StmtOk) 1]
   in wk_state (fst (foldl worker_step (w, sample_meta) es)) = WorkerStopped \<and>
      wk_canceled (fst (foldl worker_step (w, sample_meta) es)) \<and>
      wk_state (fst (foldl worker_step (w, sample_meta) (es @ [StopRequested, LeaseTick StmtOk [] 2 (\<lambda>_. StmtOk)]))) = WorkerStopped"
proof -
  let ?w = "newWorker (hd (md_groups sample_meta)) [] ''a'' second second"
  let ?es = "[RunBegins (\<lambda>_. StmtOk) 0, StopRequested, CancelSeen (\<lambda>_. StmtOk) 1]"
  obtain w' db' where r: "(w', db') = foldl worker_step (?w, sample_meta) ?es" by (metis prod.collapse)
  have stopped: "wk_state w' = WorkerStopped"
    using arg_cong [OF r, of "\<lambda>s. wk_state (fst s)"]
    by (simp add: newWorker_def run_begin_def run_end_def finish_def request_stop_def consumptionEnabled_def
        reportAll_def Let_def)
  have "(terminal (wk_state w') \<longrightarrow> \<not> wk_managing w' \<and> wk_stopSnapshot w' \<noteq> Some False \<and> wk_state (fst (foldl worker_step (?w, sample_meta)
      (?es @ [StopRequested, LeaseTick StmtOk [] 2 (\<lambda>_. StmtOk)]))) = wk_state w') \<and>
      (wk_state w' = WorkerStopped \<longrightarrow> wk_canceled w') \<and>
      (wk_flushed w' = Some True \<longrightarrow> True = (wk_state w' = WorkerStopped) \<and> terminal (wk_state w'))"
    by (rule worker_life_cycle [OF disjI1 r]) simp
  moreover have "foldl worker_step (?w, sample_meta) ?es = (w', db')" by (rule r [symmetric])
  ultimately show ?thesis using stopped unfolding Let_def terminal_def by (simp only: fst_conv) blast
qed

lemma sample_meta_ok: "meta_inv sample_meta" "runnable sample_meta = {hd (md_groups sample_meta)}"
  "mg_GroupID (hd (md_groups sample_meta)) = ''g''" "faultless (sample_answers b)"
  by (auto simp: sample_meta_def empty_meta_def meta_inv_def groups_ok_def inputs_ok_def nodes_ok_def group_check_def
      IsValidMarketType_def MarketTypes_def faultless_def sample_answers_def)

lemma sample_first_pass:
  assumes "reconcileOnce (sample_answers b) (NewNode sample_cfg) sample_meta = (n, db)"
  shows "\<exists>w. nd_workers n = [(''g'', w)]" "nd_cfg n = NodeConfig_withDefaults sample_cfg"
    and "\<exists>l. md_leases db ''g'' = Some l \<and> gl_NodeID l = nc_NodeID (nd_cfg n)"
proof -
  have "md_groups sample_meta = [hd (md_groups sample_meta)]" "mg_DesiredStatus (hd (md_groups sample_meta)) = DesiredStatusRunning"
    "md_leases sample_meta (mg_GroupID (hd (md_groups sample_meta))) = None"
    "groupWeight (hd (md_groups sample_meta)) \<le> nc_MaxWeight (nd_cfg (NewNode sample_cfg))" "nd_workers (NewNode sample_cfg) = []"
    by (simp_all add: sample_runtime groupWeight_def NewNode_def NodeConfig_withDefaults_def Let_def)
  note first = first_pass [OF new_node_ok(1) this(5,1-4) sample_meta_ok(4) assms]
  show "\<exists>w. nd_workers n = [(''g'', w)]" "nd_cfg n = NodeConfig_withDefaults sample_cfg"
    "\<exists>l. md_leases db ''g'' = Some l \<and> gl_NodeID l = nc_NodeID (nd_cfg n)"
    using first by (auto simp: sample_meta_ok(3) NewNode_def)
qed

theorem reconcile_fills_capacity_witness:
  "let n' = fst (reconcileOnce (sample_answers True) (NewNode sample_cfg) sample_meta)
   in set (runningGroupIDs n') \<subseteq> {''g''} \<and> ''g'' \<in> set (runningGroupIDs n')"
proof -
  obtain n db where p: "reconcileOnce (sample_answers True) (NewNode sample_cfg) sample_meta = (n, db)" by fastforce
  have "set (runningGroupIDs n) \<subseteq> {''g''}"
    using reconcile_fills_capacity [OF new_node_ok(1) sample_meta_ok(1,4) p] by (auto simp: sample_meta_ok(2,3))
  moreover have "''g'' \<in> set (runningGroupIDs n)" using sample_first_pass(1) [OF p] by (auto simp: runningGroupIDs_def)
  ultimately show ?thesis by (simp add: p)
qed

theorem timed_out_stop_allows_second_worker_witness:
  "\<exists>n2 db2 w. (let (n, db) = reconcileOnce (sample_answers True) (NewNode sample_cfg) sample_meta;
        (n1, db1) = stopWorker (sample_answers False) (n, db) ''g''
      in tryStartWorker (sample_answers True) (hd (md_groups sample_meta)) n1 db1 = (True, n2, db2)) \<and>
     (''g'', request_stop w) \<in> set (nd_draining n2) \<and> ''g'' \<in> set (runningGroupIDs n2)"
proof -
  let ?g = "hd (md_groups sample_meta)"
  obtain n db where p: "reconcileOnce (sample_answers True) (NewNode sample_cfg) sample_meta = (n, db)" by fastforce
  obtain n1 db1 where s1: "stopWorker (sample_answers False) (n, db) ''g'' = (n1, db1)" by fastforce
  obtain ok n2 db2 where s2: "tryStartWorker (sample_answers True) ?g n1 db1 = (ok, n2, db2)" by (metis prod_cases3)
  have g: "mg_GroupID ?g = ''g''" by (simp add: sample_meta_def)
  have facts: "\<exists>w. map_of (nd_workers n) ''g'' = Some w" "\<exists>l. md_leases db ''g'' = Some l \<and> gl_NodeID l = nc_NodeID (nd_cfg n)"
    "0 < nc_LeaseTTL (nd_cfg n)"
    using sample_first_pass [OF p] by (auto simp: sample_cfg_def NodeConfig_withDefaults_def second_def Let_def)
  from facts obtain w l where w: "map_of (nd_workers n) (mg_GroupID ?g) = Some w" "md_leases db (mg_GroupID ?g) = Some l"
    "gl_NodeID l = nc_NodeID (nd_cfg n)" unfolding g by blast
  have "ok \<and> (mg_GroupID ?g, request_stop w) \<in> set (nd_draining n2) \<and> mg_GroupID ?g \<in> set (runningGroupIDs n2)"
    by (rule timed_out_stop_allows_second_worker [OF w(1) _ w(2,3) facts(3) _ _ _ s2, of "sample_answers False"])
       (use s1 in \<open>simp_all add: sample_answers_def g\<close>)
  with p s1 s2 show ?thesis unfolding g by auto
qed

end
