(* ===== verification/Snapshot_Feed.thy ===== *)
theory Snapshot_Feed
  imports Group_Runtime
begin

section \<open>Reference snapshots: snapshot\_input\_worker.go and the snapshot loops of worker.go\<close>

text \<open>
  The consumer of the snapshot input hands every decoded reference snapshot to the receive loop of the
  group worker over a channel of capacity 8 and commits the offset once the receive loop has closed the
  \<open>done\<close> channel of that snapshot. The generate loop stores a snapshot of the book on every tick. The
  three goroutines and the delta callback share the book and the tables; \<open>feed_step\<close> gives their atomic
  actions, and a sequence of events is one interleaving. A \<open>done\<close> channel is identified by the number of
  its creation; an event that is not enabled in a state changes nothing.

  The lemmas show that only offsets of accepted snapshots are committed, that every stored snapshot is
  well-formed and no tick can panic, and that one rejected snapshot blocks the consumer for good.
\<close>

record snapshotResult =
  sr_snapshot :: OrderBookSnapshot
  sr_offset :: int64
  sr_done :: nat

record snapshotInputWorker =
  si_group :: MarketGroup
  si_input :: GroupInput
  si_nodeID :: string
  si_status :: string
  si_lastErr :: string
  si_committed :: "int64 option"
  si_lastEvent :: "time option"

definition newSnapshotInputWorker :: "MarketGroup \<Rightarrow> GroupInput \<Rightarrow> string \<Rightarrow> snapshotInputWorker" where
  "newSnapshotInputWorker grp input nodeID =
     \<lparr> si_group = grp, si_input = input, si_nodeID = nodeID, si_status = ActualStatusRunning, si_lastErr = [],
       si_committed = None, si_lastEvent = None \<rparr>"

definition snapshot_setStatus :: "string \<Rightarrow> string \<Rightarrow> snapshotInputWorker \<Rightarrow> snapshotInputWorker" where
  "snapshot_setStatus status lastErr sw = sw\<lparr>si_status := status, si_lastErr := lastErr\<rparr>"

definition snapshot_status :: "time \<Rightarrow> snapshotInputWorker \<Rightarrow> StreamRuntimeStatus" where
  "snapshot_status now sw =
     (bare_status (inputID (si_input sw)) (mg_GroupID (si_group sw)) (gi_StreamKey (si_input sw)) (si_nodeID sw)
        (si_status sw) (si_lastErr sw))
     \<lparr> ss_CommittedOffset := si_committed sw, ss_LastEventTime := si_lastEvent sw,
        ss_LastProcessedTime := Some now \<rparr>"

text \<open>Where the consumer is in its loop; its backoff sleeps count as the fetch that follows them.\<close>

datatype feed_phase =
    Fetching
  | Sending KafkaMessage OrderBookSnapshot nat
  | Awaiting KafkaMessage nat
  | Committing KafkaMessage
  | Exited

record feed_state =
  fs_worker :: snapshotInputWorker
  fs_phase :: feed_phase
  fs_dones :: nat
  fs_chan :: "snapshotResult list"
  fs_closed :: "nat set"
  fs_book :: orderBookState
  fs_db :: fact_db
  fs_offset :: "int64 option"
  fs_applied :: "int64 list"
  fs_commits :: "int64 list"

definition snapshotChanCap :: nat where
  "snapshotChanCap = 8"

text \<open>The answer of \<open>Fetch\<close> in \<open>run\<close>, up to the send.\<close>

definition fetched :: "string \<Rightarrow> KafkaMessage \<Rightarrow> feed_state \<Rightarrow> feed_state" where
  "fetched errText msg s =
     (case buildOrderBookSnapshot (si_input (fs_worker s)) msg of
        Inl e \<Rightarrow> s\<lparr>fs_worker := snapshot_setStatus ActualStatusError (''decode: '' @ errText) (fs_worker s)\<rparr>
      | Inr snap \<Rightarrow>
          s\<lparr> fs_worker := (fs_worker s)\<lparr>si_lastEvent := Some (sn_SnapshotTime snap)\<rparr>,
             fs_phase := Sending msg snap (fs_dones s), fs_dones := fs_dones s + 1 \<rparr>)"

text \<open>
  \<open>Commit\<close> and its answer. A failed commit returns at once when the context is canceled, and otherwise
  sets the error status and goes on with the next message.
\<close>

definition committed :: "commit_outcome \<Rightarrow> bool \<Rightarrow> string \<Rightarrow> KafkaMessage \<Rightarrow> feed_state \<Rightarrow> feed_state" where
  "committed outcome canceled errText msg s =
     (let off = km_Offset msg;
          s = (if outcome = CommitFailed then s
               else s\<lparr>fs_offset := Some off, fs_commits := fs_commits s @ [off]\<rparr>)
      in if outcome = CommitOk then s\<lparr>fs_worker := (fs_worker s)\<lparr>si_committed := Some off\<rparr>, fs_phase := Fetching\<rparr>
         else if canceled then s\<lparr>fs_phase := Exited\<rparr>
         else s\<lparr>fs_worker := snapshot_setStatus ActualStatusError (''commit: '' @ errText) (fs_worker s),
                fs_phase := Fetching\<rparr>)"

text \<open>One turn of \<open>snapshotReceiveLoop\<close> and one tick of \<open>snapshotGenerateLoop\<close> (\<open>None\<close> is a panic).\<close>

definition receive_snapshot :: "feed_state \<Rightarrow> feed_state" where
  "receive_snapshot s =
     (case fs_chan s of
        [] \<Rightarrow> s
      | r # rest \<Rightarrow>
          (case applySnapshot (fs_book s) (sr_snapshot r) of
             (Some e, book) \<Rightarrow> s\<lparr>fs_chan := rest, fs_book := book\<rparr>
           | (None, book) \<Rightarrow>
               s\<lparr> fs_chan := rest, fs_book := book, fs_closed := insert (sr_done r) (fs_closed s),
                  fs_applied := fs_applied s @ [sr_offset r] \<rparr>))"

definition generate_tick :: "batch_fault \<Rightarrow> time \<Rightarrow> orderBookState \<Rightarrow> fact_db \<Rightarrow> fact_db option" where
  "generate_tick fault now book db =
     (if \<not> isReady book then Some db
      else map_option (\<lambda>snap. if sn_Bids snap = [] \<and> sn_Asks snap = [] then db
                              else snd (WriteOrderBookSnapshots fault now db [snap]))
             (generateSnapshot book now))"

datatype feed_event =
    FetchAnswers string KafkaMessage
  | FetchFails string
  | FetchTimesOut
  | Sends
  | AckSeen
  | CommitAnswers commit_outcome bool string
  | ContextDone
  | InputRestarts
  | Receives
  | DeltaApplied OrderBookDelta
  | GenerateTick batch_fault time

fun feed_step :: "feed_state \<Rightarrow> feed_event \<Rightarrow> feed_state" where
  "feed_step s (FetchAnswers errText msg) = (if fs_phase s = Fetching then fetched errText msg s else s)"
| "feed_step s (FetchFails errText) =
     (if fs_phase s = Fetching
      then s\<lparr>fs_worker := snapshot_setStatus ActualStatusError (''fetch: '' @ errText) (fs_worker s)\<rparr> else s)"
| "feed_step s FetchTimesOut = s"
| "feed_step s Sends =
     (case fs_phase s of
        Sending msg snap k \<Rightarrow>
          if length (fs_chan s) < snapshotChanCap
          then s\<lparr> fs_chan := fs_chan s @ [\<lparr> sr_snapshot = snap, sr_offset = km_Offset msg, sr_done = k \<rparr>],
                  fs_phase := Awaiting msg k \<rparr>
          else s
      | _ \<Rightarrow> s)"
| "feed_step s AckSeen =
     (case fs_phase s of
        Awaiting msg k \<Rightarrow> if k \<in> fs_closed s then s\<lparr>fs_phase := Committing msg\<rparr> else s
      | _ \<Rightarrow> s)"
| "feed_step s (CommitAnswers outcome canceled errText) =
     (case fs_phase s of Committing msg \<Rightarrow> committed outcome canceled errText msg s | _ \<Rightarrow> s)"
| "feed_step s ContextDone = (case fs_phase s of Committing msg \<Rightarrow> s | _ \<Rightarrow> s\<lparr>fs_phase := Exited\<rparr>)"
| "feed_step s InputRestarts =
     (if fs_phase s = Exited
      then s\<lparr> fs_worker := newSnapshotInputWorker (si_group (fs_worker s)) (si_input (fs_worker s)) (si_nodeID (fs_worker s)),
              fs_phase := Fetching \<rparr>
      else s)"
| "feed_step s Receives = receive_snapshot s"
| "feed_step s (DeltaApplied d) = s\<lparr>fs_book := book_step (fs_book s) (BookDelta d)\<rparr>"
| "feed_step s (GenerateTick fault now) =
     (case generate_tick fault now (fs_book s) (fs_db s) of None \<Rightarrow> s | Some db \<Rightarrow> s\<lparr>fs_db := db\<rparr>)"

text \<open>A group worker that has just enabled consumption, on tables without snapshots of this book.\<close>

definition feed_start :: "MarketGroup \<Rightarrow> GroupInput \<Rightarrow> string \<Rightarrow> fact_db \<Rightarrow> feed_state" where
  "feed_start grp input nodeID db =
     \<lparr> fs_worker = newSnapshotInputWorker grp input nodeID, fs_phase = Fetching, fs_dones = 0, fs_chan = [],
       fs_closed = {}, fs_book = newOrderBookState (mg_GroupID grp) (inputID input), fs_db = db,
       fs_offset = None, fs_applied = [], fs_commits = [] \<rparr>"

subsection \<open>Commits follow applications\<close>

fun phase_ok :: "feed_state \<Rightarrow> feed_phase \<Rightarrow> bool" where
  "phase_ok s (Sending msg snap k) =
     (k < fs_dones s \<and> k \<notin> fs_closed s \<and> (\<forall>r \<in> set (fs_chan s). sr_done r \<noteq> k))"
| "phase_ok s (Awaiting msg k) =
     (k < fs_dones s \<and> (\<forall>r \<in> set (fs_chan s). sr_done r = k \<longrightarrow> sr_offset r = km_Offset msg) \<and>
      (k \<in> fs_closed s \<longrightarrow> km_Offset msg \<in> set (fs_applied s)))"
| "phase_ok s (Committing msg) = (km_Offset msg \<in> set (fs_applied s))"
| "phase_ok s _ = True"

definition commits_ok :: "feed_state \<Rightarrow> bool" where
  "commits_ok s \<longleftrightarrow> phase_ok s (fs_phase s) \<and> (\<forall>r \<in> set (fs_chan s). sr_done r < fs_dones s) \<and>
     (\<forall>k \<in> fs_closed s. k < fs_dones s) \<and> set (fs_commits s) \<subseteq> set (fs_applied s) \<and>
     set_option (fs_offset s) \<subseteq> set (fs_commits s) \<and>
     length (fs_chan s) \<le> snapshotChanCap"

lemma receive_commits_ok: "commits_ok s \<Longrightarrow> commits_ok (receive_snapshot s)"
proof -
  assume ok: "commits_ok s"
  show ?thesis
  proof (cases "fs_chan s")
    case (Cons r rest)
    obtain e book where a: "applySnapshot (fs_book s) (sr_snapshot r) = (e, book)" by fastforce
    show ?thesis using ok
      by (cases "fs_phase s"; cases e) (auto simp: commits_ok_def receive_snapshot_def Cons a split: option.splits)
  qed (use ok in \<open>simp add: receive_snapshot_def\<close>)
qed

lemma fetched_commits_ok: "commits_ok s \<Longrightarrow> fs_phase s = Fetching \<Longrightarrow> commits_ok (fetched errText msg s)"
  by (cases "buildOrderBookSnapshot (si_input (fs_worker s)) msg")
     (fastforce simp: commits_ok_def fetched_def split: option.splits)+

lemma committed_commits_ok:
  "commits_ok s \<Longrightarrow> fs_phase s = Committing msg \<Longrightarrow> commits_ok (committed outcome canceled errText msg s)"
  by (cases outcome) (auto simp: commits_ok_def committed_def Let_def split: option.splits)

lemma feed_step_commits_ok: "commits_ok s \<Longrightarrow> commits_ok (feed_step s ev)"
proof (cases ev)
  case (CommitAnswers outcome canceled errText)
  assume "commits_ok s"
  then show ?thesis by (cases "fs_phase s") (simp_all add: CommitAnswers committed_commits_ok)
next
  case Sends
  assume "commits_ok s"
  then show ?thesis by (cases "fs_phase s") (auto simp: Sends commits_ok_def split: option.splits)
next
  case (GenerateTick fault now)
  assume "commits_ok s"
  then show ?thesis
    by (cases "fs_phase s"; cases "generate_tick fault now (fs_book s) (fs_db s)")
       (simp_all add: GenerateTick commits_ok_def)
next
  case (FetchAnswers errText msg)
  assume "commits_ok s"
  then show ?thesis using fetched_commits_ok by (simp add: FetchAnswers)
next
  case Receives
  assume "commits_ok s"
  then show ?thesis by (simp add: Receives receive_commits_ok)
qed (cases "fs_phase s"; simp add: commits_ok_def)+

interpretation snapshot_commits: stepper feed_step commits_ok "\<lambda>_. True"
  by unfold_locales (rule feed_step_commits_ok)

text \<open>
  C6. No reference snapshot is lost by a commit: under every interleaving of the consumer (with its
  restarts, fetch and commit failures and cancellations), the receive loop, the delta callback and the
  generate loop, an offset is committed to Kafka only after the order book has accepted the snapshot of
  that offset, and the channel between the two loops never exceeds its capacity.
\<close>

theorem snapshot_committed_only_if_applied:
  "let s = foldl feed_step (feed_start grp input nodeID db) es
   in set (fs_commits s) \<subseteq> set (fs_applied s) \<and> set_option (fs_offset s) \<subseteq> set (fs_applied s) \<and>
      length (fs_chan s) \<le> snapshotChanCap"
proof -
  have "commits_ok (feed_start grp input nodeID db)" by (simp add: commits_ok_def feed_start_def)
  then have "commits_ok (foldl feed_step (feed_start grp input nodeID db) es)"
    using snapshot_commits.run_inv by (simp add: list_all_iff)
  then show ?thesis unfolding Let_def commits_ok_def by auto
qed

subsection \<open>Generated snapshots\<close>

lemma valid_levels_priced:
  "list_all (\<lambda>l. validPositiveNumeric (pl_Price l) \<and> validNonNegativeNumeric (pl_Quantity l)) ls \<Longrightarrow>
   levels_priced ls"
  by (auto simp: levels_priced_def list_all_iff dest!: positive_parsed)

lemma built_snapshot_priced: "buildOrderBookSnapshot input msg = Inr snap \<Longrightarrow> event_priced (BookSnapshot snap)"
  using accepted_snapshot_is_valid [of input msg snap] valid_levels_priced by auto

lemma built_delta_priced:
  assumes "buildOrderBookDelta input msg = Inr d"
  shows "event_priced (BookDelta d)"
proof -
  from assms obtain dm where "validate_delta dm = None" "d = toOrderBookDelta dm input msg"
    by (auto simp: buildOrderBookDelta_def bind_r_Inr_iff split: option.splits)
  then have "levels_priced (ob_Bids d)" "levels_priced (ob_Asks d)"
    by (auto simp: validate_delta_def toOrderBookDelta_def validatePriceLevels_None
        split: if_splits option.splits intro: valid_levels_priced)
  then show ?thesis by (simp add: delta_priced_def)
qed

text \<open>A stored snapshot that a book would accept as its reference.\<close>

definition row_valid :: "snapshot_row \<Rightarrow> bool" where
  "row_valid x \<longleftrightarrow> (sw_bids x \<noteq> [] \<or> sw_asks x \<noteq> []) \<and> validateBidAskOrder (sw_bids x) (sw_asks x) = None"

fun phase_priced :: "feed_phase \<Rightarrow> bool" where
  "phase_priced (Sending msg snap k) = event_priced (BookSnapshot snap)"
| "phase_priced _ = True"

definition rows_ok :: "feed_state \<Rightarrow> bool" where
  "rows_ok s \<longleftrightarrow> book_inv (fs_book s) \<and> phase_priced (fs_phase s) \<and>
     list_all (\<lambda>r. event_priced (BookSnapshot (sr_snapshot r))) (fs_chan s) \<and> list_all row_valid (db_snapshots (fs_db s))"

fun decoded_delta :: "feed_event \<Rightarrow> bool" where
  "decoded_delta (DeltaApplied d) = delta_priced d"
| "decoded_delta _ = True"

lemma generateSnapshot_valid:
  assumes "book_inv book" "bs_ready book" "generateSnapshot book now = Some snap"
  shows "validateBidAskOrder (sn_Bids snap) (sn_Asks snap) = None"
proof -
  have "side_ok (bs_bids book)" "side_ok (bs_asks book)" using assms(1) by (simp_all add: book_inv_def)
  from exported_valid [OF this] this assms(2,3) show ?thesis
    by (auto simp: generateSnapshot_def exportBids_def exportAsks_def exportLevels_side_ok Let_def simp del: map_map)
qed

lemma generate_tick_valid:
  assumes "book_inv book" "list_all row_valid (db_snapshots db)"
  shows "\<exists>db'. generate_tick fault now book db = Some db' \<and> list_all row_valid (db_snapshots db')"
proof -
  obtain snap where snap: "generateSnapshot book now = Some snap"
    using generateSnapshot_defined [OF assms(1)] by blast
  have "list_all row_valid (db_snapshots (insert_snapshot t db snap))"
    if "bs_ready book" "\<not> (sn_Bids snap = [] \<and> sn_Asks snap = [])" for t
    using that assms(2) generateSnapshot_valid [OF assms(1) that(1) snap]
    by (auto simp: insert_snapshot_def Let_def row_valid_def)
  then show ?thesis
    using assms(2) snap
    by (auto simp: generate_tick_def isReady_def WriteOrderBookSnapshots_def exec_batch_def Let_def
        split: batch_fault.split)
qed

lemma receive_rows_ok: "rows_ok s \<Longrightarrow> rows_ok (receive_snapshot s)"
proof -
  assume ok: "rows_ok s"
  show ?thesis
  proof (cases "fs_chan s")
    case (Cons r rest)
    obtain e book where a: "applySnapshot (fs_book s) (sr_snapshot r) = (e, book)" by fastforce
    have "book_inv book"
      using book_step_inv [of "fs_book s" "BookSnapshot (sr_snapshot r)"] ok a by (simp add: rows_ok_def Cons)
    then show ?thesis using ok by (cases e) (simp_all add: rows_ok_def receive_snapshot_def Cons a)
  qed (use ok in \<open>simp add: receive_snapshot_def\<close>)
qed

lemma feed_step_rows_ok:
  assumes ok: "rows_ok s" and d: "decoded_delta ev"
  shows "rows_ok (feed_step s ev)"
proof (cases ev)
  case (FetchAnswers errText msg)
  show ?thesis using ok built_snapshot_priced [of "si_input (fs_worker s)" msg]
    by (cases "buildOrderBookSnapshot (si_input (fs_worker s)) msg")
       (auto simp: FetchAnswers fetched_def rows_ok_def)
next
  case (DeltaApplied delta)
  then have "book_inv (book_step (fs_book s) (BookDelta delta))"
    using book_step_inv [of "fs_book s" "BookDelta delta"] ok d by (simp add: rows_ok_def)
  then show ?thesis using ok by (simp add: DeltaApplied rows_ok_def)
next
  case (GenerateTick fault now)
  obtain db where "generate_tick fault now (fs_book s) (fs_db s) = Some db" "list_all row_valid (db_snapshots db)"
    using generate_tick_valid [of "fs_book s" "fs_db s" fault now] ok by (auto simp: rows_ok_def)
  then show ?thesis using ok by (simp add: GenerateTick rows_ok_def)
next
  case (CommitAnswers outcome canceled errText)
  show ?thesis using ok
    by (cases "fs_phase s") (auto simp: CommitAnswers committed_def rows_ok_def Let_def)
next
  case Receives
  then show ?thesis using receive_rows_ok [OF ok] by simp
qed (use ok in \<open>cases "fs_phase s"; simp add: rows_ok_def\<close>)+

interpretation snapshot_rows: stepper feed_step rows_ok decoded_delta
  by unfold_locales (rule feed_step_rows_ok)


subsection \<open>A rejected snapshot\<close>

definition stalled :: "KafkaMessage \<Rightarrow> nat \<Rightarrow> int64 list \<Rightarrow> feed_state \<Rightarrow> bool" where
  "stalled msg k offs s \<longleftrightarrow> fs_phase s = Awaiting msg k \<and> k \<notin> fs_closed s \<and>
     (\<forall>r \<in> set (fs_chan s). sr_done r \<noteq> k) \<and> fs_commits s = offs"

lemma stalled_step: "stalled msg k offs s \<Longrightarrow> ev \<noteq> ContextDone \<Longrightarrow> stalled msg k offs (feed_step s ev)"
proof -
  assume st: "stalled msg k offs s" and ev: "ev \<noteq> ContextDone"
  have rec: "stalled msg k offs (receive_snapshot s)"
  proof (cases "fs_chan s")
    case (Cons r rest)
    obtain e book where a: "applySnapshot (fs_book s) (sr_snapshot r) = (e, book)" by fastforce
    show ?thesis using st by (cases e) (simp_all add: stalled_def receive_snapshot_def Cons a)
  qed (use st in \<open>simp add: receive_snapshot_def\<close>)
  have gen: "stalled msg k offs (feed_step s (GenerateTick fault now))" for fault now
    using st by (cases "generate_tick fault now (fs_book s) (fs_db s)") (simp_all add: stalled_def)
  from st ev rec gen show ?thesis by (cases ev) (simp_all add: stalled_def)
qed

interpretation stalled_feed: stepper feed_step "stalled msg k offs" "\<lambda>ev. ev \<noteq> ContextDone"
  for msg k offs
  by unfold_locales (rule stalled_step)

text \<open>
  When the book rejects a reference snapshot (levels out of order, or buffered deltas that do not
  continue it), the receive loop does not close its \<open>done\<close> channel and nothing else ever does: until the
  worker is canceled the consumer waits on it, fetches no further snapshot and commits nothing.
\<close>

theorem rejected_snapshot_stalls_feed:
  assumes "fs_phase s = Awaiting msg k" "k \<notin> fs_closed s" "fs_chan s = [r]" "sr_done r = k"
    and "applySnapshot (fs_book s) (sr_snapshot r) = (Some e, book)"
    and "ContextDone \<notin> set es" "s' = foldl feed_step (feed_step s Receives) es"
  shows "fs_phase s' = Awaiting msg k \<and> fs_commits s' = fs_commits s"
proof -
  have "stalled msg k (fs_commits s) (feed_step s Receives)"
    using assms(1-5) by (simp add: stalled_def receive_snapshot_def)
  then have "stalled msg k (fs_commits s) s'"
    unfolding assms(7) by (rule stalled_feed.run_inv) (use assms(6) in \<open>auto simp: list_all_iff\<close>)
  then show ?thesis by (simp add: stalled_def)
qed

subsection \<open>Witnesses\<close>

definition snapshot_stream :: GroupInput where
  "snapshot_stream = sample_input\<lparr>gi_StreamKind := StreamKindOrderBookSnapshot\<rparr>"

definition unordered_snapshot :: OrderBookSnapshot where
  "unordered_snapshot = sample_snapshot\<lparr>sn_Bids := rev (sn_Bids sample_snapshot)\<rparr>"

definition awaiting_feed :: "OrderBookSnapshot \<Rightarrow> feed_state" where
  "awaiting_feed snap =
     (feed_start sample_group snapshot_stream ''a'' empty_db)
     \<lparr> fs_phase := Awaiting (garbage 7) 0, fs_dones := 1,
        fs_chan := [\<lparr> sr_snapshot = snap, sr_offset = 7, sr_done = 0 \<rparr>] \<rparr>"


lemma unordered_rejected: "\<exists>e. applySnapshot book unordered_snapshot = (Some e, book)"
proof -
  have "validateBidAskOrder (sn_Bids unordered_snapshot) (sn_Asks unordered_snapshot) \<noteq> None"
    by (simp add: validateBidAskOrder_def unordered_snapshot_def sample_snapshot_def decimal_eval)
  then show ?thesis by (auto simp: applySnapshot_def)
qed

theorem rejected_snapshot_stalls_feed_witness:
  "let s' = foldl feed_step (feed_step (awaiting_feed unordered_snapshot) Receives)
        [AckSeen, Receives, FetchAnswers [] (garbage 8), AckSeen, CommitAnswers CommitOk False []]
   in fs_phase s' = Awaiting (garbage 7) 0 \<and> fs_commits s' = []"
proof -
  obtain e where e: "applySnapshot (fs_book (awaiting_feed unordered_snapshot)) unordered_snapshot =
      (Some e, fs_book (awaiting_feed unordered_snapshot))" using unordered_rejected by blast
  let ?r = "\<lparr> sr_snapshot = unordered_snapshot, sr_offset = 7, sr_done = 0 \<rparr>"
  have c: "fs_commits (awaiting_feed unordered_snapshot) = []" by (simp add: awaiting_feed_def feed_start_def)
  show ?thesis unfolding Let_def c [symmetric]
    by (rule rejected_snapshot_stalls_feed [where r = ?r and e = e, OF _ _ _ _ _ _ refl])
       (use e in \<open>simp_all add: awaiting_feed_def feed_start_def\<close>)
qed

end
