(* ===== verification/Input_Manager.thy ===== *)
theory Input_Manager
  imports Snapshot_Feed
begin

section \<open>The input manager of a group worker: input\_worker.go, second half\<close>

text \<open>
  The manager keeps one consumer per runnable input of its group. A pass reads the desired inputs from
  the metadata, stops the consumers of inputs that are no longer desired (they flush first), reports
  the inactive ones as paused and starts what is missing. A consumer that has ended by itself is
  replaced; a delta consumer only once the order book is ready again, and then with the book's position
  as its baseline.

  \<open>manager_world\<close> is what the consumers share: metadata, fact tables, the order book and the committed
  Kafka offsets by consumer group and topic. Stopping a consumer runs the exit of its loop from
  \<open>Input_Worker\<close> on that world. The Go code iterates over maps of distinct inputs; the model takes them in
  the order of the list, and what it does for different inputs touches different entries.

  The lemmas show what a pass establishes for every input and that a manager stopped without flush
  (lost lease) changes neither facts, nor offsets, nor the book.
\<close>

record managedInput =
  mi_in :: GroupInput
  mi_iw :: "inputWorker option"
  mi_sw :: "snapshotInputWorker option"
  mi_done :: bool

record inputManager =
  im_active :: "(string, managedInput) gomap"
  im_gapExited :: "string set"
  im_stopFlush :: bool

record manager_world =
  mw_meta :: meta_db
  mw_facts :: fact_db
  mw_book :: "orderBookState option"
  mw_offsets :: "string \<times> string \<Rightarrow> goint \<Rightarrow> int64 option"

record manager_answers =
  ma_now :: time
  ma_listFails :: bool
  ma_consumer :: "string \<Rightarrow> string option"
  ma_drain :: "string \<Rightarrow> flush_answers"
  ma_report :: "string \<Rightarrow> stmt_fault"

definition newInputManager :: inputManager where
  "newInputManager = \<lparr> im_active = [], im_gapExited = {}, im_stopFlush = False \<rparr>"

definition send_status :: "manager_answers \<Rightarrow> StreamRuntimeStatus \<Rightarrow> manager_world \<Rightarrow> manager_world" where
  "send_status ans st mw =
     mw\<lparr>mw_meta := snd (ReportStreamRuntimeStatus (ma_report ans (ss_InputID st)) (ma_now ans) (mw_meta mw) st)\<rparr>"

definition reportStartError :: "manager_answers \<Rightarrow> Worker \<Rightarrow> GroupInput \<Rightarrow> string \<Rightarrow> manager_world \<Rightarrow> manager_world" where
  "reportStartError ans w x lastErr mw =
     send_status ans (bare_status (inputID x) (gi_GroupID x) (gi_StreamKey x) (wk_nodeID w) ActualStatusError lastErr) mw"

definition reportInactive :: "manager_answers \<Rightarrow> Worker \<Rightarrow> GroupInput \<Rightarrow> manager_world \<Rightarrow> manager_world" where
  "reportInactive ans w x mw =
     send_status ans (bare_status (inputID x) (gi_GroupID x) (gi_StreamKey x) (wk_nodeID w) ActualStatusPaused []) mw"

text \<open>\<open>flush\<close> of an input worker: its own status as it stands.\<close>

definition flush_status :: "manager_answers \<Rightarrow> inputWorker \<Rightarrow> manager_world \<Rightarrow> manager_world" where
  "flush_status ans iw mw = send_status ans (snapshotLocked iw (iw_status iw) (iw_lastErr iw)) mw"

subsection \<open>Stopping\<close>

definition kafka_key :: "GroupInput \<Rightarrow> string \<times> string" where
  "kafka_key x = (consumerGroupID x, gi_KafkaTopic x)"

definition world_of :: "GroupInput \<Rightarrow> manager_world \<Rightarrow> ingest_world" where
  "world_of x mw = \<lparr> wd_db = mw_facts mw, wd_committed = mw_offsets mw (kafka_key x), wd_book = mw_book mw \<rparr>"

definition put_world :: "GroupInput \<Rightarrow> ingest_world \<Rightarrow> manager_world \<Rightarrow> manager_world" where
  "put_world x wd mw =
     mw\<lparr> mw_facts := wd_db wd, mw_offsets := (mw_offsets mw)(kafka_key x := wd_committed wd),
         mw_book := wd_book wd \<rparr>"

text \<open>
  What \<open>run\<close> of a canceled input worker does until it closes \<open>done\<close>: the deferred flush of \<open>consume\<close> and
  the last status report. A worker that has already ended does nothing more.
\<close>

definition drain_input :: "manager_answers \<Rightarrow> bool \<Rightarrow> string \<Rightarrow> managedInput \<Rightarrow> manager_world \<Rightarrow> managedInput \<times> manager_world" where
  "drain_input ans flush i mi mw =
     (case mi_iw mi of
        None \<Rightarrow> (mi\<lparr>mi_done := True\<rparr>, mw)
      | Some iw \<Rightarrow>
          if mi_done mi then (mi, mw)
          else (case consume_exit flush (ma_drain ans i) iw (world_of (mi_in mi) mw) of
                  (iw, wd) \<Rightarrow> (mi\<lparr>mi_iw := Some iw, mi_done := True\<rparr>,
                               flush_status ans iw (put_world (mi_in mi) wd mw))))"

definition paused_status :: "time \<Rightarrow> managedInput \<Rightarrow> StreamRuntimeStatus option" where
  "paused_status now mi =
     (case mi_iw mi of
        Some iw \<Rightarrow> Some (snapshotLocked iw ActualStatusPaused [])
      | None \<Rightarrow> map_option (\<lambda>sw. (snapshot_status now sw)\<lparr>ss_ActualStatus := ActualStatusPaused\<rparr>) (mi_sw mi))"

definition stopInput :: "manager_answers \<Rightarrow> bool \<Rightarrow> bool \<Rightarrow> inputManager \<times> manager_world \<Rightarrow> string \<Rightarrow> inputManager \<times> manager_world" where
  "stopInput ans reportPause flush s i =
     (case s of (m, mw) \<Rightarrow>
        (case map_of (im_active m) i of
           None \<Rightarrow> (m, mw)
         | Some mi \<Rightarrow>
             let m = m\<lparr>im_active := AList.delete i (im_active m)\<rparr> in
             (case drain_input ans flush i mi mw of
                (mi, mw) \<Rightarrow>
                  (m, if reportPause
                      then (case paused_status (ma_now ans) mi of None \<Rightarrow> mw | Some st \<Rightarrow> send_status ans st mw)
                      else mw))))"

definition stopAll :: "manager_answers \<Rightarrow> bool \<Rightarrow> inputManager \<times> manager_world \<Rightarrow> inputManager \<times> manager_world" where
  "stopAll ans flush s = foldl (stopInput ans False flush) s (map fst (im_active (fst s)))"

text \<open>\<open>stop\<close> and the end of \<open>loop\<close>.\<close>

definition manager_stop :: "manager_answers \<Rightarrow> bool \<Rightarrow> inputManager \<times> manager_world \<Rightarrow> inputManager \<times> manager_world" where
  "manager_stop ans flush s =
     (case s of (m, mw) \<Rightarrow> let m = m\<lparr>im_stopFlush := flush\<rparr> in stopAll ans (im_stopFlush m) (m, mw))"

subsection \<open>Starting\<close>

definition new_managed :: "Worker \<Rightarrow> ConsumptionConfig \<Rightarrow> orderBookState option \<Rightarrow> GroupInput \<Rightarrow> managedInput" where
  "new_managed w cfg book x =
     (if gi_StreamKind x = StreamKindOrderBookSnapshot
      then \<lparr> mi_in = x, mi_iw = None, mi_sw = Some (newSnapshotInputWorker (wk_group w) x (wk_nodeID w)), mi_done = False \<rparr>
      else
        let iw = newInputWorker (wk_group w) x (wk_nodeID w) (batchFor cfg (gi_StreamKind x));
            iw = (case book of
                    Some b \<Rightarrow> if gi_StreamKind x = StreamKindOrderBookDelta \<and> isReady b
                      then (case getSequenceAndLastUpdateID b of (seq, lastUpdate) \<Rightarrow>
                              iw\<lparr>iw_resetSeq := copyInt64Ptr seq, iw_resetLastUpdate := copyInt64Ptr lastUpdate\<rparr>)
                      else iw
                  | None \<Rightarrow> iw)
        in \<lparr> mi_in = x, mi_iw = Some iw, mi_sw = None, mi_done = False \<rparr>)"

definition unsupported_cluster :: "GroupInput \<Rightarrow> bool" where
  "unsupported_cluster x \<longleftrightarrow> gi_KafkaCluster x \<noteq> [] \<and> gi_KafkaCluster x \<noteq> ''default''"

definition startInput :: "manager_answers \<Rightarrow> Worker \<Rightarrow> ConsumptionConfig \<Rightarrow> GroupInput \<Rightarrow> inputManager \<times> manager_world \<Rightarrow>
  inputManager \<times> manager_world" where
  "startInput ans w cfg x s =
     (case s of (m, mw) \<Rightarrow>
        if unsupported_cluster x
        then (m, reportStartError ans w x (''unsupported kafka cluster '' @ gi_KafkaCluster x) mw)
        else (case ma_consumer ans (inputID x) of
                Some err \<Rightarrow> (m, reportStartError ans w x (''consumer: '' @ err) mw)
              | None \<Rightarrow>
                  (m\<lparr>im_active := AList.update (inputID x) (new_managed w cfg (mw_book mw) x) (im_active m)\<rparr>, mw)))"

definition book_ready :: "manager_world \<Rightarrow> bool" where
  "book_ready mw \<longleftrightarrow> (case mw_book mw of None \<Rightarrow> False | Some b \<Rightarrow> isReady b)"

text \<open>One desired input of a pass: drop a consumer that has ended, then start one if none runs.\<close>

definition reap_input :: "GroupInput \<Rightarrow> string \<Rightarrow> inputManager \<Rightarrow> inputManager" where
  "reap_input x i m =
     (case map_of (im_active m) i of
        None \<Rightarrow> m
      | Some mi \<Rightarrow>
          if mi_done mi
          then m\<lparr> im_active := AList.delete i (im_active m),
                  im_gapExited := (if gi_StreamKind x = StreamKindOrderBookDelta then insert i (im_gapExited m)
                                   else im_gapExited m) \<rparr>
          else m)"

definition ensure_input :: "manager_answers \<Rightarrow> Worker \<Rightarrow> ConsumptionConfig \<Rightarrow> inputManager \<times> manager_world \<Rightarrow> string \<times> GroupInput \<Rightarrow>
  inputManager \<times> manager_world" where
  "ensure_input ans w cfg s e =
     (case (s, e) of ((m, mw), (i, x)) \<Rightarrow>
        let m = reap_input x i m in
        if map_of (im_active m) i \<noteq> None then (m, mw)
        else if gi_StreamKind x = StreamKindOrderBookDelta
        then (if i \<in> im_gapExited m \<and> \<not> book_ready mw then (m, mw)
              else startInput ans w cfg x (m\<lparr>im_gapExited := im_gapExited m - {i}\<rparr>, mw))
        else startInput ans w cfg x (m, mw))"

definition wanted :: "GroupInput \<Rightarrow> bool" where
  "wanted x \<longleftrightarrow> gi_DesiredStatus x = DesiredStatusRunning \<and> gi_Enabled x"

definition by_id :: "GroupInput list \<Rightarrow> (string, GroupInput) gomap" where
  "by_id xs = foldl (\<lambda>m x. AList.update (inputID x) x m) [] xs"

definition reconcile :: "manager_answers \<Rightarrow> Worker \<Rightarrow> ConsumptionConfig \<Rightarrow> inputManager \<times> manager_world \<Rightarrow> inputManager \<times> manager_world" where
  "reconcile ans w cfg s =
     (case s of (m, mw) \<Rightarrow>
        (case ListGroupInputs (ma_listFails ans) (mw_meta mw) (mg_GroupID (wk_group w)) of
           Inl e \<Rightarrow> (m, mw)
         | Inr inputs \<Rightarrow>
             let consumable = filter (\<lambda>x. isConsumableStreamKind (gi_StreamKind x)) inputs;
                 desired = by_id (filter wanted consumable);
                 inactive = by_id (filter (\<lambda>x. \<not> wanted x) consumable);
                 toStop = sort (filter (\<lambda>i. map_of desired i = None) (map fst (im_active m)))
             in (case foldl (stopInput ans True True) (m, mw) toStop of
                   (m, mw) \<Rightarrow>
                     foldl (ensure_input ans w cfg)
                       (m, foldl (\<lambda>mw (i, x). reportInactive ans w x mw) mw
                             (filter (\<lambda>(i, x). i \<notin> set toStop) inactive))
                       desired)))"

subsection \<open>What a pass establishes\<close>

lemma stopInput_active:
  "map_of (im_active (fst (stopInput ans p f s i))) = (map_of (im_active (fst s)))(i := None)"
  by (cases s; cases "map_of (im_active (fst s)) i")
     (auto simp: stopInput_def Let_def delete_conv' fun_eq_iff split: prod.splits simp del: map_of_eq_Some_iff)

lemma stopInputs_active:
  "map_of (im_active (fst (foldl (stopInput ans p f) s ids))) j =
     (if j \<in> set ids then None else map_of (im_active (fst s)) j)"
  by (induction ids arbitrary: s) (simp_all add: stopInput_active)

text \<open>The entry of an input that a pass has dealt with: it runs, or there is a reason why not.\<close>

definition attended :: "manager_answers \<Rightarrow> Worker \<Rightarrow> ConsumptionConfig \<Rightarrow> inputManager \<Rightarrow> manager_world \<Rightarrow>
  string \<times> GroupInput \<Rightarrow> inputManager \<Rightarrow> bool" where
  "attended ans w cfg old mw e m =
     (case e of (i, x) \<Rightarrow>
        (case map_of (im_active m) i of
           Some mi \<Rightarrow> \<not> mi_done mi \<and> (map_of (im_active old) i = Some mi \<or> mi = new_managed w cfg (mw_book mw) x)
         | None \<Rightarrow> unsupported_cluster x \<or> ma_consumer ans i \<noteq> None \<or>
                   gi_StreamKind x = StreamKindOrderBookDelta \<and> i \<in> im_gapExited m \<and> \<not> book_ready mw))"

lemma startInput_frame:
  assumes "startInput ans w cfg x (m, mw) = (m', mw')"
  shows "mw_book mw' = mw_book mw" "im_gapExited m' = im_gapExited m"
    "map_of (im_active m') = (if unsupported_cluster x \<or> ma_consumer ans (inputID x) \<noteq> None then map_of (im_active m)
       else (map_of (im_active m))(inputID x \<mapsto> new_managed w cfg (mw_book mw) x))"
  using assms
  by (auto simp: startInput_def reportStartError_def send_status_def update_conv' split: if_splits option.splits)

lemma new_managed_runs: "\<not> mi_done (new_managed w cfg book x)"
  by (simp add: new_managed_def Let_def)

lemma reap_input_frame:
  "j \<noteq> i \<Longrightarrow> map_of (im_active (reap_input x i m)) j = map_of (im_active m) j"
  "j \<noteq> i \<Longrightarrow> j \<in> im_gapExited (reap_input x i m) \<longleftrightarrow> j \<in> im_gapExited m"
  "map_of (im_active (reap_input x i m)) i = (case map_of (im_active m) i of
     None \<Rightarrow> None | Some mi \<Rightarrow> if mi_done mi then None else Some mi)"
  by (auto simp: reap_input_def delete_conv' split: option.splits simp del: map_of_eq_Some_iff)

lemma ensure_input_frame:
  assumes "ensure_input ans w cfg (m, mw) (i, x) = (m', mw')" "i = inputID x"
  shows "mw_book mw' = mw_book mw" "attended ans w cfg m mw' (i, x) m'"
    and "j \<noteq> i \<Longrightarrow> map_of (im_active m') j = map_of (im_active m) j"
    and "j \<noteq> i \<Longrightarrow> j \<in> im_gapExited m' \<longleftrightarrow> j \<in> im_gapExited m"
proof -
  let ?m = "reap_input x i m"
  let ?delta = "gi_StreamKind x = StreamKindOrderBookDelta"
  note reap = reap_input_frame [where x = x and i = i and m = m]
  consider (runs) "map_of (im_active ?m) i \<noteq> None"
    | (waits) "map_of (im_active ?m) i = None" "?delta" "i \<in> im_gapExited ?m" "\<not> book_ready mw"
    | (starts) "map_of (im_active ?m) i = None" "\<not> (?delta \<and> i \<in> im_gapExited ?m \<and> \<not> book_ready mw)" by blast
  then have "mw_book mw' = mw_book mw \<and> attended ans w cfg m mw' (i, x) m' \<and>
      (\<forall>j. j \<noteq> i \<longrightarrow> map_of (im_active m') j = map_of (im_active m) j \<and> (j \<in> im_gapExited m' \<longleftrightarrow> j \<in> im_gapExited m))"
  proof cases
    case runs
    then have "m' = ?m" "mw' = mw" using assms(1) by (simp_all add: ensure_input_def Let_def)
    with runs reap show ?thesis by (auto simp: attended_def split: option.splits if_splits)
  next
    case waits
    then have "m' = ?m" "mw' = mw" using assms(1) by (simp_all add: ensure_input_def Let_def)
    with waits reap(1,2) show ?thesis by (simp add: attended_def)
  next
    case starts
    define m1 where "m1 = (if ?delta then ?m\<lparr>im_gapExited := im_gapExited ?m - {i}\<rparr> else ?m)"
    have st: "startInput ans w cfg x (m1, mw) = (m', mw')"
      using starts assms(1) by (auto simp: ensure_input_def Let_def m1_def)
    have act: "map_of (im_active m1) = map_of (im_active ?m)"
      and gap: "j \<noteq> i \<Longrightarrow> j \<in> im_gapExited m1 \<longleftrightarrow> j \<in> im_gapExited ?m" for j by (simp_all add: m1_def)
    note fr = startInput_frame [OF st]
    have "attended ans w cfg m mw' (i, x) m'"
      using starts(1) fr(1,3) act assms(2) by (simp add: attended_def new_managed_runs)
    moreover have "map_of (im_active m') j = map_of (im_active m) j" if "j \<noteq> i" for j
      using fr(3) act reap(1) [OF that] that assms(2) by simp
    moreover have "j \<in> im_gapExited m' \<longleftrightarrow> j \<in> im_gapExited m" if "j \<noteq> i" for j
      using fr(2) gap [OF that] reap(2) [OF that] by simp
    ultimately show ?thesis using fr(1) by blast
  qed
  then show "mw_book mw' = mw_book mw" "attended ans w cfg m mw' (i, x) m'"
    "j \<noteq> i \<Longrightarrow> map_of (im_active m') j = map_of (im_active m) j"
    "j \<noteq> i \<Longrightarrow> j \<in> im_gapExited m' \<longleftrightarrow> j \<in> im_gapExited m" by blast+
qed

lemma attended_cong:
  "attended ans w cfg old mw e m \<Longrightarrow> mw_book mw' = mw_book mw \<Longrightarrow> map_of (im_active m') (fst e) = map_of (im_active m) (fst e) \<Longrightarrow>
   (fst e \<in> im_gapExited m' \<longleftrightarrow> fst e \<in> im_gapExited m) \<Longrightarrow>
   map_of (im_active old') (fst e) = map_of (im_active old) (fst e) \<Longrightarrow> attended ans w cfg old' mw' e m'"
  by (cases e; cases "map_of (im_active m) (fst e)") (simp_all add: attended_def book_ready_def)

lemma ensure_inputs_attend:
  assumes "foldl (ensure_input ans w cfg) (m, mw) es = (m', mw')" "gomap_ok es" "\<forall>(i, x) \<in> set es. i = inputID x"
  shows "mw_book mw' = mw_book mw \<and> (\<forall>e \<in> set es. attended ans w cfg m mw' e m') \<and>
    (\<forall>j. j \<notin> fst ` set es \<longrightarrow> map_of (im_active m') j = map_of (im_active m) j \<and> (j \<in> im_gapExited m' \<longleftrightarrow> j \<in> im_gapExited m))"
  using assms
proof (induction es arbitrary: m mw)
  case (Cons e es)
  obtain i x where e: "e = (i, x)" by (cases e)
  obtain m1 mw1 where one: "ensure_input ans w cfg (m, mw) (i, x) = (m1, mw1)" by fastforce
  have i: "i = inputID x" using Cons.prems(3) by (simp add: e)
  note fr = ensure_input_frame [OF one i]
  have run: "foldl (ensure_input ans w cfg) (m1, mw1) es = (m', mw')" using Cons.prems(1) one by (simp add: e)
  have ih: "mw_book mw' = mw_book mw1" "\<forall>e \<in> set es. attended ans w cfg m1 mw' e m'"
    "\<And>j. j \<notin> fst ` set es \<Longrightarrow> map_of (im_active m') j = map_of (im_active m1) j"
    "\<And>j. j \<notin> fst ` set es \<Longrightarrow> j \<in> im_gapExited m' \<longleftrightarrow> j \<in> im_gapExited m1"
    using Cons.IH [OF run] Cons.prems(2,3) by auto
  have "i \<notin> fst ` set es" using Cons.prems(2) by (simp add: e)
  then have "attended ans w cfg m mw' e m'"
    by (intro attended_cong [OF fr(2) [folded e]]) (simp_all add: e ih)
  moreover have "attended ans w cfg m mw' e' m'" if "e' \<in> set es" for e'
  proof (rule attended_cong)
    show "attended ans w cfg m1 mw' e' m'" using ih(2) that by blast
    have "fst e' \<noteq> i" using \<open>i \<notin> fst ` set es\<close> that by force
    then show "map_of (im_active m) (fst e') = map_of (im_active m1) (fst e')" using fr(3) by simp
  qed simp_all
  ultimately show ?case using ih(1,3,4) fr(1,3,4) by (auto simp: e)
qed simp

lemma by_id_snoc: "by_id (xs @ [x]) = AList.update (inputID x) x (by_id xs)"
  by (simp add: by_id_def)

lemma by_id_props:
  "gomap_ok (by_id xs)" "(i, x) \<in> set (by_id xs) \<Longrightarrow> i = inputID x \<and> x \<in> set xs"
  "fst ` set (by_id xs) = inputID ` set xs"
proof -
  show ok: "gomap_ok (by_id xs)" for xs
    by (induction xs rule: rev_induct) (simp_all add: by_id_snoc, simp add: by_id_def)
  show "fst ` set (by_id xs) = inputID ` set xs"
    by (induction xs rule: rev_induct) (simp_all add: by_id_snoc dom_update, simp add: by_id_def)
  have "i = inputID x \<and> x \<in> set xs" if "map_of (by_id xs) i = Some x"
    using that
  proof (induction xs rule: rev_induct)
    case (snoc y ys)
    then show ?case
      by (cases "i = inputID y") (simp_all add: by_id_snoc update_conv' del: map_of_eq_Some_iff)
  qed (simp add: by_id_def)
  then show "(i, x) \<in> set (by_id xs) \<Longrightarrow> i = inputID x \<and> x \<in> set xs"
    using ok by (simp only: gomap_ok_mem_iff)
qed

text \<open>
  C22. What one pass of the input manager establishes when it can read the inputs of the group: only
  consumable inputs that are enabled and desired to run have a consumer, and every such input has a
  running consumer, except when its Kafka cluster is not supported or the consumer could not be created,
  or when it is a delta input that ended by itself and the order book is not ready yet. A consumer that
  still runs is left alone, and a new one is built from the present book, whose position is the baseline
  of a delta consumer.
\<close>

theorem input_pass_settles:
  assumes "\<not> ma_listFails ans" "reconcile ans w cfg (m, mw) = (m', mw')"
    and "inputs = filter (\<lambda>x. gi_GroupID x = mg_GroupID (wk_group w) \<and> isConsumableStreamKind (gi_StreamKind x) \<and>
          gi_DesiredStatus x = DesiredStatusRunning \<and> gi_Enabled x) (md_inputs (mw_meta mw))"
    and "distinct (map inputID inputs)"
  shows "dom (map_of (im_active m')) \<subseteq> inputID ` set inputs \<and>
    (\<forall>x \<in> set inputs. case map_of (im_active m') (inputID x) of
       Some mi \<Rightarrow> \<not> mi_done mi \<and>
         (map_of (im_active m) (inputID x) = Some mi \<or> mi = new_managed w cfg (mw_book mw') x)
     | None \<Rightarrow> unsupported_cluster x \<or> ma_consumer ans (inputID x) \<noteq> None \<or>
               gi_StreamKind x = StreamKindOrderBookDelta \<and> inputID x \<in> im_gapExited m' \<and> \<not> book_ready mw')"
proof -
  define all where "all = sort_key gi_StreamKey (filter (\<lambda>x. gi_GroupID x = mg_GroupID (wk_group w)) (md_inputs (mw_meta mw)))"
  define desired where "desired = by_id (filter wanted (filter (\<lambda>x. isConsumableStreamKind (gi_StreamKind x)) all))"
  define toStop where "toStop = sort (filter (\<lambda>i. map_of desired i = None) (map fst (im_active m)))"
  have set_inputs: "set (filter wanted (filter (\<lambda>x. isConsumableStreamKind (gi_StreamKind x)) all)) = set inputs"
    by (auto simp: all_def assms(3) wanted_def)
  note ids = by_id_props [where xs = "filter wanted (filter (\<lambda>x. isConsumableStreamKind (gi_StreamKind x)) all)",
      folded desired_def, unfolded set_inputs]
  obtain m1 mw1 where stop: "foldl (stopInput ans True True) (m, mw) toStop = (m1, mw1)" by fastforce
  have "\<exists>mw2. reconcile ans w cfg (m, mw) = foldl (ensure_input ans w cfg) (m1, mw2) desired"
    using assms(1) stop unfolding reconcile_def ListGroupInputs_def desired_def toStop_def all_def Let_def by auto
  then obtain mw2 where run: "foldl (ensure_input ans w cfg) (m1, mw2) desired = (m', mw')" using assms(2) by auto
  have "\<forall>(i, x) \<in> set desired. i = inputID x" using ids(2) by blast
  note post = ensure_inputs_attend [OF run ids(1) this]
  have kept: "map_of (im_active m1) j = None" if "j \<notin> inputID ` set inputs" for j
    using stopInputs_active [of ans True True "(m, mw)" toStop j] stop that ids(3)
    by (auto simp: toStop_def map_of_eq_None_iff)
  have mem: "(inputID x, x) \<in> set desired" if "x \<in> set inputs" for x
  proof -
    have "inputID x \<in> fst ` set desired" using that ids(3) by blast
    then obtain y where y: "(inputID x, y) \<in> set desired" by auto
    from ids(2) [OF this] that assms(4) have "y = x" by (auto simp: distinct_map dest: inj_onD)
    with y show ?thesis by simp
  qed
  have same: "map_of (im_active m1) (inputID x) = map_of (im_active m) (inputID x)" if "x \<in> set inputs" for x
    using stopInputs_active [of ans True True "(m, mw)" toStop "inputID x"] stop that ids(3)
    by (auto simp: toStop_def map_of_eq_None_iff)
  show ?thesis
  proof (intro conjI ballI)
    show "dom (map_of (im_active m')) \<subseteq> inputID ` set inputs" using post kept ids(3) by auto
    fix x assume x: "x \<in> set inputs"
    then have "attended ans w cfg m1 mw' (inputID x, x) m'" using post mem by blast
    from attended_cong [OF this refl refl refl, of m] same [OF x]
    show "case map_of (im_active m') (inputID x) of
       Some mi \<Rightarrow> \<not> mi_done mi \<and>
         (map_of (im_active m) (inputID x) = Some mi \<or> mi = new_managed w cfg (mw_book mw') x)
     | None \<Rightarrow> unsupported_cluster x \<or> ma_consumer ans (inputID x) \<noteq> None \<or>
               gi_StreamKind x = StreamKindOrderBookDelta \<and> inputID x \<in> im_gapExited m' \<and> \<not> book_ready mw'"
      by (simp only: attended_def prod.case fst_conv)
  qed
qed

subsection \<open>Stopping without flush\<close>

lemma drain_quiet:
  assumes "drain_input ans False i mi mw = (mi', mw')"
  shows "mw_facts mw' = mw_facts mw" "mw_offsets mw' = mw_offsets mw" "mw_book mw' = mw_book mw"
  using assms
  by (auto simp: drain_input_def consume_exit_def flush_status_def send_status_def put_world_def world_of_def
      split: option.splits if_splits)

lemma stopInput_quiet:
  assumes "stopInput ans p False (m, mw) i = (m', mw')"
  shows "mw_facts mw' = mw_facts mw \<and> mw_offsets mw' = mw_offsets mw \<and> mw_book mw' = mw_book mw"
proof (cases "map_of (im_active m) i")
  case (Some mi)
  obtain mi1 mw1 where d: "drain_input ans False i mi mw = (mi1, mw1)" by fastforce
  from drain_quiet [OF d] assms Some d show ?thesis
    by (auto simp: stopInput_def Let_def send_status_def split: option.splits if_splits simp del: map_of_eq_Some_iff)
qed (use assms in \<open>simp add: stopInput_def\<close>)

lemma stopInputs_quiet:
  "foldl (stopInput ans p False) s ids = (m', mw') \<Longrightarrow>
   mw_facts mw' = mw_facts (snd s) \<and> mw_offsets mw' = mw_offsets (snd s) \<and> mw_book mw' = mw_book (snd s)"
proof (induction ids arbitrary: s)
  case (Cons i ids)
  obtain m mw where s: "s = (m, mw)" by (cases s)
  obtain m1 mw1 where one: "stopInput ans p False (m, mw) i = (m1, mw1)" by fastforce
  from Cons.IH [of "(m1, mw1)"] Cons.prems stopInput_quiet [OF one] one show ?case by (simp add: s)
qed auto


subsection \<open>Witnesses\<close>

definition running_trades :: GroupInput where
  "running_trades = sample_input\<lparr> gi_InputID := ''i'', gi_GroupID := ''g'', gi_StreamKind := StreamKindTrade,
     gi_DesiredStatus := DesiredStatusRunning \<rparr>"

definition sample_world :: manager_world where
  "sample_world = \<lparr> mw_meta = sample_meta\<lparr>md_inputs := [running_trades]\<rparr>, mw_facts = empty_db,
     mw_book = None, mw_offsets = (\<lambda>_ _. None) \<rparr>"

definition sample_manager_answers :: manager_answers where
  "sample_manager_answers = \<lparr> ma_now = 0, ma_listFails = False, ma_consumer = (\<lambda>_. None), ma_drain = (\<lambda>_. calm),
     ma_report = (\<lambda>_. StmtOk) \<rparr>"

definition sample_consumption :: ConsumptionConfig where
  "sample_consumption = (let b = \<lparr> bc_Size = 0, bc_FlushInterval = 0 \<rparr> in
     \<lparr> cc_StatusReportEvery = 0, cc_InputReconcileEvery = 0, cc_TradeBatch = b, cc_KlineBatch = b,
       cc_OrderBookDeltaBatch = b, cc_SnapshotInterval = 0 \<rparr>)"

definition sample_worker :: Worker where
  "sample_worker = newWorker sample_group [running_trades] ''a'' second second"

theorem input_pass_settles_witness:
  "\<exists>mi. map_of (im_active (fst (reconcile sample_manager_answers sample_worker sample_consumption
      (newInputManager, sample_world)))) ''i'' = Some mi \<and> \<not> mi_done mi"
proof -
  obtain m' mw' where r: "reconcile sample_manager_answers sample_worker sample_consumption
      (newInputManager, sample_world) = (m', mw')" by fastforce
  have sel: "[running_trades] = filter (\<lambda>x. gi_GroupID x = mg_GroupID (wk_group sample_worker) \<and>
      isConsumableStreamKind (gi_StreamKind x) \<and> gi_DesiredStatus x = DesiredStatusRunning \<and> gi_Enabled x)
      (md_inputs (mw_meta sample_world))"
    by (simp add: sample_world_def sample_worker_def newWorker_def sample_group_def running_trades_def
        sample_input_def isConsumableStreamKind_def)
  have i: "inputID running_trades = ''i''" by (simp add: inputID_def running_trades_def)
  have ok: "\<not> ma_listFails sample_manager_answers" "ma_consumer sample_manager_answers ''i'' = None"
    "\<not> unsupported_cluster running_trades" "gi_StreamKind running_trades \<noteq> StreamKindOrderBookDelta"
    by (simp_all add: sample_manager_answers_def unsupported_cluster_def running_trades_def sample_input_def kind_defs)
  from input_pass_settles [OF ok(1) r sel] ok(2-4) show ?thesis
    unfolding r by (cases "map_of (im_active m') ''i''") (simp_all add: i del: map_of_eq_Some_iff)
qed


end
