(* ===== verification/Api_Requests.thy ===== *)
theory Api_Requests
  imports Metadata_Store Message_Decode
begin

section \<open>Request bodies of the control plane: dto.go, decodeJSON of api.go\<close>

text \<open>
  A request body is read in three steps: \<open>decodeJSON\<close> takes one JSON value from the first MiB of the body,
  stores it into the request struct field by field and looks at what follows the value; the handlers
  check the fields; \<open>toModel\<close> turns an input request into the model's input.

  The lemmas show which bodies \<open>decodeJSON\<close> accepts, that a body the stricter message decoder would accept is
  read the same way, and that the API and the metadata store apply the same rules to an input.
\<close>

subsection \<open>Request structs\<close>

record inputRequest =
  ir_StreamKey :: string
  ir_StreamKind :: string
  ir_Interval :: string
  ir_KafkaTopic :: string
  ir_KafkaGroupID :: string
  ir_KafkaCluster :: string
  ir_DesiredStatus :: string

record createGroupRequest =
  cg_Exchange :: string
  cg_MarketType :: string
  cg_Symbol :: string
  cg_BaseAsset :: string
  cg_QuoteAsset :: string
  cg_Weight :: goint
  cg_DesiredStatus :: string
  cg_Inputs :: "inputRequest list"

datatype api_error =
    InvalidBody
  | TrailingData
  | TopicRequired
  | BadDesiredStatus string
  | BadStreamKind string
  | BadStreamKey stream_key_error
  | KeyMismatch string string
  | IntervalMismatch string string
  | KeyOrKindMissing

definition zero_input :: GroupInput where
  "zero_input =
     \<lparr> gi_InputID = [], gi_GroupID = [], gi_StreamKey = [], gi_StreamKind = [], gi_Interval = [],
       gi_Enabled = False, gi_KafkaCluster = [], gi_KafkaTopic = [], gi_KafkaGroupID = [],
       gi_DesiredStatus = [], gi_SchemaVersion = 0, gi_CreatedAt = zero_time, gi_UpdatedAt = zero_time \<rparr>"

text \<open>The composite literal at the end of \<open>toModel\<close>, for a triple of key, kind and interval.\<close>

definition input_of :: "inputRequest \<Rightarrow> string \<Rightarrow> string \<Rightarrow> string \<Rightarrow> GroupInput" where
  "input_of r streamKey kind interval =
     zero_input\<lparr> gi_StreamKey := streamKey, gi_StreamKind := kind, gi_Interval := interval,
       gi_KafkaTopic := ir_KafkaTopic r, gi_KafkaGroupID := ir_KafkaGroupID r, gi_KafkaCluster := ir_KafkaCluster r,
       gi_DesiredStatus := ir_DesiredStatus r, gi_Enabled := True \<rparr>"

definition toModel :: "inputRequest \<Rightarrow> api_error + GroupInput" where
  "toModel r =
     (let kind = ir_StreamKind r; interval = ir_Interval r; streamKey = ir_StreamKey r in
      if ir_KafkaTopic r = [] then Inl TopicRequired
      else if ir_DesiredStatus r \<noteq> [] \<and> \<not> IsValidDesiredStatus (ir_DesiredStatus r)
      then Inl (BadDesiredStatus (ir_DesiredStatus r))
      else if kind \<noteq> [] then
        (if \<not> IsValidStreamKind kind then Inl (BadStreamKind kind)
         else (case StreamKeyFor kind interval of
                 Inl e \<Rightarrow> Inl (BadStreamKey e)
               | Inr key \<Rightarrow> if streamKey \<noteq> [] \<and> streamKey \<noteq> key then Inl (KeyMismatch streamKey key)
                            else Inr (input_of r key kind interval)))
      else if streamKey \<noteq> [] then
        (case ParseStreamKey streamKey of
           Inl e \<Rightarrow> Inl (BadStreamKey e)
         | Inr (k, iv) \<Rightarrow> if interval \<noteq> [] \<and> interval \<noteq> iv then Inl (IntervalMismatch interval streamKey)
                          else Inr (input_of r streamKey k iv))
      else Inl KeyOrKindMissing)"

fun to_models :: "inputRequest list \<Rightarrow> api_error + GroupInput list" where
  "to_models [] = Inr []"
| "to_models (r # rs) = bind_r (toModel r) (\<lambda>x. bind_r (to_models rs) (\<lambda>xs. Inr (x # xs)))"

subsection \<open>Reading the body\<close>

text \<open>
  \<open>Decoder.Decode\<close> runs the scanner until the value is complete and leaves the rest of the buffer. A value
  that is not an object or array ends only at the next byte or at the end of the body; when the reader is
  cut at the limit there is neither.
\<close>

fun finished :: "frame list \<times> pstate \<Rightarrow> json option" where
  "finished ([], AfterValue v) = Some v"
| "finished st = None"

function read_value :: "frame list \<times> pstate \<Rightarrow> string \<Rightarrow> (json \<times> string) option" where
  "read_value st s =
     (case finished st of
        Some v \<Rightarrow> Some (v, s)
      | None \<Rightarrow>
        (case s of
           [] \<Rightarrow> None
         | c # r \<Rightarrow>
             if json_space c then read_value st r
             else (case next_token c r of
                     None \<Rightarrow> None
                   | Some (t, r') \<Rightarrow>
                       (case parse_step st t of
                          None \<Rightarrow> None
                        | Some st' \<Rightarrow> read_value st' r'))))"
  by pat_completeness auto
termination
  by (relation "measure (length \<circ> snd)") (auto dest: next_token_shorter)

declare read_value.simps [simp del]

definition max_body :: nat where
  "max_body = 1048576"

fun is_container :: "json \<Rightarrow> bool" where
  "is_container (JObj ms) = True"
| "is_container (JArr vs) = True"
| "is_container v = False"

definition Decode :: "bytes \<Rightarrow> (json \<times> string) option" where
  "Decode body =
     (case read_value ([], WantValue) (take max_body body) of
        None \<Rightarrow> None
      | Some (v, rest) \<Rightarrow>
          if \<not> is_container v \<and> rest = [] \<and> length body > max_body then None else Some (v, rest))"

text \<open>\<open>Decoder.More\<close> outside of arrays and objects: another byte follows, and it is no closing bracket.\<close>

definition More :: "string \<Rightarrow> bool" where
  "More rest =
     (case dropWhile json_space rest of
        [] \<Rightarrow> False
      | c # r \<Rightarrow> c \<noteq> CHR '']'' \<and> c \<noteq> CHR ''}'')"

definition decodeJSON :: "(json \<Rightarrow> 'm option) \<Rightarrow> bytes \<Rightarrow> api_error + 'm" where
  "decodeJSON store body =
     (case Decode body of
        None \<Rightarrow> Inl InvalidBody
      | Some (v, rest) \<Rightarrow>
          (case store v of
             None \<Rightarrow> Inl InvalidBody
           | Some m \<Rightarrow> if More rest then Inl TrailingData else Inr m))"

subsection \<open>Storing a value into the structs\<close>

definition int_json :: "goint \<Rightarrow> json \<Rightarrow> goint option" where
  "int_json old v = (case v of JNull \<Rightarrow> Some old | JNum n \<Rightarrow> ParseInt 64 n | _ \<Rightarrow> None)"

definition zero_inputRequest :: inputRequest where
  "zero_inputRequest =
     \<lparr> ir_StreamKey = [], ir_StreamKind = [], ir_Interval = [], ir_KafkaTopic = [], ir_KafkaGroupID = [],
       ir_KafkaCluster = [], ir_DesiredStatus = [] \<rparr>"

definition put_input :: "inputRequest \<Rightarrow> string \<Rightarrow> json \<Rightarrow> inputRequest option" where
  "put_input m key v =
     (if field_is key ''stream_key'' then map_option (\<lambda>x. m\<lparr>ir_StreamKey := x\<rparr>) (string_json (ir_StreamKey m) v)
      else if field_is key ''stream_kind'' then map_option (\<lambda>x. m\<lparr>ir_StreamKind := x\<rparr>) (string_json (ir_StreamKind m) v)
      else if field_is key ''interval'' then map_option (\<lambda>x. m\<lparr>ir_Interval := x\<rparr>) (string_json (ir_Interval m) v)
      else if field_is key ''kafka_topic'' then map_option (\<lambda>x. m\<lparr>ir_KafkaTopic := x\<rparr>) (string_json (ir_KafkaTopic m) v)
      else if field_is key ''kafka_group_id'' then map_option (\<lambda>x. m\<lparr>ir_KafkaGroupID := x\<rparr>) (string_json (ir_KafkaGroupID m) v)
      else if field_is key ''kafka_cluster'' then map_option (\<lambda>x. m\<lparr>ir_KafkaCluster := x\<rparr>) (string_json (ir_KafkaCluster m) v)
      else if field_is key ''desired_status'' then map_option (\<lambda>x. m\<lparr>ir_DesiredStatus := x\<rparr>) (string_json (ir_DesiredStatus m) v)
      else None)"

definition inputRequest_json :: "json \<Rightarrow> inputRequest option" where
  "inputRequest_json = decode_struct put_input zero_inputRequest"

text \<open>
  The slice of inputs. The decoder stores into the elements of the slice it finds, so a member
  \<open>inputs\<close> that is given twice is decoded over the elements of the first one; the backing array keeps the
  elements behind the slice's length, and elements it never had are zero. \<open>null\<close> and the empty array make a new
  slice.
\<close>

fun store_elements :: "inputRequest list \<Rightarrow> json list \<Rightarrow> inputRequest list option" where
  "store_elements backing [] = Some []"
| "store_elements backing (v # vs) =
     (case decode_struct put_input (case backing of [] \<Rightarrow> zero_inputRequest | b # bs \<Rightarrow> b) v of
        None \<Rightarrow> None
      | Some x \<Rightarrow> map_option ((#) x) (store_elements (tl backing) vs))"

definition inputs_json :: "inputRequest list \<Rightarrow> json \<Rightarrow> (inputRequest list \<times> inputRequest list) option" where
  "inputs_json backing v =
     (case v of
        JNull \<Rightarrow> Some ([], [])
      | JArr vs \<Rightarrow>
          (case store_elements backing vs of
             None \<Rightarrow> None
           | Some xs \<Rightarrow> Some (xs, if vs = [] then [] else xs @ drop (length vs) backing))
      | _ \<Rightarrow> None)"

definition zero_createGroupRequest :: createGroupRequest where
  "zero_createGroupRequest =
     \<lparr> cg_Exchange = [], cg_MarketType = [], cg_Symbol = [], cg_BaseAsset = [], cg_QuoteAsset = [], cg_Weight = 0,
       cg_DesiredStatus = [], cg_Inputs = [] \<rparr>"

definition put_group ::
  "createGroupRequest \<times> inputRequest list \<Rightarrow> string \<Rightarrow> json \<Rightarrow> (createGroupRequest \<times> inputRequest list) option" where
  "put_group mb key v =
     (case mb of (m, b) \<Rightarrow>
      if field_is key ''exchange'' then map_option (\<lambda>x. (m\<lparr>cg_Exchange := x\<rparr>, b)) (string_json (cg_Exchange m) v)
      else if field_is key ''market_type'' then map_option (\<lambda>x. (m\<lparr>cg_MarketType := x\<rparr>, b)) (string_json (cg_MarketType m) v)
      else if field_is key ''symbol'' then map_option (\<lambda>x. (m\<lparr>cg_Symbol := x\<rparr>, b)) (string_json (cg_Symbol m) v)
      else if field_is key ''base_asset'' then map_option (\<lambda>x. (m\<lparr>cg_BaseAsset := x\<rparr>, b)) (string_json (cg_BaseAsset m) v)
      else if field_is key ''quote_asset'' then map_option (\<lambda>x. (m\<lparr>cg_QuoteAsset := x\<rparr>, b)) (string_json (cg_QuoteAsset m) v)
      else if field_is key ''weight'' then map_option (\<lambda>x. (m\<lparr>cg_Weight := x\<rparr>, b)) (int_json (cg_Weight m) v)
      else if field_is key ''desired_status'' then map_option (\<lambda>x. (m\<lparr>cg_DesiredStatus := x\<rparr>, b)) (string_json (cg_DesiredStatus m) v)
      else if field_is key ''inputs'' then map_option (\<lambda>(xs, b'). (m\<lparr>cg_Inputs := xs\<rparr>, b')) (inputs_json b v)
      else None)"

definition createGroupRequest_json :: "json \<Rightarrow> createGroupRequest option" where
  "createGroupRequest_json v = map_option fst (decode_struct put_group (zero_createGroupRequest, []) v)"

subsection \<open>What a body is accepted for\<close>

text \<open>The parser of the message decoders, which wants the end of the text after the value, reads the same value.\<close>

lemma lex_Nil: "lex s = Some [] \<Longrightarrow> list_all json_space s"
  by (induction s rule: lex.induct) (auto split: if_splits option.splits)

lemma parse_tokens_Nil: "parse_tokens st [] = finished st"
  by (cases st rule: finished.cases) simp_all

lemma finished_stuck: "finished st = Some w \<Longrightarrow> parse_step st t = None"
  by (cases st rule: finished.cases) simp_all

lemma finished_tokens:
  assumes "parse_tokens st ts = Some v"
  shows "finished st = Some w \<Longrightarrow> ts = [] \<and> v = w"
    and "finished st = None \<Longrightarrow>
      \<exists>t ts' st'. ts = t # ts' \<and> parse_step st t = Some st' \<and> parse_tokens st' ts' = Some v"
  using assms by (cases ts; auto simp: parse_tokens_Nil finished_stuck split: option.splits)+

lemma read_value_parse:
  "lex s = Some ts \<Longrightarrow> parse_tokens st ts = Some v \<Longrightarrow>
   \<exists>rest. read_value st s = Some (v, rest) \<and> list_all json_space rest"
proof (induction st s arbitrary: ts rule: read_value.induct)
  case (1 st s)
  note IH = 1(1,2) and prems = 1(3,4)
  show ?case
  proof (cases "finished st")
    case (Some w)
    with finished_tokens(1) [OF prems(2) Some] prems(1) lex_Nil show ?thesis by (simp add: read_value.simps)
  next
    case None
    from finished_tokens(2) [OF prems(2) None] obtain t ts' st'
      where t: "ts = t # ts'" "parse_step st t = Some st'" "parse_tokens st' ts' = Some v" by auto
    with prems(1) obtain c r where s: "s = c # r" by (cases s) auto
    show ?thesis
    proof (cases "json_space c")
      case True
      with IH(1) [OF None s True] prems s show ?thesis by (simp add: read_value.simps [of st "c # r"] None s)
    next
      case False
      with prems(1) s t obtain r' where r': "next_token c r = Some (t, r')" "lex r' = Some ts'"
        by (auto split: option.splits)
      from IH(2) [OF None s False r'(1) refl t(2) r'(2) t(3)] show ?thesis
        by (simp add: read_value.simps [of st "c # r"] None s False r'(1) t(2))
    qed
  qed
qed

lemma More_spaces: "list_all json_space rest \<Longrightarrow> \<not> More rest"
  unfolding More_def list_all_iff by (subst dropWhile_eq_Nil_conv [THEN iffD2]) auto

lemma decodeJSON_message:
  assumes "parse_json body = Some v" "length body \<le> max_body"
  shows "decodeJSON store body = (case store v of None \<Rightarrow> Inl InvalidBody | Some m \<Rightarrow> Inr m)"
proof -
  obtain ts where "lex body = Some ts" "parse_tokens ([], WantValue) ts = Some v"
    using assms(1) by (auto simp: parse_json_def split: option.splits)
  then obtain rest where "read_value ([], WantValue) body = Some (v, rest)" "list_all json_space rest"
    using read_value_parse by blast
  with assms(2) More_spaces show ?thesis
    by (auto simp: decodeJSON_def Decode_def split: option.splits)
qed

text \<open>
  \<open>More\<close> is meant for the inside of arrays and objects: a closing bracket after the value counts as the end, so
  a body with a stray bracket and anything after it is accepted, against the comment in \<open>decodeJSON\<close>.
\<close>

lemma Decode_short: "length body \<le> max_body \<Longrightarrow> Decode body = read_value ([], WantValue) body"
  by (auto simp: Decode_def split: option.splits)

lemma closing_bracket_ignored:
  "decodeJSON inputRequest_json ''{\"kafka_topic\": \"t\"} } and more'' =
   Inr (zero_inputRequest\<lparr>ir_KafkaTopic := ''t''\<rparr>)"
proof -
  have "Decode ''{\"kafka_topic\": \"t\"} } and more'' =
      read_value ([], WantValue) ''{\"kafka_topic\": \"t\"} } and more''"
    by (rule Decode_short) (simp add: max_body_def)
  also have "\<dots> = Some (JObj [(''kafka_topic'', JStr ''t'')], '' } and more'')" by code_simp
  finally have decoded: "Decode ''{\"kafka_topic\": \"t\"} } and more'' = \<dots>" .
  have "inputRequest_json (JObj [(''kafka_topic'', JStr ''t'')]) =
      Some (zero_inputRequest\<lparr>ir_KafkaTopic := ''t''\<rparr>)" by code_simp
  with decoded show ?thesis by (simp add: decodeJSON_def More_def json_space_def)
qed

subsection \<open>Agreement with the store\<close>

text \<open>The store's rules for the triple alone, and for a request.\<close>

definition store_triple :: "string \<Rightarrow> string \<Rightarrow> string \<Rightarrow> meta_error + (string \<times> string \<times> string)" where
  "store_triple k d i =
     (if d \<noteq> [] then
        (if \<not> IsValidStreamKind d then Inl (InvalidKind d)
         else (case StreamKeyFor d i of
                 Inl e \<Rightarrow> Inl (StreamKeyError e)
               | Inr key \<Rightarrow> if k \<noteq> [] \<and> k \<noteq> key then Inl (InconsistentStreamKey k key) else Inr (key, d, i)))
      else if k \<noteq> [] then
        (case ParseStreamKey k of
           Inl e \<Rightarrow> Inl (StreamKeyError e)
         | Inr (d', i') \<Rightarrow> if i \<noteq> [] \<and> i \<noteq> i' then Inl (InconsistentInterval i k) else Inr (k, d', i'))
      else Inl KeyOrKindRequired)"

definition fields_ok :: "inputRequest \<Rightarrow> bool" where
  "fields_ok r \<longleftrightarrow> ir_KafkaTopic r \<noteq> [] \<and> (ir_DesiredStatus r = [] \<or> IsValidDesiredStatus (ir_DesiredStatus r))"

lemma normalize_request:
  "normalizeInput gid (input_of r k d i) =
     bind_r (store_triple k d i) (\<lambda>(k', d', i'). normalize_defaults gid ((input_of r k' d' i')\<lparr>gi_GroupID := gid\<rparr>))"
proof -
  have fields: "gi_StreamKey ((input_of r k d i)\<lparr>gi_GroupID := gid\<rparr>) = k" "gi_StreamKind ((input_of r k d i)\<lparr>gi_GroupID := gid\<rparr>) = d"
    "gi_Interval ((input_of r k d i)\<lparr>gi_GroupID := gid\<rparr>) = i"
    "(input_of r k d i)\<lparr>gi_GroupID := gid, gi_StreamKey := k'\<rparr> = (input_of r k' d i)\<lparr>gi_GroupID := gid\<rparr>"
    "(input_of r k d i)\<lparr>gi_GroupID := gid, gi_StreamKind := d', gi_Interval := i'\<rparr> = (input_of r k d' i')\<lparr>gi_GroupID := gid\<rparr>"
    for k' d' i' by (simp_all add: input_of_def)
  show ?thesis
    unfolding normalizeInput_def normalize_triple_def store_triple_def fields
    by (simp split: sum.split)
qed

lemma defaults_request:
  "normalize_defaults gid ((input_of r k d i)\<lparr>gi_GroupID := gid\<rparr>) = Inl e \<Longrightarrow> \<not> fields_ok r"
  "fields_ok r \<Longrightarrow> \<exists>ni. normalize_defaults gid ((input_of r k d i)\<lparr>gi_GroupID := gid\<rparr>) = Inr ni"
  "\<not> fields_ok r \<Longrightarrow> \<exists>e. normalize_defaults gid ((input_of r k d i)\<lparr>gi_GroupID := gid\<rparr>) = Inl e"
  by (auto simp: normalize_defaults_def fields_ok_def input_of_def split: if_splits)

lemma parsed_key:
  assumes "ParseStreamKey k = Inr (d, i)"
  shows "StreamKeyFor d i = Inr k" "d \<noteq> []" "IsValidStreamKind d"
proof -
  show k: "StreamKeyFor d i = Inr k" by (rule StreamKeyFor_ParseStreamKey [OF assms])
  show "d \<noteq> []" "IsValidStreamKind d"
    using StreamKeyFor_check [OF k] by (auto simp: IsValidStreamKind_def StreamKinds_def kind_defs)
qed

lemma toModel_triple:
  "case toModel r of
     Inl e \<Rightarrow> \<not> fields_ok r \<or> (\<exists>e'. store_triple (ir_StreamKey r) (ir_StreamKind r) (ir_Interval r) = Inl e')
   | Inr x \<Rightarrow> fields_ok r \<and> (\<exists>k d i. x = input_of r k d i \<and> store_triple k d i = Inr (k, d, i) \<and>
       store_triple (ir_StreamKey r) (ir_StreamKind r) (ir_Interval r) = Inr (k, d, i))"
proof (cases "fields_ok r")
  case False
  then show ?thesis by (auto simp: toModel_def fields_ok_def Let_def)
next
  case True
  then have a: "(ir_KafkaTopic r = []) = False"
    and b: "(ir_DesiredStatus r \<noteq> [] \<and> \<not> IsValidDesiredStatus (ir_DesiredStatus r)) = False"
    by (auto simp: fields_ok_def)
  have pass: "toModel r = (if ir_StreamKind r \<noteq> [] then
      (if \<not> IsValidStreamKind (ir_StreamKind r) then Inl (BadStreamKind (ir_StreamKind r))
       else (case StreamKeyFor (ir_StreamKind r) (ir_Interval r) of
               Inl e \<Rightarrow> Inl (BadStreamKey e)
             | Inr key \<Rightarrow> if ir_StreamKey r \<noteq> [] \<and> ir_StreamKey r \<noteq> key then Inl (KeyMismatch (ir_StreamKey r) key)
                          else Inr (input_of r key (ir_StreamKind r) (ir_Interval r))))
    else if ir_StreamKey r \<noteq> [] then
      (case ParseStreamKey (ir_StreamKey r) of
         Inl e \<Rightarrow> Inl (BadStreamKey e)
       | Inr (k, iv) \<Rightarrow> if ir_Interval r \<noteq> [] \<and> ir_Interval r \<noteq> iv then Inl (IntervalMismatch (ir_Interval r) (ir_StreamKey r))
                        else Inr (input_of r (ir_StreamKey r) k iv))
    else Inl KeyOrKindMissing)"
    unfolding toModel_def Let_def a b by (simp only: if_False)
  show ?thesis
  proof (cases "ir_StreamKind r = []")
    case False
    show ?thesis
    proof (cases "StreamKeyFor (ir_StreamKind r) (ir_Interval r)")
      case (Inl e)
      then show ?thesis unfolding pass store_triple_def by (simp add: False)
    next
      case (Inr key)
      note valid = StreamKeyFor_check [OF Inr, THEN conjunct1]
      show ?thesis
      proof (cases "ir_StreamKey r \<noteq> [] \<and> ir_StreamKey r \<noteq> key")
        case True
        then show ?thesis unfolding pass store_triple_def by (simp add: False Inr valid)
      next
        case match: False
        have "store_triple k (ir_StreamKind r) (ir_Interval r) = Inr (key, ir_StreamKind r, ir_Interval r)"
          if "k = [] \<or> k = key" for k
          unfolding store_triple_def using False Inr valid that by auto
        with match True show ?thesis unfolding pass using False Inr valid by auto
      qed
    qed
  next
    case kind: True
    show ?thesis
    proof (cases "ParseStreamKey (ir_StreamKey r)")
      case (Inl e)
      then show ?thesis unfolding pass store_triple_def by (simp add: kind)
    next
      case (Inr ki)
      obtain d i where ki: "ki = (d, i)" by fastforce
      with Inr parsed_key [of "ir_StreamKey r" d i] True show ?thesis
        unfolding pass store_triple_def by (simp add: kind split: if_splits)
    qed
  qed
qed

lemma request_agreement:
  "case toModel r of
     Inl e \<Rightarrow> \<exists>e'. normalizeInput gid (input_of r (ir_StreamKey r) (ir_StreamKind r) (ir_Interval r)) = Inl e'
   | Inr x \<Rightarrow> \<exists>ni. normalizeInput gid x = Inr ni \<and>
       normalizeInput gid (input_of r (ir_StreamKey r) (ir_StreamKind r) (ir_Interval r)) = Inr ni"
proof (cases "toModel r")
  case (Inl e)
  with toModel_triple [of r] defaults_request(3) [where r = r and gid = gid] show ?thesis
    by (cases "store_triple (ir_StreamKey r) (ir_StreamKind r) (ir_Interval r)") (auto simp: normalize_request)
next
  case (Inr x)
  with toModel_triple [of r] defaults_request(2) [where r = r and gid = gid] show ?thesis by (auto simp: normalize_request)
qed

text \<open>
  C32. The API and the metadata store apply the same rules to an input although each has its own code for
  them: the request is refused by \<open>toModel\<close> exactly when the store would refuse its fields, and what the
  store makes of an accepted request is what it makes of the fields as they were sent.
\<close>

theorem api_and_store_agree:
  "case toModel r of
     Inl e \<Rightarrow> \<exists>e'. normalizeInput gid (input_of r (ir_StreamKey r) (ir_StreamKind r) (ir_Interval r)) = Inl e'
   | Inr x \<Rightarrow> \<exists>ni. normalizeInput gid x = Inr ni \<and>
       normalizeInput gid (input_of r (ir_StreamKey r) (ir_StreamKind r) (ir_Interval r)) = Inr ni"
  by (rule request_agreement)

lemma to_models_normalize:
  "to_models rs = Inr xs \<Longrightarrow> \<exists>nis. normalize_inputs gid xs = Inr nis \<and> list_all input_check nis"
proof (induction rs arbitrary: xs)
  case (Cons r rs)
  then obtain x ys where x: "toModel r = Inr x" "to_models rs = Inr ys" "xs = x # ys" by (auto simp: bind_r_Inr_iff)
  obtain ni where "normalizeInput gid x = Inr ni" using request_agreement [where r = r and gid = gid] x(1) by auto
  moreover obtain nis where "normalize_inputs gid ys = Inr nis" "list_all input_check nis" using Cons.IH [OF x(2)] by blast
  ultimately show ?case using normalizeInput_check by (auto simp: x(3))
qed simp

end
