(* ===== verification/Query_Pages.thy ===== *)
theory Query_Pages
  imports Fact_Store Go_Time "HOL-Library.Product_Lexorder"
begin

section \<open>Paged queries: the read side of internal/storage/postgres.go\<close>

text \<open>
  The three queries with their keyset cursors. A query parses the cursor, selects the rows of a group
  in \<open>[from, to)\<close> above the cursor in key order, one row more than the page holds, scans them into the
  model types and, when the extra row exists, formats the next cursor from it. The text collation of
  the database is a parameter \<open>ck\<close> of the kline query, given by its sort keys. Times that come back
  from the database are formatted in UTC.

  The locale \<open>keyset_table\<close> states what the three tables share (unique keys, cursors that parse back to
  the key they were formatted from) and derives what a client that follows the cursors sees. It is
  interpreted for trades and snapshots. The lemmas show the cursor round trips, the content of every
  page, and two defects: each page boundary drops a row, and a candle without a quote volume makes its
  group unreadable.
\<close>

subsection \<open>Limits and cursors\<close>

datatype query_error =
    InvalidCursor
  | InvalidCursorTime
  | InvalidCursorID
  | QueryFailed
  | ScanNull string

record 'r QueryResult =
  qr_Rows :: "'r list"
  qr_NextCursor :: string

definition defaultQueryLimit :: goint where
  "defaultQueryLimit = 200"

definition maxQueryLimit :: goint where
  "maxQueryLimit = 1000"

definition validateQueryLimit :: "goint \<Rightarrow> goint" where
  "validateQueryLimit limit =
     (if limit \<le> 0 then defaultQueryLimit else if limit > maxQueryLimit then maxQueryLimit else limit)"

definition parseTradeCursor :: "string \<Rightarrow> query_error + time \<times> int64" where
  "parseTradeCursor cursor =
     (if cursor = [] then Inr (zero_time, 0)
      else (case cut_last CHR ''|'' cursor of
              None \<Rightarrow> Inl InvalidCursor
            | Some (a, b) \<Rightarrow>
                (case parse_time a of
                   None \<Rightarrow> Inl InvalidCursorTime
                 | Some t \<Rightarrow> (case ParseInt 64 b of None \<Rightarrow> Inl InvalidCursorID | Some i \<Rightarrow> Inr (t, i)))))"

definition formatTradeCursor :: "time \<Rightarrow> int64 \<Rightarrow> string" where
  "formatTradeCursor t i = format_time t @ ''|'' @ FormatInt i"

definition parseKlineCursor :: "string \<Rightarrow> query_error + time \<times> string \<times> string" where
  "parseKlineCursor cursor =
     (if cursor = [] then Inr (zero_time, [], [])
      else (case splitN 3 CHR ''|'' cursor of
              [a, b, c] \<Rightarrow> (case parse_time a of None \<Rightarrow> Inl InvalidCursorTime | Some t \<Rightarrow> Inr (t, b, c))
            | _ \<Rightarrow> Inl InvalidCursor))"

definition formatKlineCursor :: "time \<Rightarrow> string \<Rightarrow> string \<Rightarrow> string" where
  "formatKlineCursor t source interval = format_time t @ ''|'' @ source @ ''|'' @ interval"

definition parseSnapshotCursor :: "string \<Rightarrow> query_error + time \<times> int64" where
  "parseSnapshotCursor cursor =
     (if cursor = [] then Inr (zero_time, 0)
      else (case cut_last CHR ''|'' cursor of
              None \<Rightarrow> Inl InvalidCursor
            | Some (a, b) \<Rightarrow>
                (case parse_time a of
                   None \<Rightarrow> Inl InvalidCursorTime
                 | Some t \<Rightarrow> (case ParseInt 64 b of None \<Rightarrow> Inl InvalidCursorID | Some i \<Rightarrow> Inr (t, i)))))"

definition formatSnapshotCursor :: "time \<Rightarrow> int64 \<Rightarrow> string" where
  "formatSnapshotCursor t i = format_time t @ ''|'' @ FormatInt i"

subsection \<open>Selection and pages\<close>

text \<open>\<open>WHERE \<dots> AND ($4 = '' OR key > cursor) ORDER BY key LIMIT n\<close>.\<close>

definition select_rows :: "('r \<Rightarrow> 'k::linorder) \<Rightarrow> ('r \<Rightarrow> bool) \<Rightarrow> 'k option \<Rightarrow> nat \<Rightarrow> 'r list \<Rightarrow> 'r list" where
  "select_rows key sel after n rows =
     take n (sort_key key
       (filter (\<lambda>r. sel r \<and> (case after of None \<Rightarrow> True | Some k \<Rightarrow> k < key r)) rows))"

text \<open>\<open>if len(result.Rows) > limit\<close>: the cursor is made from the row after the page.\<close>

definition page_of :: "goint \<Rightarrow> ('r \<Rightarrow> string) \<Rightarrow> 'r list \<Rightarrow> 'r QueryResult" where
  "page_of limit cursor_of rows =
     (if int (length rows) > limit
      then \<lparr> qr_Rows = take (nat limit) rows, qr_NextCursor = cursor_of (rows ! nat limit) \<rparr>
      else \<lparr> qr_Rows = rows, qr_NextCursor = [] \<rparr>)"

subsection \<open>The queries\<close>

definition trade_key :: "trade_row \<Rightarrow> time \<times> int64" where
  "trade_key r = (tw_event_time r, tw_id r)"

definition scan_trade :: "trade_row \<Rightarrow> Trade" where
  "scan_trade r =
     \<lparr> tr_ID = tw_id r, tr_GroupID = tw_group_id r, tr_InputID = tw_input_id r,
       tr_EventTime = tw_event_time r, tr_ExchangeTime = tw_exchange_time r,
       tr_LocalReceiveTime = tw_local_receive_time r,
       tr_TradeID = (case tw_trade_id r of None \<Rightarrow> [] | Some s \<Rightarrow> s),
       tr_RawTradeID = (case tw_raw_trade_id r of None \<Rightarrow> [] | Some s \<Rightarrow> s),
       tr_Price = tw_price r, tr_Quantity = tw_quantity r, tr_Side = tw_side r,
       tr_IsAggregated = tw_is_aggregated r, tr_KafkaTopic = tw_kafka_topic r,
       tr_KafkaPartition = tw_kafka_partition r, tr_KafkaOffset = tw_kafka_offset r,
       tr_SchemaVersion = tw_schema_version r, tr_IngestedAt = tw_ingested_at r \<rparr>"

definition trade_in :: "string \<Rightarrow> time \<Rightarrow> time \<Rightarrow> trade_row \<Rightarrow> bool" where
  "trade_in groupID start stop r \<longleftrightarrow>
     tw_group_id r = groupID \<and> pg_time start \<le> tw_event_time r \<and> tw_event_time r < pg_time stop"

definition QueryTrades ::
  "bool \<Rightarrow> fact_db \<Rightarrow> string \<Rightarrow> time \<Rightarrow> time \<Rightarrow> goint \<Rightarrow> string \<Rightarrow> query_error + Trade QueryResult" where
  "QueryTrades fails db groupID start stop limit cursor =
     (let limit = validateQueryLimit limit in
      case parseTradeCursor cursor of
        Inl e \<Rightarrow> Inl e
      | Inr (curTime, curID) \<Rightarrow>
          if fails then Inl QueryFailed
          else Inr (page_of limit (\<lambda>t. formatTradeCursor (tr_EventTime t) (tr_ID t))
                 (map scan_trade (select_rows trade_key (trade_in groupID start stop)
                    (if cursor = [] then None else Some (pg_time curTime, curID))
                    (nat (limit + 1)) (db_trades db)))))"

definition kline_order :: "(string \<Rightarrow> string) \<Rightarrow> kline_key \<times> kline_row \<Rightarrow> time \<times> string \<times> string" where
  "kline_order ck e = (case e of ((g, source, interval, t), row) \<Rightarrow> (t, ck source, ck interval))"

definition kline_in :: "string \<Rightarrow> time \<Rightarrow> time \<Rightarrow> kline_key \<times> kline_row \<Rightarrow> bool" where
  "kline_in groupID start stop e \<longleftrightarrow>
     (case e of ((g, source, interval, t), row) \<Rightarrow> g = groupID \<and> pg_time start \<le> t \<and> t < pg_time stop)"

text \<open>A NULL quote volume cannot be scanned into the string field.\<close>

definition scan_kline :: "kline_key \<times> kline_row \<Rightarrow> query_error + Kline" where
  "scan_kline e =
     (case e of ((g, source, interval, t), row) \<Rightarrow>
        (case kw_quote_volume row of
           None \<Rightarrow> Inl (ScanNull ''quote_volume'')
         | Some quote \<Rightarrow> Inr
             \<lparr> kl_GroupID = g, kl_InputID = kw_input_id row, kl_Source = source, kl_Interval = interval,
               kl_OpenTime = t, kl_CloseTime = kw_close_time row, kl_Open = kw_open row,
               kl_High = kw_high row, kl_Low = kw_low row, kl_Close = kw_close row,
               kl_Volume = kw_volume row, kl_QuoteVolume = quote, kl_TradeCount = kw_trade_count row,
               kl_IsClosed = kw_is_closed row, kl_Revision = kw_revision row,
               kl_KafkaTopic = kw_kafka_topic row, kl_KafkaPartition = kw_kafka_partition row,
               kl_KafkaOffset = kw_kafka_offset row, kl_UpdatedAt = kw_updated_at row \<rparr>))"

fun scan_all :: "('a \<Rightarrow> 'e + 'b) \<Rightarrow> 'a list \<Rightarrow> 'e + 'b list" where
  "scan_all scan [] = Inr []"
| "scan_all scan (x # xs) = bind_r (scan x) (\<lambda>y. bind_r (scan_all scan xs) (\<lambda>ys. Inr (y # ys)))"

definition QueryKlines ::
  "(string \<Rightarrow> string) \<Rightarrow> bool \<Rightarrow> fact_db \<Rightarrow> string \<Rightarrow> time \<Rightarrow> time \<Rightarrow> goint \<Rightarrow> string \<Rightarrow>
   query_error + Kline QueryResult" where
  "QueryKlines ck fails db groupID start stop limit cursor =
     (let limit = validateQueryLimit limit in
      case parseKlineCursor cursor of
        Inl e \<Rightarrow> Inl e
      | Inr (curTime, curSource, curInterval) \<Rightarrow>
          if fails then Inl QueryFailed
          else bind_r (scan_all scan_kline
                 (select_rows (kline_order ck) (kline_in groupID start stop)
                    (if cursor = [] then None else Some (pg_time curTime, ck curSource, ck curInterval))
                    (nat (limit + 1)) (db_klines db)))
               (\<lambda>rows. Inr (page_of limit
                  (\<lambda>k. formatKlineCursor (kl_OpenTime k) (kl_Source k) (kl_Interval k)) rows)))"

definition snapshot_key :: "snapshot_row \<Rightarrow> time \<times> int64" where
  "snapshot_key r = (sw_snapshot_time r, sw_snapshot_id r)"

definition snapshot_in :: "string \<Rightarrow> time \<Rightarrow> time \<Rightarrow> snapshot_row \<Rightarrow> bool" where
  "snapshot_in groupID start stop r \<longleftrightarrow>
     sw_group_id r = groupID \<and> pg_time start \<le> sw_snapshot_time r \<and> sw_snapshot_time r < pg_time stop"

definition scan_snapshot :: "snapshot_row \<Rightarrow> OrderBookSnapshot" where
  "scan_snapshot r =
     \<lparr> sn_SnapshotID = sw_snapshot_id r, sn_GroupID = sw_group_id r, sn_InputID = sw_input_id r,
       sn_SnapshotTime = sw_snapshot_time r, sn_Sequence = sw_sequence r, sn_Bids = sw_bids r,
       sn_Asks = sw_asks r, sn_CreatedAt = sw_created_at r \<rparr>"

definition QuerySnapshots ::
  "bool \<Rightarrow> fact_db \<Rightarrow> string \<Rightarrow> time \<Rightarrow> time \<Rightarrow> goint \<Rightarrow> string \<Rightarrow>
   query_error + OrderBookSnapshot QueryResult" where
  "QuerySnapshots fails db groupID start stop limit cursor =
     (let limit = validateQueryLimit limit in
      case parseSnapshotCursor cursor of
        Inl e \<Rightarrow> Inl e
      | Inr (curTime, curID) \<Rightarrow>
          if fails then Inl QueryFailed
          else Inr (page_of limit (\<lambda>s. formatSnapshotCursor (sn_SnapshotTime s) (sn_SnapshotID s))
                 (map scan_snapshot (select_rows snapshot_key (snapshot_in groupID start stop)
                    (if cursor = [] then None else Some (pg_time curTime, curID))
                    (nat (limit + 1)) (db_snapshots db)))))"

subsection \<open>Cursor round trips\<close>

text \<open>The times whose format is a year of four digits.\<close>

definition printable :: "time \<Rightarrow> bool" where
  "printable t \<longleftrightarrow> 0 \<le> year_of t \<and> year_of t \<le> 9999"

lemma time_cursor_parses:
  assumes "printable t" "in_int64 i"
  shows "parseTradeCursor (format_time t @ ''|'' @ FormatInt i) = Inr (t, i)"
  using assms parse_format_time [of t] ParseInt_FormatInt [of 64 i] cut_last_Some [OF FormatInt_no_bar [of i], of "format_time t"]
  by (simp add: parseTradeCursor_def printable_def in_int64_def min_int64_def max_int64_def)

lemma snapshot_cursor_same: "parseSnapshotCursor = parseTradeCursor" "formatSnapshotCursor = formatTradeCursor"
  by (simp_all add: fun_eq_iff parseSnapshotCursor_def parseTradeCursor_def formatSnapshotCursor_def
      formatTradeCursor_def)

lemma split3: "CHR ''|'' \<notin> set a \<Longrightarrow> CHR ''|'' \<notin> set b \<Longrightarrow>
  splitN 3 CHR ''|'' (a @ CHR ''|'' # b @ CHR ''|'' # c) = [a, b, c]"
  by (simp add: numeral_3_eq_3)

text \<open>
  Every cursor the service hands out parses back to the key it was made from: a trade or snapshot
  cursor to its time and id, a kline cursor to its open time, source and interval, even when the
  interval contains the separator.
\<close>

theorem cursor_roundtrip:
  assumes "printable t" "in_int64 i" "CHR ''|'' \<notin> set source"
  shows "parseTradeCursor (formatTradeCursor t i) = Inr (t, i) \<and>
    parseSnapshotCursor (formatSnapshotCursor t i) = Inr (t, i) \<and>
    parseKlineCursor (formatKlineCursor t source interval) = Inr (t, source, interval)"
proof -
  have trade: "parseTradeCursor (formatTradeCursor t i) = Inr (t, i)"
    using time_cursor_parses [OF assms(1,2)] by (simp add: formatTradeCursor_def)
  have "parse_time (format_time t) = Some t" using parse_format_time assms(1) by (simp add: printable_def)
  then have "parseKlineCursor (formatKlineCursor t source interval) = Inr (t, source, interval)"
    using split3 [OF format_time_no_bar assms(3), of t interval]
    by (simp add: parseKlineCursor_def formatKlineCursor_def)
  with trade show ?thesis by (simp add: snapshot_cursor_same)
qed

lemma validateQueryLimit_range: "1 \<le> validateQueryLimit l" "validateQueryLimit l \<le> 1000"
  by (simp_all add: validateQueryLimit_def defaultQueryLimit_def maxQueryLimit_def)

subsection \<open>What a client that follows the cursors sees\<close>

text \<open>The common shape of the three queries on the selected rows.\<close>

definition keyset_query ::
  "(string \<Rightarrow> query_error + time \<times> int64) \<Rightarrow> ('r \<Rightarrow> time \<times> int64) \<Rightarrow> ('r \<Rightarrow> string) \<Rightarrow> ('r \<Rightarrow> bool) \<Rightarrow> goint \<Rightarrow>
   'r list \<Rightarrow> string \<Rightarrow> query_error + 'r QueryResult" where
  "keyset_query parse key fmt sel limit rows cursor =
     (case parse cursor of
        Inl e \<Rightarrow> Inl e
      | Inr (t, i) \<Rightarrow> Inr (page_of limit fmt (select_rows key sel
          (if cursor = [] then None else Some (pg_time t, i)) (nat (limit + 1)) rows)))"

text \<open>The page a client gets after following \<open>n\<close> cursors.\<close>

fun nth_page :: "(string \<Rightarrow> query_error + 'r QueryResult) \<Rightarrow> nat \<Rightarrow> string \<Rightarrow> query_error + 'r QueryResult" where
  "nth_page query 0 cursor = query cursor"
| "nth_page query (Suc n) cursor =
     (case query cursor of
        Inl e \<Rightarrow> Inl e
      | Inr p \<Rightarrow> if qr_NextCursor p = [] then Inr \<lparr> qr_Rows = [], qr_NextCursor = [] \<rparr>
                 else nth_page query n (qr_NextCursor p))"

lemma strict_sorted_key:
  assumes "distinct (map f xs)"
  shows "sorted_wrt (<) (map f (sort_key f xs))"
proof -
  have "sorted (map f (sort_key f xs))" by simp
  moreover have "mset (map f (sort_key f xs)) = mset (map f xs)" by simp
  then have "distinct (map f (sort_key f xs))" using assms by (metis mset_eq_imp_distinct_iff)
  ultimately show ?thesis by (simp add: strict_sorted_iff)
qed

lemma filter_above:
  assumes "sorted_wrt (<) (map (f :: 'a \<Rightarrow> 'k::linorder) S)" "j < length S"
  shows "filter (\<lambda>r. f (S ! j) < f r) S = drop (Suc j) S"
proof -
  have "S = take (Suc j) S @ drop (Suc j) S" by simp
  moreover have "filter (\<lambda>r. f (S ! j) < f r) (take (Suc j) S) = []"
  proof -
    have "f r \<le> f (S ! j)" if r: "r \<in> set (take (Suc j) S)" for r
    proof -
      obtain k where k: "k < length (take (Suc j) S)" "take (Suc j) S ! k = r"
        using r by (metis in_set_conv_nth)
      then have "k \<le> j" "S ! k = r" by simp_all
      then show ?thesis
        using assms sorted_wrt_nth_less [OF assms(1), of k j] by (cases "k = j") auto
    qed
    then show ?thesis by (force simp: filter_empty_conv not_less)
  qed
  moreover have "filter (\<lambda>r. f (S ! j) < f r) (drop (Suc j) S) = drop (Suc j) S"
  proof -
    have "f (S ! j) < f r" if r: "r \<in> set (drop (Suc j) S)" for r
    proof -
      obtain k where k: "k < length (drop (Suc j) S)" "drop (Suc j) S ! k = r"
        using r by (metis in_set_conv_nth)
      then show ?thesis using sorted_wrt_nth_less [OF assms(1), of j "Suc j + k"] assms(2) by simp
    qed
    then show ?thesis by (simp add: filter_id_conv)
  qed
  ultimately show ?thesis by (metis append_Nil filter_append)
qed

locale keyset_table =
  fixes rows :: "'db \<Rightarrow> 'r list"
    and table_ok :: "'db \<Rightarrow> bool"
    and key :: "'r \<Rightarrow> time \<times> int64"
    and fmt :: "'r \<Rightarrow> string"
    and parse :: "string \<Rightarrow> query_error + time \<times> int64"
  assumes unique_keys: "table_ok db \<Longrightarrow> distinct (map key (rows db))"
    and cursor_parses: "table_ok db \<Longrightarrow> r \<in> set (rows db) \<Longrightarrow>
      fmt r \<noteq> [] \<and> (\<exists>t. parse (fmt r) = Inr (t, snd (key r)) \<and> pg_time t = fst (key r))"
    and empty_parses: "\<exists>x. parse [] = Inr x"
begin

lemma selected_sorted:
  assumes "table_ok db"
  shows "sorted_wrt (<) (map key (sort_key key (filter sel (rows db))))"
  using unique_keys [OF assms] by (intro strict_sorted_key) (simp add: distinct_map_filter)

lemma select_above:
  assumes "table_ok db" "S = sort_key key (filter sel (rows db))"
  shows "select_rows key sel None n (rows db) = take n S"
    and "j < length S \<Longrightarrow> select_rows key sel (Some (key (S ! j))) n (rows db) = take n (drop (Suc j) S)"
proof -
  show "select_rows key sel None n (rows db) = take n S" by (simp add: select_rows_def assms(2))
  assume j: "j < length S"
  have "sort_key key (filter (\<lambda>r. sel r \<and> key (S ! j) < key r) (rows db)) =
      sort_key key (filter (\<lambda>r. key (S ! j) < key r) (filter sel (rows db)))"
    by (simp add: conj_commute)
  also have "\<dots> = filter (\<lambda>r. key (S ! j) < key r) S" by (simp only: filter_sort assms(2))
  also have "\<dots> = drop (Suc j) S"
    using filter_above [OF selected_sorted [OF assms(1), of sel, folded assms(2)] j] .
  finally show "select_rows key sel (Some (key (S ! j))) n (rows db) = take n (drop (Suc j) S)"
    by (simp add: select_rows_def)
qed

lemma page_at:
  assumes "table_ok db" "S = sort_key key (filter sel (rows db))" "1 \<le> limit"
    and "m = 0 \<and> cursor = [] \<or> (\<exists>j < length S. m = Suc j \<and> cursor = fmt (S ! j))"
  shows "keyset_query parse key fmt sel limit (rows db) cursor = Inr
    \<lparr> qr_Rows = take (nat limit) (drop m S),
      qr_NextCursor = (if m + nat limit < length S then fmt (S ! (m + nat limit)) else []) \<rparr>"
proof -
  have "\<exists>t i. parse cursor = Inr (t, i) \<and>
      select_rows key sel (if cursor = [] then None else Some (pg_time t, i)) (nat (limit + 1)) (rows db) =
      take (nat (limit + 1)) (drop m S)"
    using assms(4)
  proof (elim disjE exE conjE)
    assume "m = 0" "cursor = []"
    then show ?thesis using empty_parses select_above(1) [OF assms(1,2)] by auto
  next
    fix j assume j: "j < length S" "m = Suc j" "cursor = fmt (S ! j)"
    then have "S ! j \<in> set (rows db)" using assms(2) by (metis filter_is_subset nth_mem set_sort subsetD)
    from cursor_parses [OF assms(1) this] j(3) obtain t where
      "cursor \<noteq> []" "parse cursor = Inr (t, snd (key (S ! j)))" "pg_time t = fst (key (S ! j))" by auto
    then show ?thesis using select_above(2) [OF assms(1,2) j(1)] j(2) by simp
  qed
  then obtain t i where q: "parse cursor = Inr (t, i)"
    "select_rows key sel (if cursor = [] then None else Some (pg_time t, i)) (nat (limit + 1)) (rows db) =
      take (nat (limit + 1)) (drop m S)" by blast
  have n: "nat (limit + 1) = Suc (nat limit)" using assms(3) by simp
  have len: "limit < int (length (take (Suc (nat limit)) (drop m S))) \<longleftrightarrow> m + nat limit < length S"
    using assms(3) by auto
  show ?thesis
    using q len unfolding keyset_query_def page_of_def n by (simp add: min_def)
qed

lemma nth_page_at:
  assumes "table_ok db" "S = sort_key key (filter sel (rows db))" "1 \<le> limit"
    and "m = 0 \<and> cursor = [] \<or> (\<exists>j < length S. m = Suc j \<and> cursor = fmt (S ! j))"
  shows "\<exists>p. nth_page (keyset_query parse key fmt sel limit (rows db)) n cursor = Inr p \<and>
    qr_Rows p = take (nat limit) (drop (m + n * Suc (nat limit)) S)"
  using assms(4)
proof (induction n arbitrary: m cursor)
  case 0
  then show ?case using page_at [OF assms(1-3)] by simp
next
  case (Suc n)
  note page = page_at [OF assms(1-3) Suc.prems]
  show ?case
  proof (cases "m + nat limit < length S")
    case True
    let ?c = "fmt (S ! (m + nat limit))"
    have "S ! (m + nat limit) \<in> set (rows db)"
      using True assms(2) by (metis filter_is_subset nth_mem set_sort subsetD)
    then have "?c \<noteq> []" using cursor_parses [OF assms(1)] by blast
    then have "nth_page (keyset_query parse key fmt sel limit (rows db)) (Suc n) cursor =
        nth_page (keyset_query parse key fmt sel limit (rows db)) n ?c"
      using page True by simp
    moreover have idx: "Suc (m + nat limit) + n * Suc (nat limit) = m + Suc n * Suc (nat limit)" by simp
    moreover have "\<exists>p. nth_page (keyset_query parse key fmt sel limit (rows db)) n ?c = Inr p \<and>
        qr_Rows p = take (nat limit) (drop (Suc (m + nat limit) + n * Suc (nat limit)) S)"
      by (rule Suc.IH) (use True in blast)
    ultimately show ?thesis by metis
  next
    case False
    then show ?thesis using page by simp
  qed
qed

end

subsection \<open>Trades and snapshots\<close>

definition trades_readable :: "fact_db \<Rightarrow> bool" where
  "trades_readable db \<longleftrightarrow> trades_ok db \<and>
     list_all (\<lambda>r. printable (tw_event_time r) \<and> in_int64 (tw_id r) \<and> pg_time (tw_event_time r) = tw_event_time r)
       (db_trades db)"

definition snapshots_readable :: "fact_db \<Rightarrow> bool" where
  "snapshots_readable db \<longleftrightarrow> distinct (map sw_snapshot_id (db_snapshots db)) \<and>
     list_all (\<lambda>r. sw_snapshot_id r < db_snapshot_seq db \<and> printable (sw_snapshot_time r) \<and>
       in_int64 (sw_snapshot_id r) \<and> pg_time (sw_snapshot_time r) = sw_snapshot_time r) (db_snapshots db)"

lemma pg_time_idem [simp]: "pg_time (pg_time t) = pg_time t"
  by (simp add: pg_time_def)

text \<open>The inserts keep the tables readable, up to the range of the identity column.\<close>

lemma insert_trade_readable:
  assumes "trades_readable db" "printable (pg_time (tr_EventTime r))" "in_int64 (db_trade_seq db)"
  shows "trades_readable (insert_trade now db r)"
  using assms insert_trade_ok [of db now r]
  by (auto simp: trades_readable_def insert_trade_def Let_def trade_row_of_def)

lemma insert_snapshot_readable:
  assumes "snapshots_readable db" "printable (pg_time (sn_SnapshotTime r))" "in_int64 (db_snapshot_seq db)"
  shows "snapshots_readable (insert_snapshot now db r)"
  using assms by (force simp: snapshots_readable_def insert_snapshot_def Let_def list_all_iff)

lemma distinct_pairs: "distinct (map g xs) \<Longrightarrow> distinct (map (\<lambda>x. (f x, g x)) xs)"
  by (auto simp: distinct_map inj_on_def)

lemma time_cursor_law:
  assumes "printable t" "in_int64 i" "pg_time t = t"
  shows "formatTradeCursor t i \<noteq> [] \<and>
    (\<exists>u. parseTradeCursor (formatTradeCursor t i) = Inr (u, snd (t, i)) \<and> pg_time u = fst (t, i))"
  using time_cursor_parses [OF assms(1,2)] assms(3) by (simp add: formatTradeCursor_def)

lemma trades_readable_ids: "trades_readable db \<Longrightarrow> distinct (map tw_id (db_trades db))"
  by (simp add: trades_readable_def trades_ok_def strict_sorted_iff)

interpretation trade_pages: keyset_table db_trades trades_readable trade_key
  "\<lambda>r. formatTradeCursor (tw_event_time r) (tw_id r)" parseTradeCursor
proof unfold_locales
  fix db :: fact_db and r
  assume ok: "trades_readable db"
  show "distinct (map trade_key (db_trades db))"
    using distinct_pairs [OF trades_readable_ids [OF ok], of tw_event_time] by (simp add: trade_key_def [abs_def])
  assume "r \<in> set (db_trades db)"
  with ok have "printable (tw_event_time r)" "in_int64 (tw_id r)" "pg_time (tw_event_time r) = tw_event_time r"
    by (auto simp: trades_readable_def list_all_iff)
  from time_cursor_law [OF this]
  show "formatTradeCursor (tw_event_time r) (tw_id r) \<noteq> [] \<and>
    (\<exists>t. parseTradeCursor (formatTradeCursor (tw_event_time r) (tw_id r)) = Inr (t, snd (trade_key r)) \<and>
         pg_time t = fst (trade_key r))"
    by (simp add: trade_key_def)
qed (simp add: parseTradeCursor_def)

interpretation snapshot_pages: keyset_table db_snapshots snapshots_readable snapshot_key
  "\<lambda>r. formatSnapshotCursor (sw_snapshot_time r) (sw_snapshot_id r)" parseSnapshotCursor
proof unfold_locales
  fix db :: fact_db and r
  assume ok: "snapshots_readable db"
  then have "distinct (map sw_snapshot_id (db_snapshots db))" by (simp add: snapshots_readable_def)
  from distinct_pairs [OF this, of sw_snapshot_time] show "distinct (map snapshot_key (db_snapshots db))"
    by (simp add: snapshot_key_def [abs_def])
  assume "r \<in> set (db_snapshots db)"
  with ok have "printable (sw_snapshot_time r)" "in_int64 (sw_snapshot_id r)"
    "pg_time (sw_snapshot_time r) = sw_snapshot_time r"
    by (auto simp: snapshots_readable_def list_all_iff)
  from time_cursor_law [OF this]
  show "formatSnapshotCursor (sw_snapshot_time r) (sw_snapshot_id r) \<noteq> [] \<and>
    (\<exists>t. parseSnapshotCursor (formatSnapshotCursor (sw_snapshot_time r) (sw_snapshot_id r)) =
         Inr (t, snd (snapshot_key r)) \<and> pg_time t = fst (snapshot_key r))"
    by (simp add: snapshot_key_def snapshot_cursor_same)
qed (simp add: parseSnapshotCursor_def)

definition map_page :: "('r \<Rightarrow> 's) \<Rightarrow> 'e + 'r QueryResult \<Rightarrow> 'e + 's QueryResult" where
  "map_page f r = map_sum id (\<lambda>p. \<lparr> qr_Rows = map f (qr_Rows p), qr_NextCursor = qr_NextCursor p \<rparr>) r"

lemma page_of_map:
  "0 \<le> limit \<Longrightarrow> page_of limit c (map f xs) =
     \<lparr> qr_Rows = map f (qr_Rows (page_of limit (\<lambda>x. c (f x)) xs)),
       qr_NextCursor = qr_NextCursor (page_of limit (\<lambda>x. c (f x)) xs) \<rparr>"
  by (simp add: page_of_def take_map nat_less_iff)

lemma QueryTrades_keyset:
  "QueryTrades False db g start stop limit =
     (\<lambda>cursor. map_page scan_trade (keyset_query parseTradeCursor trade_key
        (\<lambda>r. formatTradeCursor (tw_event_time r) (tw_id r)) (trade_in g start stop)
        (validateQueryLimit limit) (db_trades db) cursor))"
  using validateQueryLimit_range(1) [of limit]
  by (auto simp: fun_eq_iff QueryTrades_def keyset_query_def map_page_def Let_def page_of_map scan_trade_def
      split: sum.splits)

lemma QuerySnapshots_keyset:
  "QuerySnapshots False db g start stop limit =
     (\<lambda>cursor. map_page scan_snapshot (keyset_query parseSnapshotCursor snapshot_key
        (\<lambda>r. formatSnapshotCursor (sw_snapshot_time r) (sw_snapshot_id r)) (snapshot_in g start stop)
        (validateQueryLimit limit) (db_snapshots db) cursor))"
  using validateQueryLimit_range(1) [of limit]
  by (auto simp: fun_eq_iff QuerySnapshots_def keyset_query_def map_page_def Let_def page_of_map scan_snapshot_def
      split: sum.splits)

lemma nth_page_map: "nth_page (\<lambda>c. map_page f (q c)) n cursor = map_page f (nth_page q n cursor)"
  by (induction n arbitrary: cursor) (auto simp: map_page_def split: sum.splits)

lemma boundary_not_in_page:
  assumes "distinct xs" "L < length xs"
  shows "xs ! L \<notin> set (take L (drop (n * Suc L) xs))"
proof
  assume "xs ! L \<in> set (take L (drop (n * Suc L) xs))"
  then obtain j where j: "j < L" "n * Suc L + j < length xs" "xs ! (n * Suc L + j) = xs ! L"
    by (auto simp: in_set_conv_nth)
  with assms have "n * Suc L + j = L" by (simp add: nth_eq_iff_index_eq)
  with j(1) show False by (cases n) auto
qed

text \<open>
  C36. What a client of the trade query gets by following the cursors from the first page: page \<open>n\<close>
  holds the rows of the range in (event time, id) order from position n * (limit + 1) on, at most
  limit of them. So one row at every page boundary, the first of them at position limit, is on no
  page: the next cursor names that row and the next query asks for rows strictly above it.
\<close>

theorem trade_pages_skip_boundary_rows:
  assumes "trades_readable db" "S = sort_key trade_key (filter (trade_in g start stop) (db_trades db))"
    and "L = nat (validateQueryLimit limit)"
  shows "\<exists>p. nth_page (QueryTrades False db g start stop limit) n [] = Inr p \<and>
    qr_Rows p = map scan_trade (take L (drop (n * Suc L) S)) \<and>
    (L < length S \<longrightarrow> scan_trade (S ! L) \<notin> set (qr_Rows p))"
proof -
  obtain p where p: "nth_page (keyset_query parseTradeCursor trade_key
        (\<lambda>r. formatTradeCursor (tw_event_time r) (tw_id r)) (trade_in g start stop)
        (validateQueryLimit limit) (db_trades db)) n [] = Inr p"
    "qr_Rows p = take L (drop (0 + n * Suc L) S)"
    using trade_pages.nth_page_at [OF assms(1,2) validateQueryLimit_range(1), of 0 "[]" limit n] assms(3) by auto
  have "distinct (map tw_id S)"
    using trades_readable_ids [OF assms(1)] unfolding assms(2)
    by (metis distinct_map_filter mset_map mset_eq_imp_distinct_iff mset_sort)
  then have "distinct (map (\<lambda>r. tr_ID (scan_trade r)) S)" by (simp add: scan_trade_def [abs_def])
  then have "distinct (map scan_trade S)" by (auto simp: distinct_map inj_on_def)
  then have "scan_trade (S ! L) \<notin> set (map scan_trade (take L (drop (n * Suc L) S)))" if "L < length S"
    using boundary_not_in_page [of "map scan_trade S" L n] that by (simp add: take_map drop_map del: mult_Suc_right)
  with p show ?thesis unfolding QueryTrades_keyset nth_page_map by (simp add: map_page_def)
qed

text \<open>
  The same for order-book snapshots.
\<close>

theorem snapshot_pages_skip_boundary_rows:
  assumes "snapshots_readable db" "S = sort_key snapshot_key (filter (snapshot_in g start stop) (db_snapshots db))"
    and "L = nat (validateQueryLimit limit)"
  shows "\<exists>p. nth_page (QuerySnapshots False db g start stop limit) n [] = Inr p \<and>
    qr_Rows p = map scan_snapshot (take L (drop (n * Suc L) S))"
proof -
  obtain p where p: "nth_page (keyset_query parseSnapshotCursor snapshot_key
        (\<lambda>r. formatSnapshotCursor (sw_snapshot_time r) (sw_snapshot_id r)) (snapshot_in g start stop)
        (validateQueryLimit limit) (db_snapshots db)) n [] = Inr p"
    "qr_Rows p = take L (drop (0 + n * Suc L) S)"
    using snapshot_pages.nth_page_at [OF assms(1,2) validateQueryLimit_range(1), of 0 "[]" limit n] assms(3) by auto
  then show ?thesis unfolding QuerySnapshots_keyset nth_page_map by (simp add: map_page_def)
qed

subsection \<open>Candles without a quote volume\<close>

lemma scan_all_fails:
  assumes "e \<in> set es" "kw_quote_volume (snd e) = None"
  shows "scan_all scan_kline es = Inl (ScanNull ''quote_volume'')"
  using assms
proof (induction es)
  case (Cons x es)
  then show ?case by (cases "kw_quote_volume (snd x)") (auto simp: scan_kline_def split: prod.splits)
qed simp

text \<open>
  A candle stored without a quote volume (the message decoder accepts that, and the store writes
  NULL) makes the kline query of its group fail: the scan of NULL into a string is an error, for
  every range that holds the candle in its first page.
\<close>

theorem missing_quote_volume_breaks_query:
  assumes "e \<in> set (db_klines (upsert_kline now db k))" "e = (kline_key_of k, kline_row_of now k)"
    and "kl_QuoteVolume k = []" "kline_in g start stop e"
    and "int (length (db_klines (upsert_kline now db k))) \<le> validateQueryLimit limit"
  shows "QueryKlines ck False (upsert_kline now db k) g start stop limit [] = Inl (ScanNull ''quote_volume'')"
proof -
  let ?db = "upsert_kline now db k"
  have "e \<in> set (select_rows (kline_order ck) (kline_in g start stop) None
      (nat (validateQueryLimit limit + 1)) (db_klines ?db))"
  proof -
    have "length (sort_key (kline_order ck) (filter (kline_in g start stop) (db_klines ?db))) \<le>
        nat (validateQueryLimit limit + 1)"
      using assms(5) length_filter_le [of "kline_in g start stop" "db_klines ?db"]
      unfolding length_sort by linarith
    then show ?thesis using assms(1,4) by (simp add: select_rows_def)
  qed
  moreover have "kw_quote_volume (snd e) = None" using assms(2,3) by (simp add: kline_row_of_def nullIfEmpty_def)
  ultimately show ?thesis by (simp add: QueryKlines_def parseKlineCursor_def scan_all_fails)
qed

subsection \<open>Witnesses\<close>

lemma sample_times: "printable 0" "printable 1000" "printable 2000"
  by code_simp+

theorem cursor_roundtrip_witness:
  "parseTradeCursor (formatTradeCursor 1000 (-7)) = Inr (1000, -7) \<and>
   parseKlineCursor (formatKlineCursor 1000 ''exchange'' ''1|m'') = Inr (1000, ''exchange'', ''1|m'')"
  using cursor_roundtrip [OF sample_times(2), of "-7" "''exchange''" "''1|m''"]
  by (simp add: in_int64_def min_int64_def max_int64_def)

text \<open>Three trades and pages of one row: the second trade is never seen.\<close>

definition three_trades :: fact_db where
  "three_trades = foldl (insert_trade 0) empty_db
     [sample_trade 1 ''a'', sample_trade 2 ''b'', sample_trade 3 ''c'']"

lemma three_trades_rows: "map tw_id (db_trades three_trades) = [1, 2, 3]"
  "list_all (\<lambda>r. tw_event_time r = 0 \<and> tw_group_id r = ''g'') (db_trades three_trades)"
  by (simp_all add: three_trades_def sample_trade_def insert_trade_def empty_db_def Let_def trade_conflict_def
      trade_row_of_def nullIfEmpty_def pg_time_def)

lemma three_trades_readable: "trades_readable three_trades"
proof -
  have "trades_ok empty_db" by (simp add: trades_ok_def empty_db_def)
  then have "trades_ok three_trades" unfolding three_trades_def by (rule trade_run.run_inv) simp
  moreover have "in_int64 (tw_id r)" if "r \<in> set (db_trades three_trades)" for r
  proof -
    have "tw_id r \<in> set (map tw_id (db_trades three_trades))" using that by simp
    then show ?thesis unfolding three_trades_rows(1) by (auto simp: in_int64_def min_int64_def max_int64_def)
  qed
  ultimately show ?thesis
    using three_trades_rows(2) sample_times(1) by (auto simp: trades_readable_def list_all_iff pg_time_def)
qed

theorem trade_pages_skip_boundary_rows_witness:
  "\<exists>t. t \<in> set (db_trades three_trades) \<and> trade_in ''g'' 0 1000 t \<and>
     (\<forall>n. \<exists>p. nth_page (QueryTrades False three_trades ''g'' 0 1000 1) n [] = Inr p \<and>
       scan_trade t \<notin> set (qr_Rows p))"
proof -
  let ?S = "sort_key trade_key (filter (trade_in ''g'' 0 1000) (db_trades three_trades))"
  have all: "filter (trade_in ''g'' 0 1000) (db_trades three_trades) = db_trades three_trades"
    using three_trades_rows(2) by (auto simp: trade_in_def filter_id_conv list_all_iff pg_time_def)
  have "length (db_trades three_trades) = 3" using arg_cong [OF three_trades_rows(1), of length] by simp
  then have len: "1 < length ?S" by (simp add: all)
  have L: "1 = nat (validateQueryLimit 1)" by (simp add: validateQueryLimit_def maxQueryLimit_def)
  have t: "?S ! 1 \<in> set (db_trades three_trades)" using len by (metis all nth_mem set_sort)
  then have "trade_in ''g'' 0 1000 (?S ! 1)" using all by (metis filter_id_conv)
  moreover have "\<exists>p. nth_page (QueryTrades False three_trades ''g'' 0 1000 1) n [] = Inr p \<and>
      scan_trade (?S ! 1) \<notin> set (qr_Rows p)" for n
    using trade_pages_skip_boundary_rows [OF three_trades_readable refl L, of "''g''" 0 1000 n] len by auto
  ultimately show ?thesis using t by blast
qed

definition one_snapshot :: fact_db where
  "one_snapshot = insert_snapshot 0 empty_db
     \<lparr> sn_SnapshotID = 0, sn_GroupID = ''g'', sn_InputID = ''i'', sn_SnapshotTime = 1000, sn_Sequence = None,
       sn_Bids = [], sn_Asks = [], sn_CreatedAt = 0 \<rparr>"

theorem snapshot_pages_skip_boundary_rows_witness:
  "\<exists>p. nth_page (QuerySnapshots False one_snapshot ''g'' 0 2000 5) 0 [] = Inr p \<and>
     map sn_SnapshotTime (qr_Rows p) = [1000]"
proof -
  have "snapshots_readable empty_db" by (simp add: snapshots_readable_def empty_db_def)
  then have ok: "snapshots_readable one_snapshot"
    unfolding one_snapshot_def
    by (rule insert_snapshot_readable)
       (simp_all add: pg_time_def sample_times empty_db_def in_int64_def min_int64_def max_int64_def)
  have "map (\<lambda>r. (sw_group_id r, sw_snapshot_time r)) (db_snapshots one_snapshot) = [(''g'', 1000)]"
    by (simp add: one_snapshot_def insert_snapshot_def empty_db_def Let_def pg_time_def)
  then obtain r where r: "db_snapshots one_snapshot = [r]" "sw_group_id r = ''g''" "sw_snapshot_time r = 1000"
    by (auto simp: map_eq_Cons_conv)
  have L: "(5::nat) = nat (validateQueryLimit 5)" by (simp add: validateQueryLimit_def maxQueryLimit_def)
  from snapshot_pages_skip_boundary_rows [OF ok refl L, of "''g''" 0 2000 0] r show ?thesis
    by (auto simp: snapshot_in_def pg_time_def scan_snapshot_def)
qed

theorem missing_quote_volume_breaks_query_witness:
  "QueryKlines id False (upsert_kline 0 empty_db (sample_kline 1 True)) ''g'' 0 1000 10 [] =
     Inl (ScanNull ''quote_volume'')"
  by (rule missing_quote_volume_breaks_query [OF _ refl])
     (simp_all add: upsert_kline_def empty_db_def Let_def sample_kline_def kline_in_def kline_key_of_def
       pg_time_def validateQueryLimit_def maxQueryLimit_def)

end
