(* ===== verification/Control_Api.thy ===== *)
theory Control_Api
  imports Api_Requests Query_Pages
begin

section \<open>The control-plane API: api.go\<close>

text \<open>
  Every handler is a function from the request and the answers of the database calls to a reply and the
  tables afterwards; \<open>serve\<close> routes a request to its handler the way the \<open>ServeMux\<close> of \<open>Handler\<close> does. The
  mux hands over the segments of a cleaned path. The texts of error replies are left out: a failure is its
  HTTP status. A reply is the value that \<open>writeJSON\<close> encodes.

  The lemmas show that without database faults no management request is answered with an internal error
  (a weight that the column cannot hold apart), that a refused request changes nothing, and that a created
  group can be read back.
\<close>

subsection \<open>Replies\<close>

record leaseResponse =
  lr_NodeID :: string
  lr_LeaseExpiresAt :: time
  lr_Version :: int64
  lr_Active :: bool

record runtimeStatusResponse =
  rr_ActualStatus :: string
  rr_NodeID :: string
  rr_KafkaLag :: "int64 option"
  rr_CommittedOffset :: "int64 option"
  rr_LastError :: string
  rr_UpdatedAt :: "time option"

record inputResponse =
  ip_InputID :: string
  ip_StreamKey :: string
  ip_StreamKind :: string
  ip_Interval :: string
  ip_KafkaTopic :: string
  ip_KafkaGroupID :: string
  ip_DesiredStatus :: string
  ip_Runtime :: "runtimeStatusResponse option"

record groupResponse =
  gr_GroupID :: string
  gr_Exchange :: string
  gr_MarketType :: string
  gr_Symbol :: string
  gr_BaseAsset :: string
  gr_QuoteAsset :: string
  gr_DesiredStatus :: string
  gr_Weight :: goint
  gr_Lease :: "leaseResponse option"
  gr_Inputs :: "inputResponse list"
  gr_CreatedAt :: time
  gr_UpdatedAt :: time

definition newGroupSummary :: "MarketGroup \<Rightarrow> groupResponse" where
  "newGroupSummary g =
     \<lparr> gr_GroupID = mg_GroupID g, gr_Exchange = mg_Exchange g, gr_MarketType = mg_MarketType g,
       gr_Symbol = mg_Symbol g, gr_BaseAsset = mg_BaseAsset g, gr_QuoteAsset = mg_QuoteAsset g,
       gr_DesiredStatus = mg_DesiredStatus g, gr_Weight = mg_Weight g, gr_Lease = None, gr_Inputs = [],
       gr_CreatedAt = mg_CreatedAt g, gr_UpdatedAt = mg_UpdatedAt g \<rparr>"

definition newLeaseResponse :: "GroupLease option \<Rightarrow> time \<Rightarrow> leaseResponse option" where
  "newLeaseResponse l now =
     map_option (\<lambda>l. \<lparr> lr_NodeID = gl_NodeID l, lr_LeaseExpiresAt = gl_LeaseExpiresAt l,
                       lr_Version = gl_Version l, lr_Active = (gl_LeaseExpiresAt l > now) \<rparr>) l"

definition newInputResponse :: "GroupInput \<Rightarrow> StreamRuntimeStatus option \<Rightarrow> inputResponse" where
  "newInputResponse x st =
     \<lparr> ip_InputID = gi_InputID x, ip_StreamKey = gi_StreamKey x, ip_StreamKind = gi_StreamKind x,
       ip_Interval = gi_Interval x, ip_KafkaTopic = gi_KafkaTopic x, ip_KafkaGroupID = gi_KafkaGroupID x,
       ip_DesiredStatus = gi_DesiredStatus x,
       ip_Runtime = (case st of
           None \<Rightarrow> Some \<lparr> rr_ActualStatus = ActualStatusPending, rr_NodeID = [], rr_KafkaLag = None,
                          rr_CommittedOffset = None, rr_LastError = [], rr_UpdatedAt = None \<rparr>
         | Some s \<Rightarrow> Some \<lparr> rr_ActualStatus = ss_ActualStatus s, rr_NodeID = ss_NodeID s,
                          rr_KafkaLag = ss_KafkaLag s, rr_CommittedOffset = ss_CommittedOffset s,
                          rr_LastError = ss_LastError s, rr_UpdatedAt = Some (ss_UpdatedAt s) \<rparr>) \<rparr>"

datatype 'a reply = Reply goint 'a | Failure goint

fun reply_code :: "'a reply \<Rightarrow> goint" where
  "reply_code (Reply c x) = c"
| "reply_code (Failure c) = c"

definition badRequest :: "'a reply" where
  "badRequest = Failure 400"

definition writeStoreError :: "meta_error \<Rightarrow> 'a reply" where
  "writeStoreError e = Failure (if e = ErrConflict then 409 else if e = ErrNotFound then 404 else 500)"

record api_answers =
  aa_tx :: tx_fault
  aa_stmt :: stmt_fault
  aa_dbNow :: time
  aa_clock :: time
  aa_groupFails :: bool
  aa_inputsFail :: bool
  aa_leaseFails :: bool
  aa_statusFails :: bool

definition statusMap :: "bool \<Rightarrow> meta_db \<Rightarrow> string \<Rightarrow> meta_error + (string, StreamRuntimeStatus) gomap" where
  "statusMap fails db groupID =
     bind_r (ListStreamRuntimeStatus fails db groupID) (\<lambda>statuses.
       Inr (foldl (\<lambda>m st. AList.update (ss_InputID st) st m) [] statuses))"

definition lookupStatus :: "(string, StreamRuntimeStatus) gomap \<Rightarrow> string \<Rightarrow> StreamRuntimeStatus option" where
  "lookupStatus m iid = map_of m iid"

definition aggregateGroup :: "api_answers \<Rightarrow> meta_db \<Rightarrow> string \<Rightarrow> meta_error + groupResponse" where
  "aggregateGroup aa db groupID =
     bind_r (GetGroup (aa_groupFails aa) db groupID) (\<lambda>g.
     bind_r (ListGroupInputs (aa_inputsFail aa) db groupID) (\<lambda>inputs.
     bind_r (GetGroupLease (aa_leaseFails aa) db groupID) (\<lambda>lease.
     bind_r (statusMap (aa_statusFails aa) db groupID) (\<lambda>statusByInput.
       Inr ((newGroupSummary g)
         \<lparr> gr_Lease := newLeaseResponse lease (aa_clock aa),
            gr_Inputs := map (\<lambda>x. newInputResponse x (lookupStatus statusByInput (gi_InputID x))) inputs \<rparr>)))))"

definition aggregate_reply :: "goint \<Rightarrow> api_answers \<Rightarrow> meta_db \<Rightarrow> string \<Rightarrow> groupResponse reply" where
  "aggregate_reply code aa db gid =
     (case aggregateGroup aa db gid of Inl e \<Rightarrow> writeStoreError e | Inr resp \<Rightarrow> Reply code resp)"

subsection \<open>Group handlers\<close>

definition handleCreateGroup :: "api_answers \<Rightarrow> bytes \<Rightarrow> meta_db \<Rightarrow> groupResponse reply \<times> meta_db" where
  "handleCreateGroup aa body db =
     (case decodeJSON createGroupRequest_json body of
        Inl e \<Rightarrow> (badRequest, db)
      | Inr req \<Rightarrow>
          if cg_Exchange req = [] \<or> cg_MarketType req = [] \<or> cg_Symbol req = [] then (badRequest, db)
          else if \<not> IsValidMarketType (cg_MarketType req) then (badRequest, db)
          else if cg_DesiredStatus req \<noteq> [] \<and> \<not> IsValidDesiredStatus (cg_DesiredStatus req) then (badRequest, db)
          else (case to_models (cg_Inputs req) of
                  Inl e \<Rightarrow> (badRequest, db)
                | Inr inputs \<Rightarrow>
                    let g = \<lparr> mg_GroupID = [], mg_Exchange = cg_Exchange req, mg_MarketType = cg_MarketType req,
                              mg_Symbol = cg_Symbol req, mg_BaseAsset = cg_BaseAsset req,
                              mg_QuoteAsset = cg_QuoteAsset req, mg_DesiredStatus = cg_DesiredStatus req,
                              mg_Weight = cg_Weight req, mg_Inputs = inputs, mg_CreatedAt = zero_time,
                              mg_UpdatedAt = zero_time \<rparr>
                    in (case CreateGroup (aa_tx aa) (aa_dbNow aa) db g of
                          (Inl e, db) \<Rightarrow> (writeStoreError e, db)
                        | (Inr u, db) \<Rightarrow>
                            (aggregate_reply 201 aa db
                               (NewGroupID (cg_Exchange req) (cg_MarketType req) (cg_Symbol req)), db))))"

definition handleListGroups :: "api_answers \<Rightarrow> meta_db \<Rightarrow> groupResponse list reply" where
  "handleListGroups aa db =
     (case ListGroups (aa_groupFails aa) db of
        Inl e \<Rightarrow> writeStoreError e
      | Inr groups \<Rightarrow> Reply 200 (map newGroupSummary groups))"

definition handleGetGroup :: "api_answers \<Rightarrow> string \<Rightarrow> meta_db \<Rightarrow> groupResponse reply" where
  "handleGetGroup aa gid db = aggregate_reply 200 aa db gid"

definition setGroupStatus :: "string \<Rightarrow> api_answers \<Rightarrow> string \<Rightarrow> meta_db \<Rightarrow> groupResponse reply \<times> meta_db" where
  "setGroupStatus status aa gid db =
     (case UpdateGroupDesiredStatus (aa_stmt aa) (aa_dbNow aa) db gid status of
        (Inl e, db) \<Rightarrow> (writeStoreError e, db)
      | (Inr u, db) \<Rightarrow> (aggregate_reply 200 aa db gid, db))"

definition handlePauseGroup where "handlePauseGroup = setGroupStatus DesiredStatusPaused"
definition handleResumeGroup where "handleResumeGroup = setGroupStatus DesiredStatusRunning"
definition handleDisableGroup where "handleDisableGroup = setGroupStatus DesiredStatusDisabled"

definition handleDeleteGroup :: "api_answers \<Rightarrow> string \<Rightarrow> meta_db \<Rightarrow> (string \<times> string) reply \<times> meta_db" where
  "handleDeleteGroup aa gid db =
     (case DeleteGroup (aa_stmt aa) db gid of
        (Inl e, db) \<Rightarrow> (writeStoreError e, db)
      | (Inr u, db) \<Rightarrow> (Reply 200 (gid, ''deleted''), db))"

subsection \<open>Input handlers\<close>

definition handleCreateInput :: "api_answers \<Rightarrow> string \<Rightarrow> bytes \<Rightarrow> meta_db \<Rightarrow> inputResponse reply \<times> meta_db" where
  "handleCreateInput aa gid body db =
     (case bind_r (decodeJSON inputRequest_json body) toModel of
        Inl e \<Rightarrow> (badRequest, db)
      | Inr x \<Rightarrow>
          (case AddInputs (aa_tx aa) (aa_dbNow aa) db gid [x] of
             (Inl e, db) \<Rightarrow> (writeStoreError e, db)
           | (Inr u, db) \<Rightarrow>
               (case ListGroupInputs (aa_inputsFail aa) db gid of
                  Inl e \<Rightarrow> (writeStoreError e, db)
                | Inr inputs \<Rightarrow>
                    (Reply 201 (newInputResponse
                       (case find (\<lambda>s. gi_StreamKey s = gi_StreamKey x) inputs of None \<Rightarrow> x | Some s \<Rightarrow> s) None), db))))"

definition handleListInputs :: "api_answers \<Rightarrow> string \<Rightarrow> meta_db \<Rightarrow> inputResponse list reply" where
  "handleListInputs aa gid db =
     (case bind_r (GetGroup (aa_groupFails aa) db gid) (\<lambda>g.
           bind_r (ListGroupInputs (aa_inputsFail aa) db gid) (\<lambda>inputs.
           bind_r (statusMap (aa_statusFails aa) db gid) (\<lambda>m.
             Inr (map (\<lambda>x. newInputResponse x (lookupStatus m (gi_InputID x))) inputs)))) of
        Inl e \<Rightarrow> writeStoreError e
      | Inr out \<Rightarrow> Reply 200 out)"

definition setInputStatus :: "string \<Rightarrow> api_answers \<Rightarrow> string \<Rightarrow> string \<Rightarrow> meta_db \<Rightarrow> (string \<times> string \<times> string) reply \<times> meta_db" where
  "setInputStatus status aa gid streamKey db =
     (case UpdateInputDesiredStatus (aa_stmt aa) (aa_dbNow aa) db gid streamKey status of
        (Inl e, db) \<Rightarrow> (writeStoreError e, db)
      | (Inr u, db) \<Rightarrow> (Reply 200 (gid, streamKey, status), db))"

definition handlePauseInput where "handlePauseInput = setInputStatus DesiredStatusPaused"
definition handleResumeInput where "handleResumeInput = setInputStatus DesiredStatusRunning"

subsection \<open>Query handlers\<close>

record queryRequest =
  qp_From :: string
  qp_To :: string
  qp_Limit :: goint
  qp_Cursor :: string

datatype param_error = FromToRequired | BadLimit | BadFrom | BadTo | EmptyRange

text \<open>\<open>q\<close> is the lookup in the query string, empty for a missing parameter.\<close>

definition parseQueryParams :: "(string \<Rightarrow> string) \<Rightarrow> param_error + queryRequest" where
  "parseQueryParams q =
     (let req = \<lparr> qp_From = q ''from'', qp_To = q ''to'', qp_Limit = 0, qp_Cursor = q ''cursor'' \<rparr> in
      if qp_From req = [] \<or> qp_To req = [] then Inl FromToRequired
      else if q ''limit'' = [] then Inr req
      else (case Atoi (q ''limit'') of
              None \<Rightarrow> Inl BadLimit
            | Some v \<Rightarrow> if v < 0 then Inl BadLimit else Inr (req\<lparr>qp_Limit := v\<rparr>)))"

definition parseTimeRange :: "string \<Rightarrow> string \<Rightarrow> param_error + (time \<times> time)" where
  "parseTimeRange from to =
     (case parse_time from of
        None \<Rightarrow> Inl BadFrom
      | Some f \<Rightarrow> (case parse_time to of
                     None \<Rightarrow> Inl BadTo
                   | Some t \<Rightarrow> if \<not> f < t then Inl EmptyRange else Inr (f, t)))"

text \<open>
  The query store may be missing; the errors of a query are not domain errors of the metadata store, so
  \<open>writeStoreError\<close> answers them as internal errors. The metadata store may be missing too.
\<close>

datatype query_failure = NotConfigured | StoreFailed query_error

type_synonym 'r query = "string \<Rightarrow> time \<Rightarrow> time \<Rightarrow> goint \<Rightarrow> string \<Rightarrow> query_error + 'r QueryResult"

definition queryFn :: "'r query option \<Rightarrow> string \<Rightarrow> time \<Rightarrow> time \<Rightarrow> goint \<Rightarrow> string \<Rightarrow>
  query_failure + ('r list \<times> string)" where
  "queryFn query gid from to limit cursor =
     (case query of
        None \<Rightarrow> Inl NotConfigured
      | Some f \<Rightarrow> bind_r (map_err StoreFailed (f gid from to limit cursor)) (\<lambda>r. Inr (qr_Rows r, qr_NextCursor r)))"

definition handleQuery :: "'r query option \<Rightarrow> bool \<Rightarrow> string \<Rightarrow> (string \<Rightarrow> string) \<Rightarrow> meta_db option \<Rightarrow>
  ('r list \<times> string) reply" where
  "handleQuery query groupFails gid q store =
     (if gid = [] then badRequest
      else (case parseQueryParams q of
              Inl e \<Rightarrow> badRequest
            | Inr params \<Rightarrow>
                (case parseTimeRange (qp_From params) (qp_To params) of
                   Inl e \<Rightarrow> badRequest
                 | Inr (from, to) \<Rightarrow>
                     (case (case store of None \<Rightarrow> Inr () | Some db \<Rightarrow> bind_r (GetGroup groupFails db gid) (\<lambda>g. Inr ())) of
                        Inl e \<Rightarrow> writeStoreError e
                      | Inr u \<Rightarrow>
                          (case queryFn query gid from to (qp_Limit params) (qp_Cursor params) of
                             Inl e \<Rightarrow> Failure 500
                           | Inr result \<Rightarrow> Reply 200 result)))))"

definition handleQueryTrades :: "(bool \<times> fact_db) option \<Rightarrow> bool \<Rightarrow> string \<Rightarrow> (string \<Rightarrow> string) \<Rightarrow>
  meta_db option \<Rightarrow> (Trade list \<times> string) reply" where
  "handleQueryTrades query = handleQuery (map_option (\<lambda>(fails, facts). QueryTrades fails facts) query)"

definition handleQueryKlines :: "(string \<Rightarrow> string) \<Rightarrow> (bool \<times> fact_db) option \<Rightarrow> bool \<Rightarrow> string \<Rightarrow>
  (string \<Rightarrow> string) \<Rightarrow> meta_db option \<Rightarrow> (Kline list \<times> string) reply" where
  "handleQueryKlines ck query = handleQuery (map_option (\<lambda>(fails, facts). QueryKlines ck fails facts) query)"

definition handleQuerySnapshots :: "(bool \<times> fact_db) option \<Rightarrow> bool \<Rightarrow> string \<Rightarrow> (string \<Rightarrow> string) \<Rightarrow>
  meta_db option \<Rightarrow> (OrderBookSnapshot list \<times> string) reply" where
  "handleQuerySnapshots query = handleQuery (map_option (\<lambda>(fails, facts). QuerySnapshots fails facts) query)"

subsection \<open>Routing\<close>

datatype endpoint =
    CreateGroupEp | ListGroupsEp | GetGroupEp | PauseGroupEp | ResumeGroupEp | DisableGroupEp | DeleteGroupEp
  | CreateInputEp | ListInputsEp | PauseInputEp | ResumeInputEp
  | QueryTradesEp | QueryKlinesEp | QuerySnapshotsEp

datatype seg = Lit string | Wild string

definition routes :: "(string \<times> seg list \<times> endpoint) list" where
  "routes =
     [(''POST'', [Lit ''groups''], CreateGroupEp),
      (''GET'', [Lit ''groups''], ListGroupsEp),
      (''GET'', [Lit ''groups'', Wild ''group_id''], GetGroupEp),
      (''POST'', [Lit ''groups'', Wild ''group_id'', Lit ''pause''], PauseGroupEp),
      (''POST'', [Lit ''groups'', Wild ''group_id'', Lit ''resume''], ResumeGroupEp),
      (''POST'', [Lit ''groups'', Wild ''group_id'', Lit ''disable''], DisableGroupEp),
      (''DELETE'', [Lit ''groups'', Wild ''group_id''], DeleteGroupEp),
      (''POST'', [Lit ''groups'', Wild ''group_id'', Lit ''inputs''], CreateInputEp),
      (''GET'', [Lit ''groups'', Wild ''group_id'', Lit ''inputs''], ListInputsEp),
      (''POST'', [Lit ''groups'', Wild ''group_id'', Lit ''inputs'', Wild ''stream_key'', Lit ''pause''], PauseInputEp),
      (''POST'', [Lit ''groups'', Wild ''group_id'', Lit ''inputs'', Wild ''stream_key'', Lit ''resume''], ResumeInputEp),
      (''GET'', [Lit ''markets'', Wild ''group_id'', Lit ''trades''], QueryTradesEp),
      (''GET'', [Lit ''markets'', Wild ''group_id'', Lit ''klines''], QueryKlinesEp),
      (''GET'', [Lit ''markets'', Wild ''group_id'', Lit ''orderbook'', Lit ''snapshots''], QuerySnapshotsEp)]"

text \<open>The values of the wildcards. A \<open>GET\<close> pattern also takes \<open>HEAD\<close> requests.\<close>

fun match_path :: "seg list \<Rightarrow> string list \<Rightarrow> (string \<times> string) list option" where
  "match_path [] [] = Some []"
| "match_path (Lit l # ps) (s # ss) = (if s = l then match_path ps ss else None)"
| "match_path (Wild x # ps) (s # ss) = map_option ((#) (x, s)) (match_path ps ss)"
| "match_path _ _ = None"

definition match_method :: "string \<Rightarrow> string \<Rightarrow> bool" where
  "match_method pattern m \<longleftrightarrow> m = pattern \<or> pattern = ''GET'' \<and> m = ''HEAD''"

datatype routed = NoRoute | WrongMethod | To endpoint "(string \<times> string) list"

definition Handler :: "string \<Rightarrow> string list \<Rightarrow> routed" where
  "Handler m path =
     (case filter (\<lambda>(pm, ps, ep). match_path ps path \<noteq> None) routes of
        [] \<Rightarrow> NoRoute
      | rs \<Rightarrow> (case find (\<lambda>(pm, ps, ep). match_method pm m) rs of
                 None \<Rightarrow> WrongMethod
               | Some (pm, ps, ep) \<Rightarrow> To ep (the (match_path ps path))))"

record http_request =
  rq_Method :: string
  rq_Path :: "string list"
  rq_Query :: "string \<Rightarrow> string"
  rq_Body :: bytes

datatype api_body =
    GroupBody groupResponse
  | GroupsBody "groupResponse list"
  | DeletedBody "string \<times> string"
  | InputBody inputResponse
  | InputsBody "inputResponse list"
  | InputStatusBody "string \<times> string \<times> string"
  | TradesBody "Trade list \<times> string"
  | KlinesBody "Kline list \<times> string"
  | SnapshotsBody "OrderBookSnapshot list \<times> string"

fun map_reply :: "('a \<Rightarrow> 'b) \<Rightarrow> 'a reply \<Rightarrow> 'b reply" where
  "map_reply f (Reply c x) = Reply c (f x)"
| "map_reply f (Failure c) = Failure c"

record server =
  sv_query :: "(bool \<times> fact_db) option"
  sv_collate :: "string \<Rightarrow> string"

definition PathValue :: "(string \<times> string) list \<Rightarrow> string \<Rightarrow> string" where
  "PathValue vals name = (case map_of vals name of None \<Rightarrow> [] | Some v \<Rightarrow> v)"

definition run_endpoint :: "server \<Rightarrow> api_answers \<Rightarrow> http_request \<Rightarrow> meta_db \<Rightarrow> (string \<times> string) list \<Rightarrow> endpoint \<Rightarrow>
  api_body reply \<times> meta_db" where
  "run_endpoint sv aa rq db vals ep =
     (let gid = PathValue vals ''group_id''; key = PathValue vals ''stream_key'';
          read = (\<lambda>r. (r, db)) in
      case ep of
        CreateGroupEp \<Rightarrow> map_prod (map_reply GroupBody) id (handleCreateGroup aa (rq_Body rq) db)
      | ListGroupsEp \<Rightarrow> read (map_reply GroupsBody (handleListGroups aa db))
      | GetGroupEp \<Rightarrow> read (map_reply GroupBody (handleGetGroup aa gid db))
      | PauseGroupEp \<Rightarrow> map_prod (map_reply GroupBody) id (handlePauseGroup aa gid db)
      | ResumeGroupEp \<Rightarrow> map_prod (map_reply GroupBody) id (handleResumeGroup aa gid db)
      | DisableGroupEp \<Rightarrow> map_prod (map_reply GroupBody) id (handleDisableGroup aa gid db)
      | DeleteGroupEp \<Rightarrow> map_prod (map_reply DeletedBody) id (handleDeleteGroup aa gid db)
      | CreateInputEp \<Rightarrow> map_prod (map_reply InputBody) id (handleCreateInput aa gid (rq_Body rq) db)
      | ListInputsEp \<Rightarrow> read (map_reply InputsBody (handleListInputs aa gid db))
      | PauseInputEp \<Rightarrow> map_prod (map_reply InputStatusBody) id (handlePauseInput aa gid key db)
      | ResumeInputEp \<Rightarrow> map_prod (map_reply InputStatusBody) id (handleResumeInput aa gid key db)
      | QueryTradesEp \<Rightarrow> read (map_reply TradesBody
          (handleQueryTrades (sv_query sv) (aa_groupFails aa) gid (rq_Query rq) (Some db)))
      | QueryKlinesEp \<Rightarrow> read (map_reply KlinesBody
          (handleQueryKlines (sv_collate sv) (sv_query sv) (aa_groupFails aa) gid (rq_Query rq) (Some db)))
      | QuerySnapshotsEp \<Rightarrow> read (map_reply SnapshotsBody
          (handleQuerySnapshots (sv_query sv) (aa_groupFails aa) gid (rq_Query rq) (Some db))))"

definition serve :: "server \<Rightarrow> api_answers \<Rightarrow> http_request \<Rightarrow> meta_db \<Rightarrow> api_body reply \<times> meta_db" where
  "serve sv aa rq db =
     (case Handler (rq_Method rq) (rq_Path rq) of
        NoRoute \<Rightarrow> (Failure 404, db)
      | WrongMethod \<Rightarrow> (Failure 405, db)
      | To ep vals \<Rightarrow> run_endpoint sv aa rq db vals ep)"

subsection \<open>Requests reach the tables in a storable form\<close>

definition storable :: "GroupInput \<Rightarrow> bool" where
  "storable x \<longleftrightarrow> input_check x \<and> in_int4 (gi_SchemaVersion x)"

lemma normalize_schema:
  assumes "normalizeInput gid x = Inr ni" "gi_SchemaVersion x = 0"
  shows "gi_SchemaVersion ni = 1"
proof -
  from assms(1) obtain y where y: "normalize_triple (x\<lparr>gi_GroupID := gid\<rparr>) = Inr y" "normalize_defaults gid y = Inr ni"
    by (auto simp: normalizeInput_def bind_r_Inr_iff)
  have "gi_SchemaVersion y = 0" using y(1) assms(2) by (auto simp: normalize_triple_def split: if_splits sum.splits)
  with y(2) show ?thesis by (auto simp: normalize_defaults_def split: if_splits)
qed

lemma toModel_schema: "toModel r = Inr x \<Longrightarrow> gi_SchemaVersion x = 0 \<and> gi_InputID x = []"
  using toModel_triple [of r] by (auto simp: input_of_def zero_input_def)

lemma request_storable:
  assumes "toModel r = Inr x"
  shows "\<exists>ni. normalizeInput gid x = Inr ni \<and> storable ni \<and> gi_GroupID ni = gid"
proof -
  obtain ni where ni: "normalizeInput gid x = Inr ni"
    using request_agreement [where r = r and gid = gid] assms by auto
  with normalize_schema [OF ni] toModel_schema [OF assms] normalizeInput_check [OF ni] normalizeInput_cases [OF ni]
  show ?thesis by (simp add: storable_def in_int4_def)
qed

lemma requests_storable:
  "to_models rs = Inr xs \<Longrightarrow>
   \<exists>nis. normalize_inputs gid xs = Inr nis \<and> list_all (\<lambda>ni. storable ni \<and> gi_GroupID ni = gid) nis"
proof (induction rs arbitrary: xs)
  case (Cons r rs)
  then obtain x ys where x: "toModel r = Inr x" "to_models rs = Inr ys" "xs = x # ys" by (auto simp: bind_r_Inr_iff)
  obtain ni where "normalizeInput gid x = Inr ni" "storable ni" "gi_GroupID ni = gid"
    using request_storable [OF x(1)] by blast
  moreover obtain nis where "normalize_inputs gid ys = Inr nis" "list_all (\<lambda>ni. storable ni \<and> gi_GroupID ni = gid) nis"
    using Cons.IH [OF x(2)] by blast
  ultimately show ?case by (simp add: x(3))
qed simp

lemma insertGroupInput_cases:
  assumes "storable x"
  shows "insertGroupInput now tx x \<in> {Inl ErrConflict, Inl ErrNotFound,
    Inr (tx\<lparr>md_inputs := md_inputs tx @ [x\<lparr>gi_CreatedAt := now, gi_UpdatedAt := now\<rparr>]\<rparr>)}"
    and "has_group tx (gi_GroupID x) \<Longrightarrow> insertGroupInput now tx x \<noteq> Inl ErrNotFound"
  using assms by (simp_all add: insertGroupInput_def storable_def)

lemma insert_inputs_cases:
  assumes "list_all (\<lambda>x. storable x \<and> has_group tx (gi_GroupID x)) xs"
  shows "insert_inputs TxOk i now tx xs \<in> {Inl ErrConflict,
    Inr (tx\<lparr>md_inputs := md_inputs tx @ map (\<lambda>x. x\<lparr>gi_CreatedAt := now, gi_UpdatedAt := now\<rparr>) xs\<rparr>)}"
  using assms
proof (induction xs arbitrary: tx i)
  case (Cons x xs)
  let ?tx = "tx\<lparr>md_inputs := md_inputs tx @ [x\<lparr>gi_CreatedAt := now, gi_UpdatedAt := now\<rparr>]\<rparr>"
  from Cons.prems have x: "storable x" "has_group tx (gi_GroupID x)"
    and xs: "list_all (\<lambda>x. storable x \<and> has_group ?tx (gi_GroupID x)) xs" by simp_all
  from insertGroupInput_cases(1) [OF x(1), of now tx] insertGroupInput_cases(2) [OF x(1,2), of now]
  consider "insertGroupInput now tx x = Inl ErrConflict" | "insertGroupInput now tx x = Inr ?tx" by auto
  then show ?case
  proof cases
    case 2
    with Cons.IH [OF xs, of "Suc i"] show ?thesis by auto
  qed simp
qed simp

subsection \<open>Without database faults\<close>

definition no_faults :: "api_answers \<Rightarrow> bool" where
  "no_faults aa \<longleftrightarrow> aa_tx aa = TxOk \<and> aa_stmt aa = StmtOk \<and> \<not> aa_groupFails aa \<and> \<not> aa_inputsFail aa \<and>
     \<not> aa_leaseFails aa \<and> \<not> aa_statusFails aa"

lemma GetGroup_has_group:
  "has_group db gid \<Longrightarrow> \<exists>g. GetGroup False db gid = Inr g \<and> g \<in> set (md_groups db) \<and> mg_GroupID g = gid"
  "\<not> has_group db gid \<Longrightarrow> GetGroup False db gid = Inl ErrNotFound"
  by (auto simp: GetGroup_def has_group_def list_ex_iff find_None_iff split: option.split dest!: find_Some_iff_mem)

lemma aggregate_reply_cases:
  assumes "no_faults aa"
  shows "has_group db gid \<Longrightarrow> \<exists>resp. aggregate_reply code aa db gid = Reply code resp"
    and "\<not> has_group db gid \<Longrightarrow> aggregate_reply code aa db gid = Failure 404"
  using assms GetGroup_has_group [of db gid]
  by (auto simp: aggregate_reply_def aggregateGroup_def no_faults_def ListGroupInputs_def GetGroupLease_def
      statusMap_def ListStreamRuntimeStatus_def writeStoreError_def)

text \<open>The group that \<open>CreateGroup\<close> makes of a valid request.\<close>

definition request_id :: "createGroupRequest \<Rightarrow> string" where
  "request_id req = NewGroupID (cg_Exchange req) (cg_MarketType req) (cg_Symbol req)"

definition request_group :: "createGroupRequest \<Rightarrow> GroupInput list \<Rightarrow> MarketGroup" where
  "request_group req inputs =
     \<lparr> mg_GroupID = [], mg_Exchange = cg_Exchange req, mg_MarketType = cg_MarketType req, mg_Symbol = cg_Symbol req,
       mg_BaseAsset = cg_BaseAsset req, mg_QuoteAsset = cg_QuoteAsset req, mg_DesiredStatus = cg_DesiredStatus req,
       mg_Weight = cg_Weight req, mg_Inputs = inputs, mg_CreatedAt = zero_time, mg_UpdatedAt = zero_time \<rparr>"

definition valid_request :: "createGroupRequest \<Rightarrow> bool" where
  "valid_request req \<longleftrightarrow> cg_Exchange req \<noteq> [] \<and> cg_MarketType req \<noteq> [] \<and> cg_Symbol req \<noteq> [] \<and>
     IsValidMarketType (cg_MarketType req) \<and> (cg_DesiredStatus req = [] \<or> IsValidDesiredStatus (cg_DesiredStatus req))"

definition stored_group :: "time \<Rightarrow> createGroupRequest \<Rightarrow> MarketGroup" where
  "stored_group now req = (request_group req [])
     \<lparr> mg_GroupID := request_id req, mg_DesiredStatus := or_default (cg_DesiredStatus req) DesiredStatusRunning,
       mg_Weight := (if cg_Weight req \<le> 0 then 1 else cg_Weight req), mg_CreatedAt := now, mg_UpdatedAt := now \<rparr>"

lemma handleCreateGroup_eq:
  "handleCreateGroup aa body db =
     (case decodeJSON createGroupRequest_json body of
        Inl e \<Rightarrow> (badRequest, db)
      | Inr req \<Rightarrow>
          if \<not> valid_request req then (badRequest, db)
          else (case to_models (cg_Inputs req) of
                  Inl e \<Rightarrow> (badRequest, db)
                | Inr inputs \<Rightarrow>
                    (case CreateGroup (aa_tx aa) (aa_dbNow aa) db (request_group req inputs) of
                       (Inl e, db) \<Rightarrow> (writeStoreError e, db)
                     | (Inr u, db) \<Rightarrow> (aggregate_reply 201 aa db (request_id req), db))))"
  unfolding handleCreateGroup_def valid_request_def request_group_def request_id_def Let_def
  by (cases "decodeJSON createGroupRequest_json body") simp_all

lemma normalizeGroup_request:
  assumes "valid_request req" "normalize_inputs (request_id req) inputs = Inr nis"
  shows "normalizeGroup (request_group req inputs) = Inr ((stored_group zero_time req)\<lparr>mg_Inputs := nis\<rparr>)"
  using assms
  by (auto simp: normalizeGroup_def request_group_def stored_group_def valid_request_def request_id_def
      or_default_def Let_def)

lemma insert_group_request:
  assumes "valid_request req"
  shows "insert_group now db ((stored_group t req)\<lparr>mg_Inputs := nis\<rparr>) =
    (if 2147483647 < cg_Weight req then Inl MetaDatabaseError
     else if list_ex (\<lambda>x. mg_GroupID x = request_id req \<or> (mg_Exchange x = cg_Exchange req \<and>
       mg_MarketType x = cg_MarketType req \<and> mg_Symbol x = cg_Symbol req)) (md_groups db) then Inl ErrConflict
     else Inr (db\<lparr>md_groups := md_groups db @ [stored_group now req]\<rparr>))"
  using assms
  by (auto simp: insert_group_def stored_group_def request_group_def group_check_def valid_request_def in_int4_def
      or_default_def)

definition stamped :: "time \<Rightarrow> GroupInput list \<Rightarrow> GroupInput list" where
  "stamped now = map (\<lambda>x. x\<lparr>gi_CreatedAt := now, gi_UpdatedAt := now\<rparr>)"

lemma CreateGroup_commit:
  assumes "valid_request req" "normalize_inputs (request_id req) inputs = Inr nis"
  shows "CreateGroup TxOk now db (request_group req inputs) = commit_meta TxOk db
    (bind_r (insert_group now db ((stored_group zero_time req)\<lparr>mg_Inputs := nis\<rparr>)) (\<lambda>tx. insert_inputs TxOk 0 now tx nis))"
  unfolding CreateGroup_def normalizeGroup_request [OF assms]
  using assms(1) by (simp add: valid_request_def request_group_def)

lemma CreateGroup_request:
  assumes "valid_request req" "normalize_inputs (request_id req) inputs = Inr nis"
    and "list_all (\<lambda>ni. storable ni \<and> gi_GroupID ni = request_id req) nis"
  shows "CreateGroup TxOk now db (request_group req inputs) \<in>
    (if 2147483647 < cg_Weight req then {(Inl MetaDatabaseError, db)}
     else {(Inl ErrConflict, db), (Inr (), db\<lparr>md_groups := md_groups db @ [stored_group now req],
       md_inputs := md_inputs db @ stamped now nis\<rparr>)})"
proof -
  let ?tx = "db\<lparr>md_groups := md_groups db @ [stored_group now req]\<rparr>"
  have "has_group ?tx (request_id req)" by (simp add: has_group_def stored_group_def)
  then have "list_all (\<lambda>x. storable x \<and> has_group ?tx (gi_GroupID x)) nis"
    using assms(3) by (auto simp: list_all_iff)
  from insert_inputs_cases [OF this, of 0 now] show ?thesis
    unfolding CreateGroup_commit [OF assms(1,2)] insert_group_request [OF assms(1)] stamped_def
    by (auto simp: commit_meta_def)
qed

text \<open>An answer that is no internal error, and that comes with unchanged tables when it refuses the request.\<close>

definition clean :: "meta_db \<Rightarrow> 'a reply \<times> meta_db \<Rightarrow> bool" where
  "clean db a \<longleftrightarrow> reply_code (fst a) \<in> {200, 201, 400, 404, 405, 409} \<and>
     (400 \<le> reply_code (fst a) \<longrightarrow> snd a = db)"

definition huge_weight :: "bytes \<Rightarrow> bool" where
  "huge_weight body =
     (case decodeJSON createGroupRequest_json body of Inl e \<Rightarrow> False | Inr req \<Rightarrow> 2147483647 < cg_Weight req)"

lemma reply_code_map [simp]: "reply_code (map_reply f r) = reply_code r"
  by (cases r) simp_all

lemma clean_map [simp]: "clean db (map_prod (map_reply f) id a) \<longleftrightarrow> clean db a"
  by (cases a) (simp add: clean_def)

lemma clean_map_read [simp]: "clean db (map_reply f r, db) \<longleftrightarrow> clean db (r, db)"
  by (simp add: clean_def)

lemma cleanI:
  "clean db (badRequest, db)" "clean db (Failure 404, db)" "clean db (Failure 405, db)"
  "clean db (Reply 200 x, db')" "clean db (Reply 201 y, db')"
  "clean db (writeStoreError ErrConflict, db)" "clean db (writeStoreError ErrNotFound, db)" "clean db (Failure 409, db)"
  by (simp_all add: clean_def badRequest_def writeStoreError_def)

lemma clean_aggregate:
  assumes "no_faults aa" "code = 200 \<or> code = 201" "has_group db' gid"
  shows "clean db (aggregate_reply code aa db' gid, db')"
  using aggregate_reply_cases(1) [OF assms(1,3), of code] assms(2) cleanI(4,5) by metis

lemma clean_read:
  assumes "no_faults aa"
  shows "clean db (handleListGroups aa db, db)" "clean db (handleGetGroup aa gid db, db)"
    "clean db (handleListInputs aa gid db, db)"
proof -
  show "clean db (handleListGroups aa db, db)"
    using assms by (simp add: handleListGroups_def ListGroups_def no_faults_def clean_def)
  show "clean db (handleGetGroup aa gid db, db)"
    using aggregate_reply_cases [OF assms, of db gid 200] clean_aggregate [OF assms, of 200 db gid db] cleanI(2)
    by (cases "has_group db gid") (simp_all add: handleGetGroup_def)
  show "clean db (handleListInputs aa gid db, db)"
    using assms GetGroup_has_group [of db gid]
    by (cases "has_group db gid")
       (auto simp: handleListInputs_def no_faults_def ListGroupInputs_def statusMap_def ListStreamRuntimeStatus_def cleanI)
qed

lemma clean_group_status:
  assumes "no_faults aa"
  shows "IsValidDesiredStatus status \<Longrightarrow> clean db (setGroupStatus status aa gid db)"
    and "clean db (handleDeleteGroup aa gid db)"
proof -
  have "has_group (db\<lparr>md_groups := map (\<lambda>g. if mg_GroupID g = gid
      then g\<lparr>mg_DesiredStatus := status, mg_UpdatedAt := now\<rparr> else g) (md_groups db)\<rparr>) gid" if "has_group db gid" for now
    using that by (auto simp: has_group_iff comp_def image_iff)
  with assms clean_aggregate [OF assms, of 200] show "clean db (setGroupStatus status aa gid db)" if "IsValidDesiredStatus status"
    using that by (simp add: setGroupStatus_def UpdateGroupDesiredStatus_def run_stmt_def no_faults_def cleanI)
  show "clean db (handleDeleteGroup aa gid db)"
    using assms by (simp add: handleDeleteGroup_def DeleteGroup_def run_stmt_def no_faults_def cleanI Let_def)
qed

lemma clean_input_status:
  "no_faults aa \<Longrightarrow> IsValidDesiredStatus status \<Longrightarrow> clean db (setInputStatus status aa gid key db)"
  by (simp add: setInputStatus_def UpdateInputDesiredStatus_def run_stmt_def no_faults_def cleanI)

lemma clean_create_input:
  assumes "no_faults aa"
  shows "clean db (handleCreateInput aa gid body db)"
proof (cases "bind_r (decodeJSON inputRequest_json body) toModel")
  case (Inr x)
  then obtain r where "toModel r = Inr x" by (auto simp: bind_r_Inr_iff)
  from request_storable [OF this] obtain ni
    where ni: "normalizeInput gid x = Inr ni" "storable ni" by blast
  let ?tx = "db\<lparr>md_inputs := md_inputs db @ [ni\<lparr>gi_CreatedAt := aa_dbNow aa, gi_UpdatedAt := aa_dbNow aa\<rparr>]\<rparr>"
  have "AddInputs TxOk (aa_dbNow aa) db gid [x] \<in> {(Inl ErrConflict, db), (Inl ErrNotFound, db), (Inr (), ?tx)}"
    using insertGroupInput_cases(1) [OF ni(2), of "aa_dbNow aa" db] by (auto simp: AddInputs_def ni(1) commit_meta_def)
  with assms Inr show ?thesis
    by (auto simp: handleCreateInput_def no_faults_def ListGroupInputs_def cleanI)
qed (simp add: handleCreateInput_def cleanI)

lemma clean_create_group:
  assumes "no_faults aa"
  shows "clean db (handleCreateGroup aa body db) \<or> huge_weight body \<and> handleCreateGroup aa body db = (Failure 500, db)"
proof (cases "decodeJSON createGroupRequest_json body")
  case (Inr req)
  show ?thesis
  proof (cases "valid_request req \<and> (\<exists>inputs. to_models (cg_Inputs req) = Inr inputs)")
    case True
    then obtain inputs where req: "valid_request req" "to_models (cg_Inputs req) = Inr inputs" by blast
    obtain nis where nis: "normalize_inputs (request_id req) inputs = Inr nis"
      "list_all (\<lambda>ni. storable ni \<and> gi_GroupID ni = request_id req) nis"
      using requests_storable [OF req(2)] by blast
    let ?db = "db\<lparr>md_groups := md_groups db @ [stored_group (aa_dbNow aa) req], md_inputs := md_inputs db @ stamped (aa_dbNow aa) nis\<rparr>"
    have "clean db (aggregate_reply 201 aa ?db (request_id req), ?db)"
      by (rule clean_aggregate [OF assms]) (simp_all add: has_group_def stored_group_def)
    with CreateGroup_request [OF req(1) nis, of "aa_dbNow aa" db] assms show ?thesis
      unfolding handleCreateGroup_eq Inr by (auto simp: req huge_weight_def Inr cleanI no_faults_def writeStoreError_def split: if_splits)
  next
    case False
    then show ?thesis unfolding handleCreateGroup_eq Inr by (auto simp: cleanI split: sum.split)
  qed
qed (simp add: handleCreateGroup_def cleanI)

subsection \<open>The whole server\<close>

lemma Handler_route:
  assumes "Handler m path = To ep vals"
  shows "\<exists>pm ps. (pm, ps, ep) \<in> set routes \<and> match_method pm m \<and> match_path ps path = Some vals"
proof -
  let ?rs = "filter (\<lambda>(pm, ps, ep). match_path ps path \<noteq> None) routes"
  from assms obtain pm ps where f: "find (\<lambda>(pm, ps, ep). match_method pm m) ?rs = Some (pm, ps, ep)"
    and v: "vals = the (match_path ps path)"
    unfolding Handler_def by (auto split: list.splits option.splits prod.splits)
  from find_Some_iff_mem [OF f] v show ?thesis by auto
qed

definition is_query :: "endpoint \<Rightarrow> bool" where
  "is_query ep \<longleftrightarrow> ep \<in> {QueryTradesEp, QueryKlinesEp, QuerySnapshotsEp}"

lemma query_routes: "(pm, ps, ep) \<in> set routes \<Longrightarrow> is_query ep \<Longrightarrow> hd ps = Lit ''markets'' \<and> ps \<noteq> []"
  by (auto simp: routes_def is_query_def)

lemma query_path:
  assumes "Handler m path = To ep vals" "is_query ep"
  shows "path \<noteq> [] \<and> hd path = ''markets''"
proof -
  obtain pm ps where r: "(pm, ps, ep) \<in> set routes" "match_path ps path = Some vals" using Handler_route [OF assms(1)] by blast
  with query_routes [OF r(1) assms(2)] obtain qs where "ps = Lit ''markets'' # qs" by (cases ps) auto
  with r(2) show ?thesis by (cases path) (auto split: if_splits)
qed

lemma valid_statuses: "IsValidDesiredStatus DesiredStatusPaused" "IsValidDesiredStatus DesiredStatusDisabled"
  by (simp_all add: IsValidDesiredStatus_def DesiredStatuses_def)

lemma endpoint_clean:
  assumes "no_faults aa" "\<not> is_query ep"
  shows "clean db (run_endpoint sv aa rq db vals ep) \<or>
    huge_weight (rq_Body rq) \<and> run_endpoint sv aa rq db vals ep = (Failure 500, db)"
proof (cases ep)
  case CreateGroupEp
  with clean_create_group [OF assms(1), of db "rq_Body rq"] show ?thesis by (auto simp: run_endpoint_def)
qed (use assms in \<open>simp_all add: run_endpoint_def is_query_def clean_read clean_group_status clean_input_status
      clean_create_input handlePauseGroup_def handleResumeGroup_def handleDisableGroup_def handlePauseInput_def
      handleResumeInput_def valid_statuses\<close>)

subsection \<open>Reading back a created group\<close>

lemma find_append: "find P (xs @ ys) = (case find P xs of None \<Rightarrow> find P ys | Some x \<Rightarrow> Some x)"
  by (induction xs) auto

lemma statusMap_other:
  "k \<notin> ss_InputID ` set sts \<Longrightarrow> map_of m k = None \<Longrightarrow>
   map_of (foldl (\<lambda>m st. AList.update (ss_InputID st) st m) m sts) k = None"
  by (induction sts arbitrary: m) auto

text \<open>The tables after a successful creation, and what their invariant says of the new rows.\<close>

definition with_group :: "time \<Rightarrow> createGroupRequest \<Rightarrow> GroupInput list \<Rightarrow> meta_db \<Rightarrow> meta_db" where
  "with_group now req nis db = db\<lparr>md_groups := md_groups db @ [stored_group now req],
     md_inputs := md_inputs db @ stamped now nis\<rparr>"

lemma stored_group_id [simp]: "mg_GroupID (stored_group now req) = request_id req"
  by (simp add: stored_group_def)

lemma new_group_fresh:
  assumes "meta_inv db" "meta_inv (with_group now req nis db)"
  shows "\<not> has_group db (request_id req)" "md_leases db (request_id req) = None"
    "filter (\<lambda>x. gi_GroupID x = request_id req) (md_inputs db) = []"
    "x \<in> set nis \<Longrightarrow> gi_InputID x \<notin> fst ` set (md_status db)"
proof -
  from assms(2) have "distinct (map mg_GroupID (md_groups db @ [stored_group now req]))"
    by (simp add: meta_inv_def with_group_def groups_ok_def)
  then show no: "\<not> has_group db (request_id req)" by (auto simp: has_group_iff)
  then show "md_leases db (request_id req) = None"
    using assms(1) by (cases "md_leases db (request_id req)") (auto simp: meta_inv_def)
  show "filter (\<lambda>x. gi_GroupID x = request_id req) (md_inputs db) = []"
    using assms(1) no by (auto simp: meta_inv_def filter_empty_conv list_all_iff)
  assume x: "x \<in> set nis"
  have "distinct (map gi_InputID (md_inputs db @ stamped now nis))"
    using assms(2) by (simp add: meta_inv_def with_group_def inputs_ok_def)
  moreover have "gi_InputID x \<in> set (map gi_InputID (stamped now nis))" using x by (force simp: stamped_def)
  ultimately have "gi_InputID x \<notin> gi_InputID ` set (md_inputs db)" by auto
  with assms(1) show "gi_InputID x \<notin> fst ` set (md_status db)" by (fastforce simp: meta_inv_def list_all_iff)
qed

definition created_response :: "time \<Rightarrow> createGroupRequest \<Rightarrow> GroupInput list \<Rightarrow> groupResponse" where
  "created_response now req nis = (newGroupSummary (stored_group now req))
     \<lparr>gr_Inputs := map (\<lambda>x. newInputResponse x None) (sort_key gi_StreamKey (stamped now nis))\<rparr>"

lemma aggregate_new_group:
  assumes "no_faults aa" "meta_inv db" "meta_inv (with_group now req nis db)"
    and "list_all (\<lambda>ni. gi_GroupID ni = request_id req) nis"
  shows "aggregate_reply code aa (with_group now req nis db) (request_id req) = Reply code (created_response now req nis)"
proof -
  let ?db = "with_group now req nis db" and ?gid = "request_id req"
  note fresh = new_group_fresh [OF assms(2,3)]
  have ids: "gi_GroupID x = ?gid" if "x \<in> set (stamped now nis)" for x
    using that assms(4) by (auto simp: stamped_def list_all_iff)
  have g: "GetGroup False ?db ?gid = Inr (stored_group now req)"
  proof -
    have "find (\<lambda>g. mg_GroupID g = ?gid) (md_groups db) = None"
      using fresh(1) by (force simp: find_None_iff has_group_iff)
    then have "find (\<lambda>g. mg_GroupID g = ?gid) (md_groups db @ [stored_group now req]) = Some (stored_group now req)"
      by (simp add: find_append)
    then show ?thesis by (simp add: GetGroup_def with_group_def)
  qed
  have i: "ListGroupInputs False ?db ?gid = Inr (sort_key gi_StreamKey (stamped now nis))"
    using fresh(3) ids by (simp add: ListGroupInputs_def with_group_def)
  have l: "GetGroupLease False ?db ?gid = Inr None" using fresh(2) by (simp add: GetGroupLease_def with_group_def)
  obtain sts where sts: "ListStreamRuntimeStatus False ?db ?gid = Inr sts" "set sts \<subseteq> snd ` set (md_status db)"
    by (auto simp: ListStreamRuntimeStatus_def with_group_def)
  have "gi_InputID x \<notin> ss_InputID ` set sts" if x: "x \<in> set (stamped now nis)" for x
  proof -
    obtain y where "y \<in> set nis" "gi_InputID x = gi_InputID y" using x by (auto simp: stamped_def)
    then have "gi_InputID x \<notin> fst ` set (md_status db)" using fresh(4) by simp
    moreover have "ss_InputID s \<in> fst ` set (md_status db)" if "s \<in> set sts" for s
    proof -
      from that sts(2) obtain i where "(i, s) \<in> set (md_status db)" by force
      with assms(2) show ?thesis unfolding meta_inv_def list_all_iff by force
    qed
    ultimately show ?thesis by auto
  qed
  then have "map (\<lambda>x. newInputResponse x (lookupStatus (foldl (\<lambda>m st. AList.update (ss_InputID st) st m) [] sts) (gi_InputID x)))
      (sort_key gi_StreamKey (stamped now nis)) = map (\<lambda>x. newInputResponse x None) (sort_key gi_StreamKey (stamped now nis))"
    by (intro map_cong) (simp_all add: lookupStatus_def statusMap_other)
  then show ?thesis
    using assms(1) g i l sts(1)
    by (simp add: aggregate_reply_def aggregateGroup_def statusMap_def no_faults_def newLeaseResponse_def created_response_def newGroupSummary_def)
qed

text \<open>What the store keeps of an input request.\<close>

lemma request_kept:
  assumes "toModel r = Inr x" "normalizeInput gid x = Inr ni"
  shows "gi_StreamKey ni = gi_StreamKey x \<and> gi_KafkaTopic ni = gi_KafkaTopic x"
proof -
  from toModel_triple [of r] assms(1) obtain k d i where x: "x = input_of r k d i" "store_triple k d i = Inr (k, d, i)" by auto
  with assms(2) have "normalize_defaults gid ((input_of r k d i)\<lparr>gi_GroupID := gid\<rparr>) = Inr ni" by (simp add: normalize_request)
  then show ?thesis by (auto simp: normalize_defaults_def x(1) split: if_splits)
qed

lemma requests_kept:
  "to_models rs = Inr xs \<Longrightarrow> normalize_inputs gid xs = Inr nis \<Longrightarrow>
   map (\<lambda>x. (gi_StreamKey x, gi_KafkaTopic x)) nis = map (\<lambda>x. (gi_StreamKey x, gi_KafkaTopic x)) xs"
  by (induction rs arbitrary: xs nis) (auto simp: bind_r_Inr_iff request_kept)

lemma created_response_inputs:
  "mset (map (\<lambda>i. (ip_StreamKey i, ip_KafkaTopic i)) (gr_Inputs (created_response now req nis))) =
     mset (map (\<lambda>x. (gi_StreamKey x, gi_KafkaTopic x)) nis)"
  "i \<in> set (gr_Inputs (created_response now req nis)) \<Longrightarrow> map_option rr_ActualStatus (ip_Runtime i) = Some ActualStatusPending"
  by (auto simp: created_response_def newInputResponse_def stamped_def multiset.map_comp comp_def)

lemma created_reply:
  assumes "meta_inv db" "no_faults aa" "handleCreateGroup aa body db = (Reply 201 resp, db')"
  obtains req xs nis where "decodeJSON createGroupRequest_json body = Inr req" "to_models (cg_Inputs req) = Inr xs"
    "normalize_inputs (request_id req) xs = Inr nis" "list_all (\<lambda>ni. gi_GroupID ni = request_id req) nis"
    "db' = with_group (aa_dbNow aa) req nis db" "meta_inv db'" "resp = created_response (aa_dbNow aa) req nis"
proof -
  from assms(3) obtain req where req: "decodeJSON createGroupRequest_json body = Inr req"
    by (auto simp: handleCreateGroup_eq badRequest_def split: sum.splits)
  with assms(3) obtain xs where xs: "valid_request req" "to_models (cg_Inputs req) = Inr xs"
    by (auto simp: handleCreateGroup_eq badRequest_def split: sum.splits if_splits)
  obtain nis where nis: "normalize_inputs (request_id req) xs = Inr nis"
    "list_all (\<lambda>ni. storable ni \<and> gi_GroupID ni = request_id req) nis" using requests_storable [OF xs(2)] by blast
  have tx: "aa_tx aa = TxOk" using assms(2) by (simp add: no_faults_def)
  let ?c = "CreateGroup TxOk (aa_dbNow aa) db (request_group req xs)"
  have inv: "meta_inv (snd ?c)" by (rule CreateGroup_inv [OF assms(1)])
  have c: "?c = (Inr (), db')" "db' = with_group (aa_dbNow aa) req nis db"
    using CreateGroup_request [OF xs(1) nis, of "aa_dbNow aa" db] assms(3)
    by (auto simp: handleCreateGroup_eq req xs tx writeStoreError_def with_group_def split: if_splits)
  have ids: "list_all (\<lambda>ni. gi_GroupID ni = request_id req) nis" using nis(2) by (simp add: list_all_iff)
  have db': "meta_inv db'" using inv c(1) by simp
  have "resp = created_response (aa_dbNow aa) req nis"
    using assms(3) c aggregate_new_group [OF assms(2,1) db' [unfolded c(2)] ids, of 201]
    by (simp add: handleCreateGroup_eq req xs tx)
  with c(2) db' ids that [OF req xs(2) nis(1)] show thesis by blast
qed

text \<open>
  C18. A group that was created can be read back: the reply to the creation names the identifier derived from
  exchange, market type and symbol, shows no lease and every requested input, with its topic, as pending,
  and a read of that identifier afterwards gives the same answer.
\<close>

theorem created_group_is_read_back:
  assumes "meta_inv db" "no_faults aa" "no_faults bb"
    and "handleCreateGroup aa body db = (Reply 201 resp, db')"
  shows "\<exists>req xs. decodeJSON createGroupRequest_json body = Inr req \<and> to_models (cg_Inputs req) = Inr xs \<and>
    gr_GroupID resp = NewGroupID (cg_Exchange req) (cg_MarketType req) (cg_Symbol req) \<and>
    gr_Exchange resp = cg_Exchange req \<and> gr_MarketType resp = cg_MarketType req \<and> gr_Symbol resp = cg_Symbol req \<and>
    gr_Lease resp = None \<and>
    mset (map (\<lambda>i. (ip_StreamKey i, ip_KafkaTopic i)) (gr_Inputs resp)) =
      mset (map (\<lambda>x. (gi_StreamKey x, gi_KafkaTopic x)) xs) \<and>
    list_all (\<lambda>i. map_option rr_ActualStatus (ip_Runtime i) = Some ActualStatusPending) (gr_Inputs resp) \<and>
    handleGetGroup bb (gr_GroupID resp) db' = Reply 200 resp"
proof -
  obtain req xs nis where c: "decodeJSON createGroupRequest_json body = Inr req" "to_models (cg_Inputs req) = Inr xs"
    "normalize_inputs (request_id req) xs = Inr nis" "list_all (\<lambda>ni. gi_GroupID ni = request_id req) nis"
    "db' = with_group (aa_dbNow aa) req nis db" "meta_inv db'" "resp = created_response (aa_dbNow aa) req nis"
    by (rule created_reply [OF assms(1,2,4)])
  let ?resp = "created_response (aa_dbNow aa) req nis"
  note agg = aggregate_new_group [OF _ assms(1) c(6) [unfolded c(5)] c(4)]
  have "handleGetGroup bb (request_id req) db' = Reply 200 ?resp"
    using agg [OF assms(3), of 200] by (simp add: handleGetGroup_def c(5))
  moreover have "gr_GroupID ?resp = request_id req" "gr_Exchange ?resp = cg_Exchange req"
    "gr_MarketType ?resp = cg_MarketType req" "gr_Symbol ?resp = cg_Symbol req" "gr_Lease ?resp = None"
    by (simp_all add: created_response_def newGroupSummary_def stored_group_def request_group_def)
  ultimately show ?thesis
    using c(1,2,7) created_response_inputs [where now = "aa_dbNow aa" and req = req and nis = nis] arg_cong [OF requests_kept [OF c(2,3)], of mset]
    by (intro exI [of _ req] exI [of _ xs]) (simp add: request_id_def list_all_iff)
qed



text \<open>A malformed cursor is the client's mistake, yet the query reports it like a failed database: with 500.\<close>

lemma bad_cursor_is_internal_error:
  assumes "gid \<noteq> []" "parseQueryParams q = Inr p" "parseTimeRange (qp_From p) (qp_To p) = Inr (f, t)"
    and "has_group db gid" "qp_Cursor p \<noteq> []" "parseTradeCursor (qp_Cursor p) = Inl e"
  shows "handleQueryTrades (Some (False, facts)) False gid q (Some db) = Failure 500"
  using assms GetGroup_has_group(1) [OF assms(4)]
  by (auto simp: handleQueryTrades_def handleQuery_def queryFn_def QueryTrades_def)

subsection \<open>Witnesses\<close>

definition good_answers :: api_answers where
  "good_answers = \<lparr> aa_tx = TxOk, aa_stmt = StmtOk, aa_dbNow = 1000, aa_clock = 2000, aa_groupFails = False,
     aa_inputsFail = False, aa_leaseFails = False, aa_statusFails = False \<rparr>"

definition sample_body :: bytes where
  "sample_body = ''{\"exchange\":\"x\",\"market_type\":\"spot\",\"symbol\":\"S\",\"inputs\":[{\"stream_key\":\"trade\",\"kafka_topic\":\"t\"}]}''"

definition sample_request :: createGroupRequest where
  "sample_request = zero_createGroupRequest\<lparr> cg_Exchange := ''x'', cg_MarketType := ''spot'', cg_Symbol := ''S'',
     cg_Inputs := [zero_inputRequest\<lparr>ir_StreamKey := ''trade'', ir_KafkaTopic := ''t''\<rparr>] \<rparr>"

lemma api_names:
  "foldName ''exchange'' = ''EXCHANGE''" "foldName ''market_type'' = ''MARKET_TYPE''" "foldName ''symbol'' = ''SYMBOL''"
  "foldName ''base_asset'' = ''BASE_ASSET''" "foldName ''quote_asset'' = ''QUOTE_ASSET''" "foldName ''weight'' = ''WEIGHT''"
  "foldName ''desired_status'' = ''DESIRED_STATUS''" "foldName ''inputs'' = ''INPUTS''"
  "foldName ''stream_key'' = ''STREAM_KEY''" "foldName ''stream_kind'' = ''STREAM_KIND''" "foldName ''interval'' = ''INTERVAL''"
  "foldName ''kafka_topic'' = ''KAFKA_TOPIC''" "foldName ''kafka_group_id'' = ''KAFKA_GROUP_ID''"
  "foldName ''kafka_cluster'' = ''KAFKA_CLUSTER''"
  by (simp_all only: fold_ascii)

lemma sample_decoded: "decodeJSON createGroupRequest_json sample_body = Inr sample_request"
proof -
  have "Decode sample_body = read_value ([], WantValue) sample_body"
    by (rule Decode_short) (simp add: max_body_def sample_body_def)
  also have "\<dots> = Some (JObj [(''exchange'', JStr ''x''), (''market_type'', JStr ''spot''), (''symbol'', JStr ''S''),
      (''inputs'', JArr [JObj [(''stream_key'', JStr ''trade''), (''kafka_topic'', JStr ''t'')]])], [])" by code_simp
  finally have "Decode sample_body = \<dots>" .
  moreover have "createGroupRequest_json (JObj [(''exchange'', JStr ''x''), (''market_type'', JStr ''spot''),
      (''symbol'', JStr ''S''), (''inputs'', JArr [JObj [(''stream_key'', JStr ''trade''), (''kafka_topic'', JStr ''t'')]])]) =
      Some sample_request"
    by (simp add: createGroupRequest_json_def decode_struct_def put_group_def put_input_def inputs_json_def field_is_def
        api_names string_json_def sample_request_def zero_createGroupRequest_def zero_inputRequest_def del: foldName.simps)
  ultimately show ?thesis by (simp add: decodeJSON_def More_def)
qed

lemma sample_created:
  "\<exists>resp db'. handleCreateGroup good_answers sample_body empty_meta = (Reply 201 resp, db')"
proof -
  let ?x = "input_of (zero_inputRequest\<lparr>ir_StreamKey := ''trade'', ir_KafkaTopic := ''t''\<rparr>) ''trade'' ''trade'' []"
  have valid: "valid_request sample_request" by code_simp
  have models: "to_models (cg_Inputs sample_request) = Inr [?x]" by code_simp
  obtain nis where nis: "normalize_inputs (request_id sample_request) [?x] = Inr nis"
    "list_all (\<lambda>ni. storable ni \<and> gi_GroupID ni = request_id sample_request) nis"
    using requests_storable [OF models] by blast
  then obtain ni where ni: "nis = [ni]" by (auto simp: bind_r_Inr_iff)
  have w: "cg_Weight sample_request = 0" by code_simp
  have create: "CreateGroup TxOk 1000 empty_meta (request_group sample_request [?x]) =
      (Inr (), with_group 1000 sample_request [ni] empty_meta)"
    unfolding CreateGroup_commit [OF valid nis(1)] insert_group_request [OF valid] ni
    using nis(2) by (simp add: ni w empty_meta_def insertGroupInput_def storable_def has_group_def commit_meta_def
        with_group_def stamped_def)
  have "has_group (with_group 1000 sample_request [ni] empty_meta) (request_id sample_request)"
    by (simp add: has_group_def with_group_def)
  from aggregate_reply_cases(1) [OF _ this, of good_answers 201] create show ?thesis
    by (auto simp: handleCreateGroup_eq sample_decoded valid models good_answers_def no_faults_def)
qed

lemma empty_meta_inv: "meta_inv empty_meta"
  by (simp add: meta_inv_def empty_meta_def groups_ok_def inputs_ok_def nodes_ok_def)

theorem created_group_is_read_back_witness:
  "\<exists>resp db'. handleCreateGroup good_answers sample_body empty_meta = (Reply 201 resp, db') \<and>
     gr_GroupID resp = NewGroupID ''x'' ''spot'' ''S'' \<and>
     map ip_StreamKey (gr_Inputs resp) = [''trade''] \<and>
     handleGetGroup good_answers (gr_GroupID resp) db' = Reply 200 resp"
proof -
  have ok: "no_faults good_answers" by (simp add: no_faults_def good_answers_def)
  obtain resp db' where c: "handleCreateGroup good_answers sample_body empty_meta = (Reply 201 resp, db')"
    using sample_created by blast
  from created_group_is_read_back [OF empty_meta_inv ok ok c] obtain req xs
    where r: "decodeJSON createGroupRequest_json sample_body = Inr req" "to_models (cg_Inputs req) = Inr xs"
      "gr_GroupID resp = NewGroupID (cg_Exchange req) (cg_MarketType req) (cg_Symbol req)"
      "mset (map (\<lambda>i. (ip_StreamKey i, ip_KafkaTopic i)) (gr_Inputs resp)) = mset (map (\<lambda>x. (gi_StreamKey x, gi_KafkaTopic x)) xs)"
      "handleGetGroup good_answers (gr_GroupID resp) db' = Reply 200 resp" by auto
  from r(1) have req: "req = sample_request" by (simp add: sample_decoded)
  have "to_models (cg_Inputs sample_request) = Inr [input_of (hd (cg_Inputs sample_request)) ''trade'' ''trade'' []]" by code_simp
  with r(2,4) req have "map ip_StreamKey (gr_Inputs resp) = [''trade'']"
    by (cases "gr_Inputs resp") (auto simp: input_of_def)
  moreover have "gr_GroupID resp = NewGroupID ''x'' ''spot'' ''S''" using r(3) by (simp add: req sample_request_def)
  ultimately show ?thesis using c r(5) by (intro exI [of _ resp] exI [of _ db']) simp
qed


end
