(* ===== verification/Control_Loop.thy ===== *)
theory Control_Loop
  imports Control_Api Group_Runtime
begin

section \<open>The control loop: requests, nodes and leases together\<close>

text \<open>
  What the API writes is what the nodes read, and the leases tie the nodes together. This theory adds \<open>Run\<close> of
  \<^verbatim>\<open>node.go\<close>, the whole life of a node from its registration to its shutdown, and composes the handlers of the
  API, the scheduling passes and the shutdown.

  The lemmas show that a node never touches the leases of other nodes, that a pause or disable request takes
  effect at the next pass, that a new group is started when a node has room for it, and that a node that
  stops hands its groups over.
\<close>

subsection \<open>The life of a node\<close>

text \<open>
  The answers of the calls outside the loops, and of the first pass, which \<open>reconcileLoop\<close> makes without waiting
  for its ticker. Before that pass only heartbeats and the changes of others can happen; after it the ticks of
  both loops, the steps of the workers and the changes of others come in any order, until the context is
  canceled and \<open>Run\<close> goes on to the shutdown.
\<close>

record run_answers =
  ra_register :: stmt_fault
  ra_now :: time
  ra_first :: pass_answers
  ra_stop :: pass_answers
  ra_draining :: stmt_fault
  ra_dead :: stmt_fault

fun early_event :: "node_event \<Rightarrow> bool" where
  "early_event (HeartbeatTick f now) \<longleftrightarrow> True"
| "early_event (DatabaseChanges db) \<longleftrightarrow> True"
| "early_event ev \<longleftrightarrow> False"

fun loop_event :: "node_event \<Rightarrow> bool" where
  "loop_event (NodeStops ans f1 f2) \<longleftrightarrow> False"
| "loop_event ev \<longleftrightarrow> True"

definition run_loops :: "run_answers \<Rightarrow> node_event list \<Rightarrow> node_event list \<Rightarrow> Node \<times> meta_db \<Rightarrow> Node \<times> meta_db" where
  "run_loops ra early es s =
     foldl node_step s (filter early_event early @ Pass (ra_first ra) # filter loop_event es)"

definition Run :: "run_answers \<Rightarrow> node_event list \<Rightarrow> node_event list \<Rightarrow> Node \<Rightarrow> meta_db \<Rightarrow>
  node_error option \<times> Node \<times> meta_db" where
  "Run ra early es n db =
     (case Run_checks (ra_register ra) (ra_now ra) n db of
        (Inl e, db) \<Rightarrow> (Some e, n, db)
      | (Inr u, db) \<Rightarrow>
          (case run_loops ra early es (n, db) of
             (n, db) \<Rightarrow> (None, shutdown (ra_stop ra) (ra_draining ra) (ra_dead ra) n db)))"

subsection \<open>Leases of other nodes\<close>

text \<open>Every lease that somebody else holds afterwards was there before, unchanged.\<close>

definition spares :: "string \<Rightarrow> meta_db \<Rightarrow> meta_db \<Rightarrow> bool" where
  "spares me db db' \<longleftrightarrow> (\<forall>g l. md_leases db' g = Some l \<and> gl_NodeID l \<noteq> me \<longrightarrow> md_leases db g = Some l)"

lemma spares_refl [simp]: "spares me db db"
  by (simp add: spares_def)

lemma spares_trans: "spares me a b \<Longrightarrow> spares me b c \<Longrightarrow> spares me a c"
  by (auto simp: spares_def)

text \<open>The relation in which releases stand: leases are kept or removed.\<close>

definition shrinks :: "meta_db \<Rightarrow> meta_db \<Rightarrow> bool" where
  "shrinks db db' \<longleftrightarrow> (\<forall>g. md_leases db' g = md_leases db g \<or> md_leases db' g = None)"

lemma shrinks_refl [simp]: "shrinks db db"
  by (simp add: shrinks_def)

lemma shrinks_trans: "shrinks a b \<Longrightarrow> shrinks b c \<Longrightarrow> shrinks a c"
  unfolding shrinks_def by metis

lemma shrinks_spares: "shrinks db db' \<Longrightarrow> spares me db db'"
  unfolding shrinks_def spares_def by (metis option.distinct(1))

definition held_by :: "string \<Rightarrow> meta_db \<Rightarrow> string \<Rightarrow> bool" where
  "held_by me db gid \<longleftrightarrow> (\<exists>l. md_leases db gid = Some l \<and> gl_NodeID l = me)"

lemma shrinks_held: "shrinks db db' \<Longrightarrow> held_by me db' gid \<Longrightarrow> held_by me db gid"
  unfolding shrinks_def held_by_def by (metis option.distinct(1))

lemma releaseLease_shrinks [simp]: "shrinks db (releaseLease f n gid db)"
  by (auto simp: shrinks_def releaseLease_def ReleaseGroupLease_def run_stmt_def split: stmt_fault.split option.split)

lemma releaseLease_done: "\<not> held_by (nc_NodeID (nd_cfg n)) (releaseLease StmtOk n gid db) gid"
  by (auto simp: held_by_def releaseLease_def ReleaseGroupLease_def run_stmt_def split: option.split)

lemma foldl_shrinks: "(\<And>db x. shrinks db (f db x)) \<Longrightarrow> shrinks db (foldl f db xs)"
proof (induction xs arbitrary: db)
  case (Cons x xs)
  then show ?case using shrinks_trans [of db "f db x"] by simp
qed simp

lemma pruneDeadWorkers_shrinks: "shrinks db (snd (pruneDeadWorkers ans n db))"
  by (simp add: pruneDeadWorkers_def Let_def foldl_shrinks)

lemma stopWorker_shrinks: "shrinks (snd s) (snd (stopWorker ans s gid))"
  by (auto simp: stopWorker_def Let_def split: prod.split option.split)

lemma stopWorkers_shrinks: "shrinks (snd s) (snd (foldl (stopWorker ans) s ids))"
proof (induction ids arbitrary: s)
  case (Cons i ids)
  show ?case using shrinks_trans [OF stopWorker_shrinks Cons.IH] by simp
qed simp

lemma tryStartWorker_leases:
  assumes "tryStartWorker ans g n db = (ok, n', db')"
  shows "spares (nc_NodeID (nd_cfg n)) db db'" "gid \<noteq> mg_GroupID g \<Longrightarrow> md_leases db' gid = md_leases db gid"
  using assms
  by (auto simp: tryStartWorker_def Let_def TryAcquireGroupLease_def run_stmt_def ListGroupInputs_def spares_def
      releaseLease_def ReleaseGroupLease_def split: option.splits if_splits stmt_fault.splits)

lemma start_loop_leases:
  assumes "start_loop ans slots started weight gs n db = (n', db')"
  shows "spares (nc_NodeID (nd_cfg n)) db db' \<and>
    (gid \<notin> mg_GroupID ` set gs \<longrightarrow>
       md_leases db' gid = md_leases db gid \<and> map_of (nd_workers n') gid = map_of (nd_workers n) gid)"
  using assms
proof (induction gs arbitrary: started weight n db)
  case (Cons g gs)
  show ?case
  proof (cases "started \<ge> slots")
    case False
    show ?thesis
    proof (cases "nc_MaxWeight (nd_cfg n) > 0 \<and> weight + groupWeight g > nc_MaxWeight (nd_cfg n)")
      case True
      then have "start_loop ans slots started weight gs n db = (n', db')" using Cons.prems False by simp
      from Cons.IH [OF this] show ?thesis by simp
    next
      case light: False
      obtain ok n1 db1 where t: "tryStartWorker ans g n db = (ok, n1, db1)" by (metis prod_cases3)
      note fr = tryStartWorker_frame [OF t] and le = tryStartWorker_leases [OF t]
      obtain st wt where "start_loop ans slots st wt gs n1 db1 = (n', db')"
        using Cons.prems False light t by (cases ok) auto
      note ih = Cons.IH [OF this]
      have "map_of (nd_workers n1) gid = map_of (nd_workers n) gid" if "gid \<noteq> mg_GroupID g"
        using fr(2,3) that by (cases ok) (auto simp: update_conv')
      with ih le fr(1) show ?thesis by (auto intro: spares_trans)
    qed
  qed (use Cons.prems in simp)
qed simp

text \<open>The stages of a pass, with the tables and workers between them.\<close>

lemma reconcile_trace:
  assumes "node_ok n" "reconcileOnce ans n db = (n', db')" "\<not> pa_listFails ans"
  obtains n0 db0 n1 db1 slots weight gs ids where
    "pruneDeadWorkers ans n db = (n0, db0)" "foldl (stopWorker ans) (n0, db0) ids = (n1, db1)"
    "start_loop ans slots 0 weight gs n1 db1 = (n', db')"
    "set ids = fst ` set (nd_workers n0) - mg_GroupID ` runnable db"
    "mg_GroupID ` set gs = mg_GroupID ` runnable db - fst ` set (nd_workers n0)"
proof -
  obtain n0 db0 where p: "pruneDeadWorkers ans n db = (n0, db0)" by fastforce
  have g0: "md_groups db0 = md_groups db" using pruneDeadWorkers_groups [of ans n db] p by simp
  define groups where "groups = sort_key mg_GroupID (filter (\<lambda>g. mg_DesiredStatus g = DesiredStatusRunning) (md_groups db))"
  have groups: "ListRunnableGroups (pa_listFails ans) db0 = Inr groups" "set groups = runnable db"
    using assms(3) by (auto simp: ListRunnableGroups_def groups_def g0)
  define plan where "plan = planReconcile (map mg_GroupID groups) (runningGroupIDs n0) (nc_MaxGroups (nd_cfg n0))"
  obtain n1 db1 where st: "foldl (stopWorker ans) (n0, db0) (rp_toStop plan) = (n1, db1)" by fastforce
  have sets: "set (rp_toStop plan) = set (runningGroupIDs n0) - mg_GroupID ` set groups"
    "set (rp_toStart plan) = mg_GroupID ` set groups - set (runningGroupIDs n0)"
    by (auto simp: plan_def planReconcile_def Let_def)
  have "mg_GroupID ` set (groups_for groups (rp_toStart plan)) = set (rp_toStart plan)"
    using groups_for_candidates(1) [of "rp_toStart plan" groups] sets(2) by (metis Diff_subset set_map)
  moreover have "start_loop ans (rp_startSlots plan) 0 (rc_CurrentWeight (capacity n1)) (groups_for groups (rp_toStart plan)) n1 db1 = (n', db')"
    using assms(2) p groups(1) st by (simp add: reconcileOnce_def plan_def [symmetric] Let_def)
  moreover have "set (runningGroupIDs n0) = fst ` set (nd_workers n0)" by (simp add: runningGroupIDs_def)
  ultimately show thesis using that [OF p st] sets groups(2) by simp
qed

lemma reconcile_spares:
  assumes "reconcileOnce ans n db = (n', db')" "node_ok n"
  shows "spares (nc_NodeID (nd_cfg n)) db db'"
proof (cases "pa_listFails ans")
  case True
  with assms(1) pruneDeadWorkers_shrinks [of db ans n] show ?thesis
    by (auto simp: reconcileOnce_def ListRunnableGroups_def split: prod.splits intro: shrinks_spares)
next
  case False
  obtain n0 db0 n1 db1 slots weight gs ids where
    t: "pruneDeadWorkers ans n db = (n0, db0)" "foldl (stopWorker ans) (n0, db0) ids = (n1, db1)"
    "start_loop ans slots 0 weight gs n1 db1 = (n', db')"
    by (rule reconcile_trace [OF assms(2,1) False])
  have "shrinks db db0" "shrinks db0 db1"
    using pruneDeadWorkers_shrinks [of db ans n] stopWorkers_shrinks [of "(n0, db0)" ans ids] t(1,2) by simp_all
  moreover have "nd_cfg n1 = nd_cfg n" using pruneDeadWorkers_frame(2) [OF t(1)] stopWorkers_frame [OF t(2)] by simp
  then have "spares (nc_NodeID (nd_cfg n)) db1 db'" using start_loop_leases [OF t(3)] by simp
  ultimately show ?thesis by (blast intro: shrinks_spares shrinks_trans spares_trans)
qed

subsection \<open>Stopped groups are released\<close>

text \<open>Stops that finish in time and releases that succeed.\<close>

definition orderly :: "pass_answers \<Rightarrow> bool" where
  "orderly ans \<longleftrightarrow> (\<forall>i. pa_prune ans i = StmtOk \<and> pa_stopped ans i \<and> pa_stopRelease ans i = StmtOk)"

lemma stopWorkers_release:
  assumes "orderly ans" "foldl (stopWorker ans) (n, db) ids = (n', db')" "gid \<in> set ids" "gid \<in> fst ` set (nd_workers n)"
  shows "\<not> held_by (nc_NodeID (nd_cfg n)) db' gid"
  using assms(2-4)
proof (induction ids arbitrary: n db)
  case (Cons i ids)
  obtain n1 db1 where one: "stopWorker ans (n, db) i = (n1, db1)" by fastforce
  note fr = stopWorker_frame [OF one]
  have rest: "foldl (stopWorker ans) (n1, db1) ids = (n', db')" using Cons.prems(1) one by simp
  show ?case
  proof (cases "i = gid")
    case True
    with Cons.prems(3) obtain w where "map_of (nd_workers n) gid = Some w" by (metis map_of_eq_None_iff not_None_eq)
    with True one assms(1) have "db1 = releaseLease StmtOk n1 gid db"
      by (auto simp: stopWorker_def orderly_def Let_def simp del: map_of_eq_Some_iff)
    then have "\<not> held_by (nc_NodeID (nd_cfg n)) db1 gid" using releaseLease_done [of n1] fr(2) by simp
    then show ?thesis using stopWorkers_shrinks [of "(n1, db1)" ans ids] rest shrinks_held by force
  next
    case False
    have "gid \<in> fst ` set (nd_workers n1)" using False Cons.prems(3) by (force simp: fr(1))
    with Cons.IH [OF rest] Cons.prems(2) False fr(2) show ?thesis by simp
  qed
qed simp

lemma releases_done:
  "gid \<in> set ids \<Longrightarrow> \<not> held_by (nc_NodeID (nd_cfg n)) (foldl (\<lambda>db i. releaseLease StmtOk n i db) db ids) gid"
proof (induction ids arbitrary: db)
  case (Cons i ids)
  show ?case
  proof (cases "i = gid")
    case True
    have "shrinks (releaseLease StmtOk n i db) (foldl (\<lambda>db i. releaseLease StmtOk n i db) (releaseLease StmtOk n i db) ids)"
      by (rule foldl_shrinks) simp
    then show ?thesis using releaseLease_done [of n gid db] True shrinks_held by force
  qed (use Cons in simp)
qed simp

lemma pruned_release:
  assumes "orderly ans" "map_of (nd_workers n) gid = Some w" "terminal (wk_state w)"
  shows "\<not> held_by (nc_NodeID (nd_cfg n)) (snd (pruneDeadWorkers ans n db)) gid"
proof -
  have "(gid, w) \<in> set (nd_workers n)" using assms(2) by (rule map_of_SomeD)
  then have "gid \<in> set (map fst (filter (\<lambda>(i, w). terminal (wk_state w)) (nd_workers n)))" using assms(3) by force
  from releases_done [OF this, of n db] assms(1) show ?thesis by (simp add: pruneDeadWorkers_def orderly_def Let_def)
qed

text \<open>What a pass does to a group that is not desired, and to a running one that is.\<close>

lemma reconcile_stops:
  assumes "node_ok n" "reconcileOnce ans n db = (n', db')" "\<not> pa_listFails ans" "gid \<notin> mg_GroupID ` runnable db"
  shows "gid \<notin> set (runningGroupIDs n')"
    and "orderly ans \<Longrightarrow> gid \<in> set (runningGroupIDs n) \<Longrightarrow> \<not> held_by (nc_NodeID (nd_cfg n)) db' gid"
proof -
  obtain n0 db0 n1 db1 slots weight gs ids where
    t: "pruneDeadWorkers ans n db = (n0, db0)" "foldl (stopWorker ans) (n0, db0) ids = (n1, db1)"
    "start_loop ans slots 0 weight gs n1 db1 = (n', db')"
    "set ids = fst ` set (nd_workers n0) - mg_GroupID ` runnable db"
    "mg_GroupID ` set gs = mg_GroupID ` runnable db - fst ` set (nd_workers n0)"
    by (rule reconcile_trace [OF assms(1-3)])
  note prune = pruneDeadWorkers_frame [OF t(1)] and stop = stopWorkers_frame [OF t(2)]
  have start: "md_leases db' gid = md_leases db1 gid" "map_of (nd_workers n') gid = map_of (nd_workers n1) gid"
    using start_loop_leases [OF t(3)] t(5) assms(4) by auto
  have "gid \<notin> fst ` set (nd_workers n1)" using stop t(4) assms(4) by force
  then have "map_of (nd_workers n') gid = None" using start(2) by (metis map_of_eq_None_iff)
  then show "gid \<notin> set (runningGroupIDs n')" by (simp add: runningGroupIDs_def map_of_eq_None_iff)
  assume o: "orderly ans" and r: "gid \<in> set (runningGroupIDs n)"
  have "\<not> held_by (nc_NodeID (nd_cfg n)) db1 gid"
  proof (cases "gid \<in> fst ` set (nd_workers n0)")
    case True
    with stopWorkers_release [OF o t(2) _ True] t(4) assms(4) prune(2) show ?thesis by simp
  next
    case False
    from r obtain w where w: "(gid, w) \<in> set (nd_workers n)" by (auto simp: runningGroupIDs_def)
    then have "terminal (wk_state w)" using False prune(1) by force
    moreover have "map_of (nd_workers n) gid = Some w" using w assms(1) gomap_ok_mem_iff unfolding node_ok_def by metis
    ultimately have "\<not> held_by (nc_NodeID (nd_cfg n)) db0 gid" using pruned_release [OF o, of n gid w db] t(1) by simp
    then show ?thesis using stopWorkers_shrinks [of "(n0, db0)" ans ids] t(2) shrinks_held by force
  qed
  then show "\<not> held_by (nc_NodeID (nd_cfg n)) db' gid" using start(1) by (simp add: held_by_def)
qed

lemma reconcile_keeps:
  assumes "node_ok n" "reconcileOnce ans n db = (n', db')" "\<not> pa_listFails ans"
    and "map_of (nd_workers n) gid = Some w" "\<not> terminal (wk_state w)" "gid \<in> mg_GroupID ` runnable db"
  shows "map_of (nd_workers n') gid = Some w"
proof -
  obtain n0 db0 n1 db1 slots weight gs ids where
    t: "pruneDeadWorkers ans n db = (n0, db0)" "foldl (stopWorker ans) (n0, db0) ids = (n1, db1)"
    "start_loop ans slots 0 weight gs n1 db1 = (n', db')"
    "set ids = fst ` set (nd_workers n0) - mg_GroupID ` runnable db"
    "mg_GroupID ` set gs = mg_GroupID ` runnable db - fst ` set (nd_workers n0)"
    by (rule reconcile_trace [OF assms(1-3)])
  note prune = pruneDeadWorkers_frame(1) [OF t(1)] and stop = stopWorkers_frame [OF t(2)]
  have ok: "gomap_ok (nd_workers n)" using assms(1) by (simp add: node_ok_def)
  have mem: "(gid, w) \<in> set (nd_workers n0)" "(gid, w) \<in> set (nd_workers n1)"
    using map_of_SomeD [OF assms(4)] assms(5,6) prune stop t(4) by auto
  have "distinct (map fst (nd_workers n1))"
    using ok stop prune by (simp add: distinct_map_filter)
  then have "map_of (nd_workers n1) gid = Some w" using mem(2) by simp
  moreover have "gid \<notin> mg_GroupID ` set gs" using t(5) mem(1) by force
  ultimately show ?thesis using start_loop_leases [OF t(3), of gid] by simp
qed

subsection \<open>Requests take effect at the next pass\<close>

lemma image_updated:
  assumes "\<And>g. k (f g) = k g"
  shows "k ` {g \<in> set (map f gs). P g} = k ` {g \<in> set gs. P (f g)}"
proof -
  have "{g \<in> set (map f gs). P g} = f ` {g \<in> set gs. P (f g)}" by auto
  then show ?thesis by (simp only: image_image assms)
qed

lemma setGroupStatus_reply:
  assumes "setGroupStatus status aa gid db = (Reply 200 resp, db')"
  shows "mg_GroupID ` runnable db' =
      (if status = DesiredStatusRunning then insert gid (mg_GroupID ` runnable db) else mg_GroupID ` runnable db - {gid})"
    and "gr_GroupID resp = gid" "gr_DesiredStatus resp = status" "md_leases db' = md_leases db"
proof -
  let ?set = "\<lambda>g. if mg_GroupID g = gid then g\<lparr>mg_DesiredStatus := status, mg_UpdatedAt := aa_dbNow aa\<rparr> else g"
  have db': "db' = db\<lparr>md_groups := map ?set (md_groups db)\<rparr>" "has_group db gid"
    and agg: "aggregate_reply 200 aa db' gid = Reply 200 resp"
    using assms
    by (auto simp: setGroupStatus_def UpdateGroupDesiredStatus_def run_stmt_def writeStoreError_def
        split: stmt_fault.splits if_splits)
  then show "md_leases db' = md_leases db" by simp
  have "mg_GroupID ` runnable db' = mg_GroupID ` {g \<in> set (md_groups db). mg_DesiredStatus (?set g) = DesiredStatusRunning}"
    unfolding db'(1) by (simp add: image_updated [of mg_GroupID ?set] del: set_map)
  then show "mg_GroupID ` runnable db' =
      (if status = DesiredStatusRunning then insert gid (mg_GroupID ` runnable db) else mg_GroupID ` runnable db - {gid})"
    using db'(2) by (auto simp: has_group_iff)
  obtain g where g: "find (\<lambda>g. mg_GroupID g = gid) (md_groups db') = Some g" "gr_GroupID resp = mg_GroupID g"
    "gr_DesiredStatus resp = mg_DesiredStatus g"
    using agg by (auto simp: aggregate_reply_def aggregateGroup_def GetGroup_def newGroupSummary_def writeStoreError_def
        bind_r_Inr_iff split: sum.splits if_splits option.splits)
  from find_Some_iff_mem [OF g(1)] g(2,3) show "gr_GroupID resp = gid" "gr_DesiredStatus resp = status"
    by (auto simp: db'(1))
qed

text \<open>
  C11. A pause or disable request that is answered with success takes effect at the next scheduling pass that can
  read the groups: the node then has no worker of the group, and where it had one and the stop finished in
  time its lease is gone, so that no node is in the way when the group is resumed. Every other running group
  that is still desired keeps the worker it had.
\<close>

theorem paused_group_is_stopped:
  assumes "status \<in> {DesiredStatusPaused, DesiredStatusDisabled}" "setGroupStatus status aa gid db = (Reply 200 resp, db1)"
    and "node_ok n" "\<not> pa_listFails ans" "orderly ans" "reconcileOnce ans n db1 = (n', db2)"
  shows "gr_DesiredStatus resp = status \<and> gid \<notin> set (runningGroupIDs n') \<and>
    (gid \<in> set (runningGroupIDs n) \<longrightarrow> \<not> held_by (nc_NodeID (nd_cfg n)) db2 gid) \<and>
    (\<forall>h w. h \<noteq> gid \<and> map_of (nd_workers n) h = Some w \<and> \<not> terminal (wk_state w) \<and> h \<in> mg_GroupID ` runnable db \<longrightarrow>
       map_of (nd_workers n') h = Some w)"
proof -
  have "mg_GroupID ` runnable db1 = mg_GroupID ` runnable db - {gid}"
    using setGroupStatus_reply(1) [OF assms(2)] assms(1)
    by (auto simp: DesiredStatusPaused_def DesiredStatusDisabled_def DesiredStatusRunning_def)
  then show ?thesis
    using setGroupStatus_reply(3) [OF assms(2)] reconcile_stops [OF assms(3,6,4), of gid] reconcile_keeps [OF assms(3,6,4)] assms(5)
    by auto
qed

text \<open>
  C17. A group that was created through the API as running is started by the next pass of any node whose database
  calls succeed, unless that node is full or the weight of the group does not fit: a new group never has to
  wait for a lease.
\<close>

theorem created_group_is_started:
  assumes "meta_inv db" "no_faults aa" "handleCreateGroup aa body db = (Reply 201 resp, db1)"
    and "gr_DesiredStatus resp = DesiredStatusRunning"
    and "node_ok n" "faultless ans" "reconcileOnce ans n db1 = (n', db2)"
  shows "gr_GroupID resp \<in> set (runningGroupIDs n') \<or>
    rc_CurrentGroups (capacity n') = nc_MaxGroups (nd_cfg n) \<or>
    rc_CurrentWeight (capacity n') + gr_Weight resp > nc_MaxWeight (nd_cfg n)"
proof -
  obtain req xs nis where c: "db1 = with_group (aa_dbNow aa) req nis db" "meta_inv db1"
    "resp = created_response (aa_dbNow aa) req nis" by (rule created_reply [OF assms(1-3)])
  let ?g = "stored_group (aa_dbNow aa) req"
  have resp: "gr_GroupID resp = request_id req" "gr_DesiredStatus resp = mg_DesiredStatus ?g" "gr_Weight resp = groupWeight ?g"
    by (simp_all add: c(3) created_response_def newGroupSummary_def groupWeight_def stored_group_def)
  then have g: "?g \<in> runnable db1" using assms(4) by (simp add: c(1) with_group_def)
  have "md_leases db1 (request_id req) = None"
    using new_group_fresh(2) [OF assms(1) c(2) [unfolded c(1)]] by (simp add: c(1) with_group_def)
  then have "\<not> held_elsewhere (pa_now ans) (nc_NodeID (nd_cfg n)) db2 (request_id req)"
    using reconcile_spares [OF assms(7,5)] unfolding spares_def held_elsewhere_def by (auto split: option.split)
  with reconcile_progress [OF assms(5) c(2) assms(6,7)] g resp show ?thesis by fastforce
qed

subsection \<open>Handover at shutdown\<close>

lemma updateNodeStatus_leases [simp]: "md_leases (updateNodeStatus f now st n db) = md_leases db"
  by (auto simp: updateNodeStatus_def UpdateRuntimeNodeStatus_def run_stmt_def split: stmt_fault.split)

lemma shutdown_releases:
  assumes "orderly ans" "shutdown ans f1 f2 n db = (n', db')" "gid \<in> set (runningGroupIDs n)"
  shows "\<not> held_by (nc_NodeID (nd_cfg n)) db' gid"
proof -
  obtain n1 db1 where st: "foldl (stopWorker ans)
      (n, updateNodeStatus f1 (pa_now ans) NodeStatusDraining n db) (runningGroupIDs n) = (n1, db1)" by fastforce
  have "\<not> held_by (nc_NodeID (nd_cfg n)) db1 gid"
    by (rule stopWorkers_release [OF assms(1) st assms(3)]) (use assms(3) in \<open>simp add: runningGroupIDs_def\<close>)
  moreover have "md_leases db' = md_leases db1" using assms(2) st by (auto simp: shutdown_def Let_def)
  ultimately show ?thesis by (simp add: held_by_def)
qed

lemma shutdown_status:
  assumes "shutdown ans f1 StmtOk n db = (n', db')" "x \<in> set (md_nodes db')" "rn_NodeID x = nc_NodeID (nd_cfg n)"
  shows "rn_Status x = NodeStatusDead"
proof -
  obtain n1 db1 where st: "foldl (stopWorker ans)
      (n, updateNodeStatus f1 (pa_now ans) NodeStatusDraining n db) (runningGroupIDs n) = (n1, db1)" by fastforce
  have "db' = updateNodeStatus StmtOk (pa_now ans) NodeStatusDead n1 db1" "nd_cfg n1 = nd_cfg n"
    using assms(1) st stopWorkers_frame [OF st] by (auto simp: shutdown_def Let_def)
  moreover have "IsValidNodeStatus NodeStatusDead" by (simp add: IsValidNodeStatus_def NodeStatuses_def)
  ultimately show ?thesis using assms(2,3)
    by (auto simp: updateNodeStatus_def UpdateRuntimeNodeStatus_def run_stmt_def list_ex_iff split: if_splits)
qed

lemma run_loops_ok:
  "node_ok n \<Longrightarrow> node_ok (fst (run_loops ra early es (n, db))) \<and> nd_cfg (fst (run_loops ra early es (n, db))) = nd_cfg n"
  unfolding run_loops_def by (rule node_run.run_inv) (simp_all add: list_all_iff)

text \<open>
  C9. A node that is shut down hands its groups over. Whatever happened while it ran, when \<open>Run\<close> returns normally and
  its workers stopped in time, the node runs nothing, is recorded as dead, and every desired group it ran is
  picked up by the next fault-free pass of any other node, unless that node is full, the weight does not fit,
  or a third node was faster; nobody has to wait for a lease of the old node to expire.
\<close>

theorem node_hands_over:
  assumes "Run_checks (ra_register ra) (ra_now ra) n0 db0 = (Inr (), db00)" "run_loops ra early es (n0, db00) = (n, db)"
    and "Run ra early es n0 db0 = (None, n', db1)" "n0 = EnableConsumptionWithConfig bs c (NewNode cfg)"
    and "orderly (ra_stop ra)" "ra_dead ra = StmtOk"
    and "node_ok m" "meta_inv db1" "faultless ans" "reconcileOnce ans m db1 = (m', db2)"
    and "g \<in> runnable db1" "mg_GroupID g \<in> set (runningGroupIDs n)"
  shows "nd_workers n' = [] \<and> (\<forall>x \<in> set (md_nodes db1). rn_NodeID x = nc_NodeID cfg \<longrightarrow> rn_Status x = NodeStatusDead) \<and>
    (mg_GroupID g \<in> set (runningGroupIDs m') \<or>
     rc_CurrentGroups (capacity m') = nc_MaxGroups (nd_cfg m) \<or>
     rc_CurrentWeight (capacity m') + groupWeight g > nc_MaxWeight (nd_cfg m) \<or>
     (\<exists>l. md_leases db2 (mg_GroupID g) = Some l \<and> gl_NodeID l \<notin> {nc_NodeID cfg, nc_NodeID (nd_cfg m)}))"
proof -
  have "node_ok n0" using new_node_ok by (simp add: assms(4))
  moreover have "nc_NodeID (nd_cfg n0) = nc_NodeID cfg" by (simp add: assms(4) NewNode_def NodeConfig_withDefaults_def Let_def)
  ultimately have n: "nc_NodeID (nd_cfg n) = nc_NodeID cfg" using run_loops_ok [of n0 ra early es db00] assms(2) by simp
  have sh: "shutdown (ra_stop ra) (ra_draining ra) (ra_dead ra) n db = (n', db1)"
    using assms(1-3) by (simp add: Run_def)
  have free: "\<not> held_by (nc_NodeID cfg) db1 (mg_GroupID g)" using shutdown_releases [OF assms(5) sh assms(12)] n by simp
  have "gl_NodeID l \<notin> {nc_NodeID cfg, nc_NodeID (nd_cfg m)}"
    if "md_leases db2 (mg_GroupID g) = Some l" "gl_NodeID l \<noteq> nc_NodeID (nd_cfg m)" for l
    using that free reconcile_spares [OF assms(10,7)] unfolding spares_def held_by_def by blast
  moreover have "\<exists>l. md_leases db2 (mg_GroupID g) = Some l \<and> gl_NodeID l \<noteq> nc_NodeID (nd_cfg m)"
    if "held_elsewhere (pa_now ans) (nc_NodeID (nd_cfg m)) db2 (mg_GroupID g)"
    using that by (auto simp: held_elsewhere_def split: option.splits)
  moreover have "nd_workers n' = []" by (rule shutdown_frame(1) [OF sh])
  moreover have "\<forall>x \<in> set (md_nodes db1). rn_NodeID x = nc_NodeID cfg \<longrightarrow> rn_Status x = NodeStatusDead"
    using shutdown_status [OF sh [unfolded assms(6)]] n by simp
  ultimately show ?thesis using reconcile_progress [OF assms(7-10)] assms(11) by blast
qed

subsection \<open>Nodes keep the metadata consistent\<close>

text \<open>Every change a pass or a shutdown makes is one of the operations of the metadata store.\<close>

lemma releaseLease_meta: "meta_inv db \<Longrightarrow> meta_inv (releaseLease f n gid db)"
  using meta.step_inv [of db "OpRelease f gid (nc_NodeID (nd_cfg n))"] by (simp add: releaseLease_def)

lemma updateNodeStatus_meta: "meta_inv db \<Longrightarrow> meta_inv (updateNodeStatus f now st n db)"
  using meta.step_inv [of db "OpUpdateNodeStatus f now (nc_NodeID (nd_cfg n)) st"] by (simp add: updateNodeStatus_def)

lemma stopWorkers_meta: "meta_inv (snd s) \<Longrightarrow> meta_inv (snd (foldl (stopWorker ans) s ids))"
proof (induction ids arbitrary: s)
  case (Cons i ids)
  have "meta_inv (snd (stopWorker ans s i))"
    using Cons.prems releaseLease_meta by (auto simp: stopWorker_def Let_def split: prod.split option.split)
  then show ?case using Cons.IH by simp
qed simp

lemma tryStartWorker_meta:
  assumes "meta_inv db" "tryStartWorker ans g n db = (ok, n', db')"
  shows "meta_inv db'"
proof -
  let ?acquire = "TryAcquireGroupLease (pa_acquire ans (mg_GroupID g)) (pa_now ans) db (mg_GroupID g) (nc_NodeID (nd_cfg n))
      (nc_LeaseTTL (nd_cfg n))"
  have "meta_inv (snd ?acquire)"
    using meta.step_inv [OF assms(1), of "OpAcquire (pa_acquire ans (mg_GroupID g)) (pa_now ans) (mg_GroupID g)
        (nc_NodeID (nd_cfg n)) (nc_LeaseTTL (nd_cfg n))"] by simp
  then show ?thesis using assms(2) releaseLease_meta
    by (cases ?acquire) (auto simp: tryStartWorker_def Let_def split: sum.splits if_splits)
qed

lemma start_loop_meta: "meta_inv db \<Longrightarrow> start_loop ans slots k w gs n db = (n', db') \<Longrightarrow> meta_inv db'"
proof (induction gs arbitrary: k w n db)
  case (Cons g gs)
  obtain ok n1 db1 where t: "tryStartWorker ans g n db = (ok, n1, db1)" by (metis prod_cases3)
  have "meta_inv db1" by (rule tryStartWorker_meta [OF Cons.prems(1) t])
  with Cons t show ?case by (cases ok) (auto split: if_splits)
qed simp

lemma pruneDeadWorkers_meta: "meta_inv db \<Longrightarrow> meta_inv (snd (pruneDeadWorkers ans n db))"
proof -
  have "meta_inv db \<Longrightarrow> meta_inv (foldl (\<lambda>db gid. releaseLease (pa_prune ans gid) n gid db) db ids)" for ids
    by (induction ids arbitrary: db) (simp_all add: releaseLease_meta)
  then show "meta_inv db \<Longrightarrow> ?thesis" by (simp add: pruneDeadWorkers_def Let_def)
qed

lemma reconcile_meta:
  assumes "meta_inv db" "node_ok n" "reconcileOnce ans n db = (n', db')"
  shows "meta_inv db'"
proof (cases "pa_listFails ans")
  case True
  with assms(3) pruneDeadWorkers_meta [OF assms(1), of ans n] show ?thesis
    by (auto simp: reconcileOnce_def ListRunnableGroups_def split: prod.splits)
next
  case False
  obtain n0 db0 n1 db1 slots weight gs ids where
    t: "pruneDeadWorkers ans n db = (n0, db0)" "foldl (stopWorker ans) (n0, db0) ids = (n1, db1)"
    "start_loop ans slots 0 weight gs n1 db1 = (n', db')"
    by (rule reconcile_trace [OF assms(2,3) False])
  have "meta_inv db1"
    using pruneDeadWorkers_meta [OF assms(1), of ans n] stopWorkers_meta [of "(n0, db0)" ans ids] t(1,2) by simp
  from start_loop_meta [OF this t(3)] show ?thesis .
qed

lemma shutdown_meta: "meta_inv db \<Longrightarrow> meta_inv (snd (shutdown ans f1 f2 n db))"
  using stopWorkers_meta [of "(n, updateNodeStatus f1 (pa_now ans) NodeStatusDraining n db)" ans "runningGroupIDs n"]
  by (auto simp: shutdown_def Let_def updateNodeStatus_meta split: prod.split)

lemma tryStartWorker_groups: "tryStartWorker ans g n db = (ok, n', db') \<Longrightarrow> md_groups db' = md_groups db"
  by (auto simp: tryStartWorker_def Let_def TryAcquireGroupLease_def run_stmt_def split: sum.splits if_splits option.splits
      stmt_fault.splits)

lemma start_loop_groups: "start_loop ans slots k w gs n db = (n', db') \<Longrightarrow> md_groups db' = md_groups db"
proof (induction gs arbitrary: k w n db)
  case (Cons g gs)
  obtain ok n1 db1 where t: "tryStartWorker ans g n db = (ok, n1, db1)" by (metis prod_cases3)
  with Cons tryStartWorker_groups [OF t] show ?case by (cases ok) (auto split: if_splits)
qed simp

lemma reconcile_groups:
  assumes "node_ok n" "reconcileOnce ans n db = (n', db')" "\<not> pa_listFails ans"
  shows "md_groups db' = md_groups db"
proof -
  obtain n0 db0 n1 db1 slots weight gs ids where
    t: "pruneDeadWorkers ans n db = (n0, db0)" "foldl (stopWorker ans) (n0, db0) ids = (n1, db1)"
    "start_loop ans slots 0 weight gs n1 db1 = (n', db')"
    by (rule reconcile_trace [OF assms])
  with pruneDeadWorkers_groups [of ans n db] stopWorkers_groups [of ans "(n0, db0)" ids] start_loop_groups [OF t(3)]
  show ?thesis by simp
qed

lemma shutdown_groups: "md_groups (snd (shutdown ans f1 f2 n db)) = md_groups db"
proof -
  have up: "md_groups (updateNodeStatus f now st m d) = md_groups d" for f now st m d
    by (auto simp: updateNodeStatus_def UpdateRuntimeNodeStatus_def run_stmt_def split: stmt_fault.split)
  show ?thesis
    using stopWorkers_groups [of ans "(n, updateNodeStatus f1 (pa_now ans) NodeStatusDraining n db)" "runningGroupIDs n"]
    by (auto simp: shutdown_def Let_def up split: prod.split)
qed

subsection \<open>Witnesses\<close>

definition running_node :: Node where
  "running_node = fst (reconcileOnce (sample_answers True) (NewNode sample_cfg) sample_meta)"

lemma running_node_ok: "node_ok running_node" "runningGroupIDs running_node = [''g'']"
proof -
  obtain n db where p: "reconcileOnce (sample_answers True) (NewNode sample_cfg) sample_meta = (n, db)" by fastforce
  show "node_ok running_node" using reconcileOnce_ok [OF new_node_ok(1) p] by (simp add: running_node_def p)
  show "runningGroupIDs running_node = [''g'']" using sample_first_pass(1) [OF p] by (auto simp: running_node_def p runningGroupIDs_def)
qed

lemma sample_orderly: "orderly (sample_answers True)" "\<not> pa_listFails (sample_answers b)"
  by (simp_all add: orderly_def sample_answers_def)

theorem paused_group_is_stopped_witness:
  "\<exists>resp db1. setGroupStatus DesiredStatusPaused good_answers ''g'' sample_meta = (Reply 200 resp, db1) \<and>
     gr_DesiredStatus resp = DesiredStatusPaused \<and> ''g'' \<in> set (runningGroupIDs running_node) \<and>
     ''g'' \<notin> set (runningGroupIDs (fst (reconcileOnce (sample_answers True) running_node db1)))"
proof -
  have has: "has_group sample_meta ''g''" "IsValidDesiredStatus DesiredStatusPaused"
    by (simp_all add: has_group_def sample_meta_def empty_meta_def IsValidDesiredStatus_def DesiredStatuses_def)
  define db1 where "db1 = snd (UpdateGroupDesiredStatus StmtOk 1000 sample_meta ''g'' DesiredStatusPaused)"
  have up: "UpdateGroupDesiredStatus StmtOk 1000 sample_meta ''g'' DesiredStatusPaused = (Inr (), db1)" "has_group db1 ''g''"
    using has by (auto simp: db1_def UpdateGroupDesiredStatus_def run_stmt_def has_group_iff)
  moreover have "no_faults good_answers" by (simp add: no_faults_def good_answers_def)
  ultimately obtain resp where r: "setGroupStatus DesiredStatusPaused good_answers ''g'' sample_meta = (Reply 200 resp, db1)"
    using aggregate_reply_cases(1) [of good_answers db1 "''g''" 200] by (auto simp: setGroupStatus_def good_answers_def)
  obtain n' db2 where p: "reconcileOnce (sample_answers True) running_node db1 = (n', db2)" by fastforce
  from paused_group_is_stopped [OF _ r running_node_ok(1) sample_orderly(2,1) p] r p running_node_ok(2) show ?thesis by auto
qed

theorem created_group_is_started_witness:
  "\<exists>resp db1 n' db2. handleCreateGroup good_answers sample_body empty_meta = (Reply 201 resp, db1) \<and>
     reconcileOnce (sample_answers True) (NewNode sample_cfg) db1 = (n', db2) \<and>
     (gr_GroupID resp \<in> set (runningGroupIDs n') \<or> rc_CurrentGroups (capacity n') = 2 \<or> rc_CurrentWeight (capacity n') + gr_Weight resp > 100)"
proof -
  have ok: "no_faults good_answers" by (simp add: no_faults_def good_answers_def)
  obtain resp db1 where c: "handleCreateGroup good_answers sample_body empty_meta = (Reply 201 resp, db1)"
    using sample_created by blast
  obtain req xs nis where r: "decodeJSON createGroupRequest_json sample_body = Inr req"
    "resp = created_response (aa_dbNow good_answers) req nis" by (rule created_reply [OF empty_meta_inv ok c])
  have req: "req = sample_request" using r(1) by (simp add: sample_decoded)
  have "gr_DesiredStatus resp = DesiredStatusRunning"
    by (simp add: r(2) req sample_request_def zero_createGroupRequest_def created_response_def newGroupSummary_def
        stored_group_def or_default_def)
  moreover obtain n' db2 where p: "reconcileOnce (sample_answers True) (NewNode sample_cfg) db1 = (n', db2)" by fastforce
  moreover have "nc_MaxGroups (nd_cfg (NewNode sample_cfg)) = 2" "nc_MaxWeight (nd_cfg (NewNode sample_cfg)) = 100"
    by (simp_all add: NewNode_def NodeConfig_withDefaults_def sample_cfg_def Let_def)
  ultimately have "gr_GroupID resp \<in> set (runningGroupIDs n') \<or> rc_CurrentGroups (capacity n') = 2 \<or>
      rc_CurrentWeight (capacity n') + gr_Weight resp > 100"
    using created_group_is_started [OF empty_meta_inv ok c _ new_node_ok(1) sample_meta_ok(4) p] by simp
  with c p show ?thesis by blast
qed

definition quiet_consumption :: ConsumptionConfig where
  "quiet_consumption = (let b = \<lparr> bc_Size = 1, bc_FlushInterval = second \<rparr> in
     \<lparr> cc_StatusReportEvery = second, cc_InputReconcileEvery = second, cc_TradeBatch = b, cc_KlineBatch = b,
       cc_OrderBookDeltaBatch = b, cc_SnapshotInterval = second \<rparr>)"

definition sample_run :: run_answers where
  "sample_run = \<lparr> ra_register = StmtOk, ra_now = 0, ra_first = sample_answers True, ra_stop = sample_answers True,
     ra_draining = StmtOk, ra_dead = StmtOk \<rparr>"

abbreviation first_node :: Node where
  "first_node \<equiv> EnableConsumptionWithConfig [''k''] quiet_consumption (NewNode sample_cfg)"

abbreviation second_node :: Node where
  "second_node \<equiv> NewNode (sample_cfg\<lparr>nc_NodeID := ''b''\<rparr>)"

lemma sample_registered:
  "\<exists>db. Run_checks StmtOk 0 first_node sample_meta = (Inr (), db) \<and> meta_inv db \<and> md_groups db = md_groups sample_meta \<and>
     md_leases db = md_leases sample_meta"
proof -
  let ?reg = "register StmtOk 0 first_node sample_meta"
  have "fst ?reg = Inr ()" "md_groups (snd ?reg) = md_groups sample_meta" "md_leases (snd ?reg) = md_leases sample_meta"
    by (simp_all add: register_def RegisterRuntimeNode_def run_stmt_def IsValidNodeStatus_def NodeStatuses_def in_int4_def
        NewNode_def NodeConfig_withDefaults_def EnableConsumptionWithConfig_def sample_runtime Let_def)
  moreover have "meta_inv (snd ?reg)"
    unfolding register_def using meta.step_inv [OF sample_meta_ok(1)] by (metis meta_step.simps(6))
  moreover have "nc_NodeID (nd_cfg first_node) \<noteq> []" "nd_brokers first_node \<noteq> []"
    by (simp_all add: NewNode_def NodeConfig_withDefaults_def EnableConsumptionWithConfig_def sample_cfg_def Let_def)
  ultimately show ?thesis by (cases ?reg) (auto simp: Run_checks_def)
qed

theorem node_hands_over_witness:
  "\<exists>n' db1 m' db2. Run sample_run [] [] first_node sample_meta = (None, n', db1) \<and> nd_workers n' = [] \<and>
     reconcileOnce (sample_answers True) second_node db1 = (m', db2) \<and>
     (''g'' \<in> set (runningGroupIDs m') \<or> rc_CurrentGroups (capacity m') = 2 \<or> rc_CurrentWeight (capacity m') + 1 > 100 \<or>
      (\<exists>l. md_leases db2 ''g'' = Some l \<and> gl_NodeID l \<notin> {''a'', ''b''}))"
proof -
  let ?g = "hd (md_groups sample_meta)"
  obtain db00 where c: "Run_checks StmtOk 0 first_node sample_meta = (Inr (), db00)" "meta_inv db00"
    "md_groups db00 = md_groups sample_meta" "md_leases db00 = md_leases sample_meta" using sample_registered by blast
  obtain n db where p: "reconcileOnce (sample_answers True) first_node db00 = (n, db)" by fastforce
  have l: "run_loops sample_run [] [] (first_node, db00) = (n, db)" using p by (simp add: run_loops_def sample_run_def)
  obtain n' db1 where r: "Run sample_run [] [] first_node sample_meta = (None, n', db1)"
    "shutdown (sample_answers True) StmtOk StmtOk n db = (n', db1)"
    using c(1) l by (cases "shutdown (sample_answers True) StmtOk StmtOk n db") (simp add: Run_def sample_run_def)
  have ok: "node_ok first_node" "node_ok second_node" using new_node_ok by simp_all
  have "\<exists>w. nd_workers n = [(mg_GroupID ?g, w)]"
    by (rule first_pass(1) [OF ok(1) _ _ _ _ _ sample_meta_ok(4) p])
       (simp_all add: c(3,4) sample_runtime groupWeight_def NewNode_def NodeConfig_withDefaults_def
         EnableConsumptionWithConfig_def Let_def)
  then have g: "mg_GroupID ?g \<in> set (runningGroupIDs n)" by (auto simp: runningGroupIDs_def)
  have meta: "meta_inv db1" "md_groups db1 = md_groups sample_meta"
    using shutdown_meta [OF reconcile_meta [OF c(2) ok(1) p], of "sample_answers True" StmtOk StmtOk n] r(2) c(3)
      shutdown_groups [of "sample_answers True" StmtOk StmtOk n db] reconcile_groups [OF ok(1) p sample_orderly(2)] by simp_all
  have gr: "?g \<in> runnable db1" using sample_meta_ok(2) meta(2) by auto
  obtain m' db2 where m: "reconcileOnce (sample_answers True) second_node db1 = (m', db2)" by fastforce
  have run: "ra_register sample_run = StmtOk" "ra_now sample_run = 0" "ra_stop sample_run = sample_answers True"
    "ra_dead sample_run = StmtOk" by (simp_all add: sample_run_def)
  have "nc_NodeID sample_cfg = ''a''" "nc_NodeID (nd_cfg second_node) = ''b''" "nc_MaxGroups (nd_cfg second_node) = 2"
    "nc_MaxWeight (nd_cfg second_node) = 100" "groupWeight ?g = 1"
    by (simp_all add: NewNode_def NodeConfig_withDefaults_def sample_runtime groupWeight_def Let_def)
  with node_hands_over [OF c(1) [folded run(1,2)] l r(1) refl _ run(4) ok(2) meta(1) sample_meta_ok(4) m gr g]
  show ?thesis using r(1) m sample_orderly(1) by (auto simp: run(3) sample_meta_ok(3))
qed

end
