(* ===== verification/Row_Codecs.thy ===== *)
theory Row_Codecs
  imports Metadata_Store Query_Pages Snapshot_Feed
begin

section \<open>Between records and columns\<close>

text \<open>
  The tables of \<open>Metadata_Store\<close> and \<open>Fact_Store\<close> hold the records of the model. This theory has the layer
  below: how a record becomes the columns of its row and how a row is scanned, with \<open>NULL\<close> for empty texts
  (\<^verbatim>\<open>metadata/postgres.go\<close>) and the price levels of deltas and snapshots as JSON text (\<^verbatim>\<open>storage/postgres.go\<close>).

  The lemmas show that nothing is lost on the way, which is what lets the tables hold records.
\<close>

subsection \<open>Rows of the metadata tables\<close>

record group_columns =
  gc_group_id :: string
  gc_exchange :: string
  gc_market_type :: string
  gc_symbol :: string
  gc_base_asset :: "string option"
  gc_quote_asset :: "string option"
  gc_desired_status :: string
  gc_weight :: goint
  gc_created_at :: time
  gc_updated_at :: time

text \<open>The insert of \<open>CreateGroup\<close>; the two timestamps are defaults of the table.\<close>

definition group_columns_of :: "time \<Rightarrow> MarketGroup \<Rightarrow> group_columns" where
  "group_columns_of now g =
     \<lparr> gc_group_id = mg_GroupID g, gc_exchange = mg_Exchange g, gc_market_type = mg_MarketType g,
       gc_symbol = mg_Symbol g, gc_base_asset = nullIfEmptyText (mg_BaseAsset g),
       gc_quote_asset = nullIfEmptyText (mg_QuoteAsset g), gc_desired_status = mg_DesiredStatus g,
       gc_weight = mg_Weight g, gc_created_at = now, gc_updated_at = now \<rparr>"

definition scanGroup :: "bool \<Rightarrow> group_columns \<Rightarrow> meta_error + MarketGroup" where
  "scanGroup fails row =
     (if fails then Inl MetaDatabaseError
      else Inr \<lparr> mg_GroupID = gc_group_id row, mg_Exchange = gc_exchange row, mg_MarketType = gc_market_type row,
        mg_Symbol = gc_symbol row, mg_BaseAsset = derefString (gc_base_asset row),
        mg_QuoteAsset = derefString (gc_quote_asset row), mg_DesiredStatus = gc_desired_status row,
        mg_Weight = gc_weight row, mg_Inputs = [], mg_CreatedAt = gc_created_at row,
        mg_UpdatedAt = gc_updated_at row \<rparr>)"

record input_columns =
  ic_input_id :: string
  ic_group_id :: string
  ic_stream_key :: string
  ic_stream_kind :: string
  ic_interval :: "string option"
  ic_enabled :: bool
  ic_kafka_cluster :: string
  ic_kafka_topic :: string
  ic_kafka_group_id :: string
  ic_desired_status :: string
  ic_schema_version :: goint
  ic_created_at :: time
  ic_updated_at :: time

definition input_columns_of :: "time \<Rightarrow> GroupInput \<Rightarrow> input_columns" where
  "input_columns_of now x =
     \<lparr> ic_input_id = gi_InputID x, ic_group_id = gi_GroupID x, ic_stream_key = gi_StreamKey x,
       ic_stream_kind = gi_StreamKind x, ic_interval = nullIfEmptyText (gi_Interval x), ic_enabled = gi_Enabled x,
       ic_kafka_cluster = gi_KafkaCluster x, ic_kafka_topic = gi_KafkaTopic x, ic_kafka_group_id = gi_KafkaGroupID x,
       ic_desired_status = gi_DesiredStatus x, ic_schema_version = gi_SchemaVersion x,
       ic_created_at = now, ic_updated_at = now \<rparr>"

definition scanInput :: "bool \<Rightarrow> input_columns \<Rightarrow> meta_error + GroupInput" where
  "scanInput fails row =
     (if fails then Inl MetaDatabaseError
      else Inr \<lparr> gi_InputID = ic_input_id row, gi_GroupID = ic_group_id row, gi_StreamKey = ic_stream_key row,
        gi_StreamKind = ic_stream_kind row, gi_Interval = derefString (ic_interval row), gi_Enabled = ic_enabled row,
        gi_KafkaCluster = ic_kafka_cluster row, gi_KafkaTopic = ic_kafka_topic row,
        gi_KafkaGroupID = ic_kafka_group_id row, gi_DesiredStatus = ic_desired_status row,
        gi_SchemaVersion = ic_schema_version row, gi_CreatedAt = ic_created_at row, gi_UpdatedAt = ic_updated_at row \<rparr>)"

record status_columns =
  sc_input_id :: string
  sc_group_id :: string
  sc_stream_key :: string
  sc_node_id :: "string option"
  sc_actual_status :: string
  sc_kafka_partition :: "goint option"
  sc_kafka_lag :: "int64 option"
  sc_committed_offset :: "int64 option"
  sc_high_watermark_offset :: "int64 option"
  sc_last_event_time :: "time option"
  sc_last_processed_time :: "time option"
  sc_last_error :: "string option"
  sc_updated_at :: time

definition status_columns_of :: "time \<Rightarrow> StreamRuntimeStatus \<Rightarrow> status_columns" where
  "status_columns_of now st =
     \<lparr> sc_input_id = ss_InputID st, sc_group_id = ss_GroupID st, sc_stream_key = ss_StreamKey st,
       sc_node_id = nullIfEmptyText (ss_NodeID st),
       sc_actual_status = (if ss_ActualStatus st = [] then ActualStatusPending else ss_ActualStatus st),
       sc_kafka_partition = ss_KafkaPartition st, sc_kafka_lag = ss_KafkaLag st,
       sc_committed_offset = ss_CommittedOffset st, sc_high_watermark_offset = ss_HighWatermarkOffset st,
       sc_last_event_time = map_option pg_time (ss_LastEventTime st),
       sc_last_processed_time = map_option pg_time (ss_LastProcessedTime st),
       sc_last_error = nullIfEmptyText (ss_LastError st), sc_updated_at = now \<rparr>"

definition scanStreamStatus :: "bool \<Rightarrow> status_columns \<Rightarrow> meta_error + StreamRuntimeStatus" where
  "scanStreamStatus fails row =
     (if fails then Inl MetaDatabaseError
      else Inr \<lparr> ss_InputID = sc_input_id row, ss_GroupID = sc_group_id row, ss_StreamKey = sc_stream_key row,
        ss_NodeID = derefString (sc_node_id row), ss_ActualStatus = sc_actual_status row,
        ss_KafkaPartition = sc_kafka_partition row, ss_KafkaLag = sc_kafka_lag row,
        ss_CommittedOffset = sc_committed_offset row, ss_HighWatermarkOffset = sc_high_watermark_offset row,
        ss_LastEventTime = sc_last_event_time row, ss_LastProcessedTime = sc_last_processed_time row,
        ss_LastError = derefString (sc_last_error row), ss_UpdatedAt = sc_updated_at row \<rparr>)"

text \<open>What the metadata store adds to its tables is what a later scan of the row returns.\<close>

lemma inserted_group_scanned:
  "insert_group now db g = Inr db' \<Longrightarrow>
   \<exists>row. md_groups db' = md_groups db @ [row] \<and> scanGroup False (group_columns_of now g) = Inr row"
  by (auto simp: insert_group_def scanGroup_def group_columns_of_def split: if_splits)

lemma inserted_input_scanned:
  "insertGroupInput now db x = Inr db' \<Longrightarrow>
   \<exists>row. md_inputs db' = md_inputs db @ [row] \<and> scanInput False (input_columns_of now x) = Inr row"
  by (auto simp: insertGroupInput_def scanInput_def input_columns_of_def split: if_splits)

lemma reported_status_scanned:
  assumes "ReportStreamRuntimeStatus StmtOk now db st = (Inr (), db')"
    and "pred_option (\<lambda>t. pg_time t = t) (ss_LastEventTime st)" "pred_option (\<lambda>t. pg_time t = t) (ss_LastProcessedTime st)"
  shows "\<exists>row. map_of (md_status db') (ss_InputID st) = Some row \<and> scanStreamStatus False (status_columns_of now st) = Inr row"
proof -
  have whole: "map_option pg_time p = p" if "pred_option (\<lambda>t. pg_time t = t) p" for p using that by (cases p) auto
  show ?thesis using assms(1) whole [OF assms(2)] whole [OF assms(3)]
    by (auto simp: ReportStreamRuntimeStatus_def run_stmt_def scanStreamStatus_def status_columns_of_def Let_def
        update_conv' split: if_splits)
qed

subsection \<open>Price levels as JSON text\<close>

text \<open>
  \<open>json.Marshal\<close> of a string: quotes, backslashes and control characters are escaped, and so are the three
  characters that matter in HTML; bytes that are not UTF-8 become U+FFFD, and the two line separators of
  Unicode are escaped.
\<close>

definition backslash :: char where
  "backslash = CHR 0x5C"

definition hex_char :: "nat \<Rightarrow> char" where
  "hex_char n = char_of (if n < 10 then 48 + n else 87 + n)"

definition quote_char :: "char \<Rightarrow> string" where
  "quote_char c =
     (if c = backslash \<or> c = CHR 0x22 then [backslash, c]
      else if c = CHR 0x08 then [backslash, CHR ''b'']
      else if c = CHR 0x0C then [backslash, CHR ''f'']
      else if c = CHR 0x0A then [backslash, CHR ''n'']
      else if c = CHR 0x0D then [backslash, CHR ''r'']
      else if c = CHR 0x09 then [backslash, CHR ''t'']
      else if byte c < 32 \<or> c \<in> set ''<>&''
      then backslash # ''u00'' @ [hex_char (byte c div 16), hex_char (byte c mod 16)]
      else [c])"

function quote_body :: "string \<Rightarrow> string" where
  "quote_body [] = []"
| "quote_body (c # r) =
     (if byte c < 128 then quote_char c @ quote_body r
      else (let n = utf8_length (c # r) in
            if n = 0 then backslash # ''ufffd'' @ quote_body r
            else (if take n (c # r) = bytes_of [226, 128, 168] then backslash # ''u2028''
                  else if take n (c # r) = bytes_of [226, 128, 169] then backslash # ''u2029''
                  else take n (c # r)) @ quote_body (drop (n - 1) r)))"
  by pat_completeness auto
termination
  by (relation "measure length") auto

definition quote_string :: "string \<Rightarrow> string" where
  "quote_string s = CHR 0x22 # quote_body s @ [CHR 0x22]"

definition marshal_level :: "PriceLevel \<Rightarrow> string" where
  "marshal_level l =
     ''{'' @ quote_string ''price'' @ '':'' @ quote_string (pl_Price l) @ '','' @
     quote_string ''quantity'' @ '':'' @ quote_string (pl_Quantity l) @ ''}''"

fun comma_separated :: "string list \<Rightarrow> string" where
  "comma_separated [] = []"
| "comma_separated [x] = x"
| "comma_separated (x # y # xs) = x @ '','' @ comma_separated (y # xs)"

definition marshalLevels :: "PriceLevel list \<Rightarrow> string" where
  "marshalLevels levels = ''['' @ comma_separated (map marshal_level levels) @ '']''"

text \<open>\<open>json.Unmarshal\<close> into \<^verbatim>\<open>[]model.PriceLevel\<close>; unknown members are skipped.\<close>

definition put_PriceLevel :: "PriceLevel \<Rightarrow> string \<Rightarrow> json \<Rightarrow> PriceLevel option" where
  "put_PriceLevel m key v =
     (if field_is key ''price'' then map_option (\<lambda>x. m\<lparr>pl_Price := x\<rparr>) (string_json (pl_Price m) v)
      else if field_is key ''quantity'' then map_option (\<lambda>x. m\<lparr>pl_Quantity := x\<rparr>) (string_json (pl_Quantity m) v)
      else Some m)"

definition unmarshalLevels :: "string \<Rightarrow> PriceLevel list option" where
  "unmarshalLevels raw =
     (case parse_json raw of
        None \<Rightarrow> None
      | Some JNull \<Rightarrow> Some []
      | Some (JArr vs) \<Rightarrow> those (map (decode_struct put_PriceLevel \<lparr> pl_Price = [], pl_Quantity = [] \<rparr>) vs)
      | Some _ \<Rightarrow> None)"

text \<open>What the decoders let through as a number is ASCII text without NUL bytes.\<close>

definition ascii_char :: "char \<Rightarrow> bool" where
  "ascii_char c \<longleftrightarrow> 0 < byte c \<and> byte c < 128"

definition ascii_level :: "PriceLevel \<Rightarrow> bool" where
  "ascii_level l \<longleftrightarrow> list_all ascii_char (pl_Price l) \<and> list_all ascii_char (pl_Quantity l)"

lemma hex_val_char:
  assumes "n < 16"
  shows "hex_val (hex_char n) = Some n"
proof (cases "n < 10")
  case True
  then have "byte (hex_char n) = 48 + n" by (simp add: hex_char_def)
  then show ?thesis using True by (simp add: hex_val_def is_digit_def digit_val_def)
next
  case False
  then have "byte (hex_char n) = 87 + n" using assms by (simp add: hex_char_def)
  then show ?thesis using assms False by (simp add: hex_val_def is_digit_def)
qed

lemma quote_char_element:
  assumes "byte c < 128"
  obtains d e where "quote_char c = d # e" "d \<noteq> CHR 0x22" "\<forall>r. string_element d (e @ r) = Some ([c], r)"
proof -
  have "hex_val CHR ''0'' = Some 0" by code_simp
  moreover have "byte c div 16 < 16" "byte c mod 16 < 16" using assms by simp_all
  ultimately have "hex4 (CHR ''0'' # CHR ''0'' # hex_char (byte c div 16) # hex_char (byte c mod 16) # r) = Some (byte c, r)" for r
    by (simp add: hex4_def hex_val_char div_mult_mod_eq)
  then have u: "unicode_escape (CHR ''0'' # CHR ''0'' # hex_char (byte c div 16) # hex_char (byte c mod 16) # r) = Some ([c], r)" for r
    using assms by (simp add: unicode_escape_def utf8_encode_def bytes_of_def)
  show thesis
  proof (cases "length (quote_char c) = 1")
    case True
    then have "quote_char c = [c]" "c \<noteq> backslash" "c \<noteq> CHR 0x22" "\<not> byte c < 32" by (auto simp: quote_char_def split: if_splits)
    then show thesis using that [of c "[]"] assms by (simp add: string_element_def backslash_def)
  next
    case False
    then have "hd (quote_char c) = backslash" "\<forall>r. string_element backslash (tl (quote_char c) @ r) = Some ([c], r)"
      using u by (auto simp: quote_char_def string_element_def backslash_def simple_escape_def split: if_splits)
    moreover have "quote_char c \<noteq> []" by (simp add: quote_char_def)
    ultimately show thesis using that [of backslash "tl (quote_char c)"] by (cases "quote_char c") (auto simp: backslash_def)
  qed
qed

lemma scan_quoted: "list_all ascii_char s \<Longrightarrow> scan_string (quote_body s @ CHR 0x22 # r) = Some (s, r)"
proof (induction s)
  case (Cons c s)
  then have c: "byte c < 128" by (simp add: ascii_char_def)
  obtain d e where "quote_char c = d # e" "d \<noteq> CHR 0x22" "\<forall>r. string_element d (e @ r) = Some ([c], r)"
    by (rule quote_char_element [OF c])
  then show ?case using c Cons by simp
qed simp

definition level_json :: "PriceLevel \<Rightarrow> json" where
  "level_json l = JObj [(''price'', JStr (pl_Price l)), (''quantity'', JStr (pl_Quantity l))]"

definition level_tokens :: "PriceLevel \<Rightarrow> tok list" where
  "level_tokens l =
     [TOpenObj, TLit (JStr ''price''), TColon, TLit (JStr (pl_Price l)), TComma,
      TLit (JStr ''quantity''), TColon, TLit (JStr (pl_Quantity l)), TCloseObj]"

lemma lex_quoted:
  assumes "list_all ascii_char s"
  shows "lex (quote_string s @ r) = map_option ((#) (TLit (JStr s))) (lex r)"
  by (simp add: quote_string_def json_space_def next_token_def scan_quoted [OF assms])

lemma lex_punctuation:
  "lex (CHR ''{'' # r) = map_option ((#) TOpenObj) (lex r)" "lex (CHR ''}'' # r) = map_option ((#) TCloseObj) (lex r)"
  "lex (CHR ''['' # r) = map_option ((#) TOpenArr) (lex r)" "lex (CHR '']'' # r) = map_option ((#) TCloseArr) (lex r)"
  "lex (CHR '','' # r) = map_option ((#) TComma) (lex r)" "lex (CHR '':'' # r) = map_option ((#) TColon) (lex r)"
  by (simp_all add: json_space_def next_token_def)

lemma lex_level:
  assumes "ascii_level l"
  shows "lex (marshal_level l @ r) = map_option ((@) (level_tokens l)) (lex r)"
proof -
  have "list_all ascii_char ''price''" "list_all ascii_char ''quantity''" by code_simp+
  then show ?thesis using assms
    by (cases "lex r") (simp_all add: marshal_level_def ascii_level_def lex_punctuation lex_quoted level_tokens_def del: lex.simps)
qed

fun levels_tokens :: "PriceLevel list \<Rightarrow> tok list" where
  "levels_tokens [] = []"
| "levels_tokens [l] = level_tokens l"
| "levels_tokens (l # m # ls) = level_tokens l @ TComma # levels_tokens (m # ls)"

lemma lex_levels:
  "list_all ascii_level ls \<Longrightarrow>
   lex (comma_separated (map marshal_level ls) @ r) = map_option ((@) (levels_tokens ls)) (lex r)"
  by (cases "lex r"; induction ls rule: levels_tokens.induct) (simp_all add: lex_level lex_punctuation del: lex.simps)

lemma parse_level:
  "parse_tokens ([FArr vs], WantValue) (level_tokens l @ ts) = parse_tokens ([FArr vs], AfterValue (level_json l)) ts"
  "parse_tokens ([FArr vs], WantValueOrClose) (level_tokens l @ ts) = parse_tokens ([FArr vs], AfterValue (level_json l)) ts"
  by (simp_all add: level_tokens_def begin_value_def maxNestingDepth_def close_frame_def level_json_def)

lemma parse_levels:
  "parse_tokens ([FArr vs], WantValue) (levels_tokens (l # ls) @ [TCloseArr]) = Some (JArr (rev vs @ map level_json (l # ls)))"
proof (induction ls arbitrary: l vs)
  case Nil
  show ?case by (simp add: parse_level close_frame_def)
next
  case (Cons m ls)
  show ?case using Cons.IH [of "level_json l # vs" m] by (simp add: parse_level)
qed

text \<open>The text of the column is JSON for the levels.\<close>

lemma marshalLevels_json:
  assumes "list_all ascii_level ls"
  shows "parse_json (marshalLevels ls) = Some (JArr (map level_json ls))"
proof -
  have l: "lex (marshalLevels ls) = Some (TOpenArr # levels_tokens ls @ [TCloseArr])"
    using lex_levels [OF assms, of "'']''"] lex_punctuation(4) [of "[]"]
    by (simp add: marshalLevels_def lex_punctuation(3) del: lex.simps(2))
  show ?thesis
  proof (cases ls)
    case Nil
    then show ?thesis using l by (simp add: parse_json_def begin_value_def maxNestingDepth_def close_frame_def)
  next
    case (Cons a as)
    have "parse_tokens ([FArr []], WantValueOrClose) (levels_tokens (a # as) @ ts) =
        parse_tokens ([FArr []], WantValue) (levels_tokens (a # as) @ ts)" for ts
      by (cases as) (simp_all add: parse_level)
    then show ?thesis using parse_levels [of "[]" a as]
      by (simp add: parse_json_def l [unfolded Cons] Cons begin_value_def maxNestingDepth_def)
  qed
qed

text \<open>
  PostgreSQL keeps a \<^verbatim>\<open>jsonb\<close> column as a value and prints it again when it is read. It orders the members of
  an object by the length and the bytes of their keys, keeps the last of equal keys and may print a number in
  another way; strings cannot hold NUL. A value that is already in that form and holds no numbers comes back as
  it was.
\<close>

definition key_less :: "string \<Rightarrow> string \<Rightarrow> bool" where
  "key_less a b \<longleftrightarrow> length a < length b \<or> length a = length b \<and> ord_class.lexordp (map byte a) (map byte b)"

fun jsonb_form :: "json \<Rightarrow> bool" where
  "jsonb_form JNull \<longleftrightarrow> True"
| "jsonb_form (JBool b) \<longleftrightarrow> True"
| "jsonb_form (JNum n) \<longleftrightarrow> False"
| "jsonb_form (JStr s) \<longleftrightarrow> list_all ascii_char s"
| "jsonb_form (JArr vs) \<longleftrightarrow> (\<forall>v \<in> set vs. jsonb_form v)"
| "jsonb_form (JObj ms) \<longleftrightarrow> (\<forall>m \<in> set ms. list_all ascii_char (fst m) \<and> jsonb_form (snd m)) \<and>
     sorted_wrt key_less (map fst ms)"

definition jsonb_keeps :: "(string \<Rightarrow> string) \<Rightarrow> bool" where
  "jsonb_keeps jsonb \<longleftrightarrow> (\<forall>text v. parse_json text = Some v \<and> jsonb_form v \<longrightarrow> parse_json (jsonb text) = Some v)"

lemma decode_level_json: "decode_struct put_PriceLevel \<lparr> pl_Price = [], pl_Quantity = [] \<rparr> (level_json l) = Some l"
  by (simp add: decode_struct_def level_json_def put_PriceLevel_def string_json_def field_is_def fold_ascii)

lemma level_json_form: "ascii_level l \<Longrightarrow> jsonb_form (level_json l)"
proof -
  have "list_all ascii_char ''price''" "list_all ascii_char ''quantity''" by code_simp+
  then show "ascii_level l \<Longrightarrow> jsonb_form (level_json l)" by (simp add: level_json_def ascii_level_def key_less_def)
qed

text \<open>
  The price levels of a delta or snapshot come back from their column as they were written, whatever text
  the database prints for them.
\<close>

theorem levels_survive_column:
  assumes "jsonb_keeps jsonb" "list_all ascii_level ls"
  shows "unmarshalLevels (jsonb (marshalLevels ls)) = Some ls"
proof -
  have "jsonb_form (JArr (map level_json ls))" using assms(2) level_json_form by (auto simp: list_all_iff)
  then have "parse_json (jsonb (marshalLevels ls)) = Some (JArr (map level_json ls))"
    using assms(1) marshalLevels_json [OF assms(2)] by (simp add: jsonb_keeps_def)
  moreover have "those (map (decode_struct put_PriceLevel \<lparr> pl_Price = [], pl_Quantity = [] \<rparr>) (map level_json ls)) = Some ls"
    by (induction ls) (simp_all add: decode_level_json)
  ultimately show ?thesis by (simp add: unmarshalLevels_def)
qed

subsection \<open>Decoded levels\<close>

lemma digit_ascii: "is_digit c \<Longrightarrow> ascii_char c"
  by (simp add: is_digit_def ascii_char_def)

lemma decimal_ascii:
  assumes "decimalPattern s"
  shows "list_all ascii_char s"
proof -
  have "list_all ascii_char ''+-.eE''" by code_simp
  then show ?thesis using assms digit_ascii
    by (fastforce simp: decimalPattern_iff decimal_language_def sign_strings_def mantissa_strings_def digit_strings_def
        exponent_strings_def list_all_iff)
qed

definition trimmed_level :: "PriceLevel \<Rightarrow> bool" where
  "trimmed_level l \<longleftrightarrow> TrimSpace (pl_Price l) = pl_Price l \<and> TrimSpace (pl_Quantity l) = pl_Quantity l"

lemma valid_level_ascii:
  assumes "trimmed_level l" "validPositiveNumeric (pl_Price l)" "validNonNegativeNumeric (pl_Quantity l)"
  shows "ascii_level l"
  using assms decimal_ascii
  by (auto simp: ascii_level_def trimmed_level_def validPositiveNumeric_def validNonNegativeNumeric_def Let_def split: if_splits)

lemma decoded_levels_trimmed:
  assumes "priceLevels_json v = Some ls" "l \<in> set ls"
  shows "trimmed_level l"
proof -
  have one: "decodePriceLevel v = Some l \<Longrightarrow> trimmed_level l" for v l
    by (auto simp: decodePriceLevel_def trimmed_level_def split: json.splits option.splits list.splits)
  from assms obtain vs where "those (map decodePriceLevel vs) = Some ls"
    by (auto simp: priceLevels_json_def split: json.splits)
  then show ?thesis using one assms(2)
    by (induction vs arbitrary: ls) (auto split: option.splits)
qed

text \<open>An invariant of the decoders: what every member of a message keeps holds of the decoded message.\<close>

lemma decode_members_inv:
  assumes "\<And>m k v m'. P m \<Longrightarrow> put m k v = Some m' \<Longrightarrow> P m'"
  shows "P m \<Longrightarrow> decode_members put m ms = Some m' \<Longrightarrow> P m'"
proof (induction ms arbitrary: m)
  case (Cons e ms)
  obtain k v where e: "e = (k, v)" by fastforce
  with Cons.prems(2) obtain m1 where "put m k v = Some m1" "decode_members put m1 ms = Some m'"
    by (auto split: option.splits)
  then show ?case using Cons.IH assms [OF Cons.prems(1)] by blast
qed simp

lemma decode_payload_inv:
  assumes "decode_payload put zero data = Inr m" "P zero" "\<And>m k v m'. P m \<Longrightarrow> put m k v = Some m' \<Longrightarrow> P m'"
  shows "P m"
proof -
  from assms(1) obtain v where "decode_struct put zero v = Some m"
    by (auto simp: decode_payload_def bind_eq_Some_conv split: option.splits)
  then have "m = zero \<or> (\<exists>ms. decode_members put zero ms = Some m)" by (cases v) (auto simp: decode_struct_def)
  then show ?thesis using assms(2) decode_members_inv [of P put zero _ m] assms(3) by blast
qed

definition ascii_event :: "book_event \<Rightarrow> bool" where
  "ascii_event e =
     (case e of
        BookSnapshot snap \<Rightarrow> list_all ascii_level (sn_Bids snap) \<and> list_all ascii_level (sn_Asks snap)
      | BookDelta d \<Rightarrow> list_all ascii_level (ob_Bids d) \<and> list_all ascii_level (ob_Asks d))"

lemma valid_levels_ascii:
  "list_all trimmed_level ls \<Longrightarrow> validatePriceLevels side ls = None \<Longrightarrow> list_all ascii_level ls"
  by (auto simp: validatePriceLevels_None list_all_iff intro: valid_level_ascii)

lemma built_delta_ascii:
  assumes "buildOrderBookDelta input msg = Inr d"
  shows "ascii_event (BookDelta d)"
proof -
  from assms obtain dm where dm: "decode_payload put_delta zero_deltaMessage (km_Value msg) = Inr dm" "validate_delta dm = None"
    "d = toOrderBookDelta dm input msg"
    by (auto simp: buildOrderBookDelta_def decodeOrderBookDelta_def bind_r_Inr_iff split: option.splits)
  have "list_all trimmed_level (dm_Bids dm) \<and> list_all trimmed_level (dm_Asks dm)"
    by (rule decode_payload_inv [OF dm(1), where P = "\<lambda>m. list_all trimmed_level (dm_Bids m) \<and> list_all trimmed_level (dm_Asks m)"])
       (auto simp: zero_deltaMessage_def put_delta_def list_all_iff split: if_splits dest: decoded_levels_trimmed)
  with dm(2) show ?thesis
    by (auto simp: dm(3) toOrderBookDelta_def ascii_event_def validate_delta_def split: if_splits option.splits
        intro: valid_levels_ascii)
qed

lemma built_snapshot_ascii:
  assumes "buildOrderBookSnapshot input msg = Inr snap"
  shows "ascii_event (BookSnapshot snap)"
proof -
  from assms obtain sm where sm: "decode_payload put_snapshot zero_snapshotMessage (km_Value msg) = Inr sm"
    "validate_snapshot sm = None" "snap = toOrderBookSnapshot sm input"
    by (auto simp: buildOrderBookSnapshot_def decodeOrderBookSnapshot_def bind_r_Inr_iff split: option.splits)
  have "list_all trimmed_level (sm_Bids sm) \<and> list_all trimmed_level (sm_Asks sm)"
    by (rule decode_payload_inv [OF sm(1), where P = "\<lambda>m. list_all trimmed_level (sm_Bids m) \<and> list_all trimmed_level (sm_Asks m)"])
       (auto simp: zero_snapshotMessage_def put_snapshot_def list_all_iff split: if_splits dest: decoded_levels_trimmed)
  with sm(2) show ?thesis
    by (auto simp: sm(3) toOrderBookSnapshot_def ascii_event_def validate_snapshot_def split: if_splits option.splits
        intro: valid_levels_ascii)
qed

subsection \<open>The levels of the book\<close>

text \<open>The book holds texts of its messages only, so the snapshots it generates survive their columns too.\<close>

definition ascii_side :: "(string, string) gomap \<Rightarrow> bool" where
  "ascii_side m \<longleftrightarrow> list_all (\<lambda>kv. ascii_level (level_of kv)) m"

definition ascii_book :: "orderBookState \<Rightarrow> bool" where
  "ascii_book s \<longleftrightarrow> ascii_side (bs_bids s) \<and> ascii_side (bs_asks s) \<and> list_all (\<lambda>d. ascii_event (BookDelta d)) (bs_pending s)"

lemma ascii_side_update: "ascii_side m \<Longrightarrow> ascii_level l \<Longrightarrow> ascii_side (AList.update (pl_Price l) (pl_Quantity l) m)"
  by (induction m) (auto simp: ascii_side_def ascii_level_def level_of_def)

lemma ascii_side_delete: "ascii_side m \<Longrightarrow> ascii_side (AList.delete k m)"
  by (auto simp: ascii_side_def AList.delete_eq list_all_iff)

interpretation ascii_apply: stepper apply_level ascii_side ascii_level
  by unfold_locales (simp add: apply_level_def ascii_side_update ascii_side_delete)

interpretation ascii_load: stepper load_level ascii_side ascii_level
  by unfold_locales (simp add: load_level_def ascii_side_update)

lemma applyOne_ascii: "ascii_book s \<Longrightarrow> ascii_event (BookDelta d) \<Longrightarrow> ascii_book (snd (applyOne s d))"
  by (auto simp: applyOne_def ascii_book_def ascii_event_def ascii_apply.run_inv split: option.splits)

lemma drain_find_ascii:
  "ascii_book s \<Longrightarrow> list_all (\<lambda>d. ascii_event (BookDelta d)) ds \<Longrightarrow> ascii_book (snd (drain_find s ds)) \<and>
     (\<forall>rest. fst (drain_find s ds) = Inr (Some rest) \<longrightarrow> list_all (\<lambda>d. ascii_event (BookDelta d)) rest)"
  by (induction s ds rule: drain_find.induct) (auto split: prod.splits sum.splits dest: applyOne_ascii)

lemma drain_rest_ascii:
  "ascii_book s \<Longrightarrow> list_all (\<lambda>d. ascii_event (BookDelta d)) ds \<Longrightarrow> ascii_book (snd (drain_rest s ds))"
  by (induction s ds rule: drain_rest.induct) (auto split: prod.splits sum.splits dest: applyOne_ascii)

lemma drainPending_ascii:
  assumes "ascii_book s"
  shows "ascii_book (snd (drainPending s))"
  using assms drain_find_ascii [of "s\<lparr>bs_pending := []\<rparr>" "bs_pending s"] drain_rest_ascii
  by (auto simp: drainPending_def ascii_book_def Let_def split: prod.splits sum.splits option.splits)

lemma applyDelta_ascii: "ascii_book s \<Longrightarrow> ascii_event (BookDelta d) \<Longrightarrow> ascii_book (snd (applyDelta s d))"
  using drainPending_ascii [of s]
  by (auto simp: applyDelta_def applyOne_ascii split: prod.splits option.splits) (simp_all add: ascii_book_def)

lemma applySnapshot_ascii:
  assumes "ascii_book s" "ascii_event (BookSnapshot snap)"
  shows "ascii_book (snd (applySnapshot s snap))"
proof -
  let ?s = "s\<lparr> bs_bids := foldl load_level [] (sn_Bids snap), bs_asks := foldl load_level [] (sn_Asks snap),
      bs_lastUpdateID := None, bs_sequence := sn_Sequence snap, bs_inputID := sn_InputID snap, bs_ready := True \<rparr>"
  have empty: "ascii_side []" by (simp add: ascii_side_def)
  have s: "ascii_book ?s"
    using assms ascii_load.run_inv [OF empty] by (auto simp: ascii_book_def ascii_event_def)
  show ?thesis using assms(1) s drainPending_ascii [OF s]
    by (auto simp: applySnapshot_def Let_def split: prod.splits option.splits) (simp_all add: ascii_book_def)
qed

lemma book_step_ascii:
  assumes "ascii_book s" "ascii_event e"
  shows "ascii_book (book_step s e)"
proof (cases e)
  case (BookDelta d)
  moreover have "ascii_book (reset t)" for t by (simp add: reset_def ascii_book_def ascii_side_def)
  ultimately show ?thesis using assms applyDelta_ascii [of s d]
    by (auto simp del: book_step.simps simp: book_step_delta split: prod.splits sum.splits)
qed (use assms in \<open>simp add: applySnapshot_ascii\<close>)

interpretation ascii_run: stepper book_step ascii_book ascii_event
  by unfold_locales (rule book_step_ascii)

lemma generated_ascii:
  assumes "ascii_book s" "generateSnapshot s now = Some snap"
  shows "list_all ascii_level (sn_Bids snap)" "list_all ascii_level (sn_Asks snap)"
  using assms
  by (auto simp: generateSnapshot_def exportBids_def exportAsks_def exportLevels_def ascii_book_def ascii_side_def Let_def
      list_all_iff split: if_splits option.splits)

end
