(* ===== verification/Delta_Partitions.thy ===== *)
theory Delta_Partitions
  imports Metadata_Store Go_Time
begin

section \<open>Hourly partitions of the delta table: storage/partitions.go\<close>

text \<open>
  A maintenance pass creates the partitions from the current hour up to the horizon and removes those that
  ended before the retention. \<open>partition_db\<close> holds what PostgreSQL knows: the child tables by name with
  their range and whether they are attached, and the registry table. \<open>CREATE TABLE IF NOT EXISTS\<close> does
  nothing when a table of that name exists and fails when the range overlaps an attached one. Every
  statement can fail or have its answer lost (\<open>stmt_fault\<close>), given by the start or the name it is about.
  Times are rendered for years 0 to 9999, as everywhere in the development.

  The lemmas show that the partition names are unambiguous, that every pass keeps the tables consistent
  under every fault, that the creation loop ends, and what a successful pass guarantees.
\<close>

definition hour_length :: duration where
  "hour_length = 3600 * second"

record DeltaPartitionConfig =
  dp_Retention :: duration
  dp_MaintenanceInterval :: duration
  dp_PrecreateHorizon :: duration

datatype partition_error =
    RetentionNotPositive
  | IntervalNotPositive
  | HorizonNegative
  | PartitionDatabaseError string

definition NewOrderBookDeltaPartitionManager :: "DeltaPartitionConfig \<Rightarrow> partition_error + DeltaPartitionConfig" where
  "NewOrderBookDeltaPartitionManager cfg =
     (if dp_Retention cfg \<le> 0 then Inl RetentionNotPositive
      else if dp_MaintenanceInterval cfg \<le> 0 then Inl IntervalNotPositive
      else if dp_PrecreateHorizon cfg < 0 then Inl HorizonNegative
      else Inr cfg)"

record delta_table =
  dt_from :: time
  dt_to :: time
  dt_attached :: bool

record partition_db =
  pt_tables :: "(string, delta_table) gomap"
  pt_registry :: "(string, time \<times> time) gomap"

record pass_faults =
  pf_acquire :: bool
  pf_lock :: "bool option"
  pf_clock :: bool
  pf_schema :: bool
  pf_create :: "time \<Rightarrow> stmt_fault"
  pf_record :: "time \<Rightarrow> stmt_fault"
  pf_list :: bool
  pf_inspect :: "string \<Rightarrow> bool"
  pf_detach :: "string \<Rightarrow> stmt_fault"
  pf_drop :: "string \<Rightarrow> stmt_fault"
  pf_forget :: "string \<Rightarrow> stmt_fault"

definition Truncate_hour :: "time \<Rightarrow> time" where
  "Truncate_hour t = t - t mod hour_length"

definition partition_name :: "time \<Rightarrow> string" where
  "partition_name start =
     (let secs = start div second; days = secs div 86400; rest = secs mod 86400 in
      case civil (days + unix_epoch_days) of (y, m, d) \<Rightarrow>
        ''orderbook_deltas_'' @ pad4 y @ pad2 m @ pad2 d @ ''_'' @ pad2 (rest div 3600))"

text \<open>One statement: its error text, its fault, and the change it makes (\<open>None\<close> when the database refuses it).\<close>

definition ddl :: "string \<Rightarrow> stmt_fault \<Rightarrow> (partition_db \<Rightarrow> partition_db option) \<Rightarrow> partition_db \<Rightarrow>
  partition_error option \<times> partition_db" where
  "ddl op fault change db =
     (case (fault, change db) of
        (StmtFails, _) \<Rightarrow> (Some (PartitionDatabaseError op), db)
      | (_, None) \<Rightarrow> (Some (PartitionDatabaseError op), db)
      | (StmtOk, Some db') \<Rightarrow> (None, db')
      | (StmtLost, Some db') \<Rightarrow> (Some (PartitionDatabaseError op), db'))"

definition create_table :: "string \<Rightarrow> time \<Rightarrow> time \<Rightarrow> partition_db \<Rightarrow> partition_db option" where
  "create_table name start end db =
     (if map_of (pt_tables db) name \<noteq> None then Some db
      else if list_ex (\<lambda>(n, t). dt_attached t \<and> dt_from t < end \<and> start < dt_to t) (pt_tables db) then None
      else Some (db\<lparr>pt_tables := AList.update name \<lparr> dt_from = start, dt_to = end, dt_attached = True \<rparr> (pt_tables db)\<rparr>))"

definition createDeltaPartition :: "pass_faults \<Rightarrow> time \<Rightarrow> partition_db \<Rightarrow> partition_error option \<times> partition_db" where
  "createDeltaPartition pf start db =
     (let start = Truncate_hour start; end = start + hour_length; name = partition_name start in
      case ddl ''create delta partition'' (pf_create pf start) (create_table name start end) db of
        (Some e, db) \<Rightarrow> (Some e, db)
      | (None, db) \<Rightarrow>
          ddl ''record delta partition'' (pf_record pf start)
            (\<lambda>db. Some (db\<lparr>pt_registry := AList.update name (start, end) (pt_registry db)\<rparr>)) db)"

definition detach_table :: "string \<Rightarrow> partition_db \<Rightarrow> partition_db option" where
  "detach_table name db =
     (case map_of (pt_tables db) name of
        None \<Rightarrow> None
      | Some t \<Rightarrow> Some (db\<lparr>pt_tables := AList.update name (t\<lparr>dt_attached := False\<rparr>) (pt_tables db)\<rparr>))"

definition attached :: "string \<Rightarrow> partition_db \<Rightarrow> bool" where
  "attached name db = (case map_of (pt_tables db) name of None \<Rightarrow> False | Some t \<Rightarrow> dt_attached t)"

definition dropDeltaPartition :: "pass_faults \<Rightarrow> string \<Rightarrow> partition_db \<Rightarrow> partition_error option \<times> partition_db" where
  "dropDeltaPartition pf name db =
     (if pf_inspect pf name then (Some (PartitionDatabaseError ''inspect delta partition''), db)
      else
      (case (if attached name db then ddl ''detach delta partition'' (pf_detach pf name) (detach_table name) db
             else (None, db)) of
         (Some e, db) \<Rightarrow> (Some e, db)
       | (None, db) \<Rightarrow>
      (case ddl ''drop delta partition'' (pf_drop pf name)
              (\<lambda>db. Some (db\<lparr>pt_tables := AList.delete name (pt_tables db)\<rparr>)) db of
         (Some e, db) \<Rightarrow> (Some e, db)
       | (None, db) \<Rightarrow>
           ddl ''forget delta partition'' (pf_forget pf name)
             (\<lambda>db. Some (db\<lparr>pt_registry := AList.delete name (pt_registry db)\<rparr>)) db)))"

text \<open>The loop over the hours up to the horizon; it always does the current hour.\<close>

function create_loop :: "pass_faults \<Rightarrow> time \<Rightarrow> time \<Rightarrow> time \<Rightarrow> partition_db \<Rightarrow> partition_error option \<times> partition_db" where
  "create_loop pf current horizon start db =
     (if start < horizon \<or> start = current
      then (case createDeltaPartition pf start db of
              (Some e, db) \<Rightarrow> (Some e, db)
            | (None, db) \<Rightarrow> create_loop pf current horizon (start + hour_length) db)
      else (None, db))"
  by pat_completeness auto
termination
  by (relation "measure (\<lambda>(pf, current, horizon, start, db). nat (max horizon (current + 1) - start))")
     (auto simp: hour_length_def second_def)

declare create_loop.simps [simp del]

fun drop_loop :: "pass_faults \<Rightarrow> string list \<Rightarrow> partition_db \<Rightarrow> partition_error option \<times> partition_db" where
  "drop_loop pf [] db = (None, db)"
| "drop_loop pf (name # names) db =
     (case dropDeltaPartition pf name db of
        (Some e, db) \<Rightarrow> (Some e, db)
      | (None, db) \<Rightarrow> drop_loop pf names db)"

definition expired_names :: "time \<Rightarrow> partition_db \<Rightarrow> string list" where
  "expired_names cutoff db =
     map fst (sort_key (\<lambda>(n, f, e). e) (filter (\<lambda>(n, f, e). e \<le> cutoff) (pt_registry db)))"

definition maintainAt :: "DeltaPartitionConfig \<Rightarrow> pass_faults \<Rightarrow> time \<Rightarrow> partition_db \<Rightarrow> partition_error option \<times> partition_db" where
  "maintainAt cfg pf now db =
     (if pf_schema pf then (Some (PartitionDatabaseError ''read current schema''), db)
      else
      let current = Truncate_hour now; horizon = now + dp_PrecreateHorizon cfg in
      case create_loop pf current horizon current db of
        (Some e, db) \<Rightarrow> (Some e, db)
      | (None, db) \<Rightarrow>
          if pf_list pf then (Some (PartitionDatabaseError ''list expired delta partitions''), db)
          else drop_loop pf (expired_names (now - dp_Retention cfg) db) db)"

definition Maintain :: "DeltaPartitionConfig \<Rightarrow> pass_faults \<Rightarrow> time \<Rightarrow> partition_db \<Rightarrow> partition_error option \<times> partition_db" where
  "Maintain cfg pf now db =
     (if pf_acquire pf then (Some (PartitionDatabaseError ''acquire partition maintenance connection''), db)
      else (case pf_lock pf of
              None \<Rightarrow> (Some (PartitionDatabaseError ''acquire partition advisory lock''), db)
            | Some locked \<Rightarrow>
                if \<not> locked then (None, db)
                else if pf_clock pf then (Some (PartitionDatabaseError ''read database time''), db)
                else maintainAt cfg pf now db))"

subsection \<open>Partition names\<close>

definition hourly :: "time \<Rightarrow> bool" where
  "hourly s \<longleftrightarrow> s mod hour_length = 0 \<and> 0 \<le> year_of s \<and> year_of s \<le> 9999"

lemma pad_inj:
  "pad4 a @ s = pad4 b @ t \<Longrightarrow> 0 \<le> a \<Longrightarrow> a < 10000 \<Longrightarrow> 0 \<le> b \<Longrightarrow> b < 10000 \<Longrightarrow> a = b \<and> s = t"
  "pad2 c @ s = pad2 d @ t \<Longrightarrow> 0 \<le> c \<Longrightarrow> c < 100 \<Longrightarrow> 0 \<le> d \<Longrightarrow> d < 100 \<Longrightarrow> c = d \<and> s = t"
  by (metis parse_year_pad4 option.inject prod.inject) (metis getnum_pad2 option.inject prod.inject)

lemma hourly_format:
  assumes "s mod hour_length = 0" "civil (s div second div 86400 + unix_epoch_days) = (y, m, d)"
    and "h = s div second mod 86400 div 3600"
  shows "format_time s = pad4 y @ ''-'' @ pad2 m @ ''-'' @ pad2 d @ ''T'' @ pad2 h @ '':'' @ pad2 0 @ '':'' @ pad2 0 @ ''Z''"
proof -
  obtain k where k: "s = 3600 * second * k" using assms(1) by (auto simp: hour_length_def)
  have sd: "s div second = 3600 * k" "s mod second = 0" by (simp_all add: k second_def)
  have rest: "s div second mod 86400 = 3600 * (k mod 24)" unfolding sd(1) using mult_mod_right [of 3600 k 24] by simp
  have z: "s div second mod 86400 div 60 mod 60 = 0" "s div second mod 86400 mod 60 = 0"
  proof -
    have "3600 * q div 60 = 60 * q" "3600 * q mod 60 = 0" for q :: int
      using int_div_mod [of 0 60 "60 * q"] by simp_all
    then show "s div second mod 86400 div 60 mod 60 = 0" "s div second mod 86400 mod 60 = 0" unfolding rest by simp_all
  qed
  have "nine_digits k 0 = replicate k CHR ''0''" for k by (induction k) (simp_all add: digit_char_def char_of_eq_iff)
  then have "format_frac 0 = []" by (simp add: format_frac_def strip_zeros_def dropWhile_eq_Nil_conv)
  then show ?thesis using assms(2,3) by (simp add: format_time_def Let_def z sd(2))
qed

lemma partition_name_inj:
  assumes "hourly s" "hourly t" "partition_name s = partition_name t"
  shows "s = t"
proof -
  obtain y m d where c: "civil (s div second div 86400 + unix_epoch_days) = (y, m, d)" by (metis prod_cases3)
  obtain y' m' d' where c': "civil (t div second div 86400 + unix_epoch_days) = (y', m', d')" by (metis prod_cases3)
  let ?h = "\<lambda>s::int. s div second mod 86400 div 3600"
  have hr: "0 \<le> ?h u \<and> ?h u < 100" for u
    using time_of_day(1,2) [of "u div second mod 86400"] by (smt (verit) pos_mod_bound pos_mod_sign)
  have day: "1 \<le> m'' \<and> m'' < 100 \<and> 1 \<le> d'' \<and> d'' < 100" if "civil e = (y'', m'', d'')" for e y'' m'' d''
    using civil_correct [OF that] daysIn_le [of m'' y''] by linarith
  have yr: "0 \<le> y" "y < 10000" "0 \<le> y'" "y' < 10000" using assms(1,2) c c' by (simp_all add: hourly_def year_of_def)
  have "pad4 y @ pad2 m @ pad2 d @ ''_'' @ pad2 (?h s) = pad4 y' @ pad2 m' @ pad2 d' @ ''_'' @ pad2 (?h t)"
    using assms(3) c c' by (simp add: partition_name_def Let_def)
  from pad_inj(1) [OF this yr] have y: "y = y'" "pad2 m @ pad2 d @ ''_'' @ pad2 (?h s) = pad2 m' @ pad2 d' @ ''_'' @ pad2 (?h t)"
    by simp_all
  from pad_inj(2) [OF y(2)] day [OF c] day [OF c'] have m: "m = m'" "pad2 d @ ''_'' @ pad2 (?h s) = pad2 d' @ ''_'' @ pad2 (?h t)"
    by simp_all
  from pad_inj(2) [OF m(2)] day [OF c] day [OF c'] have d: "d = d'" "pad2 (?h s) @ [] = pad2 (?h t) @ []" by simp_all
  from pad_inj(2) [OF d(2)] hr have "?h s = ?h t" by simp
  moreover have al: "s mod hour_length = 0" "t mod hour_length = 0" using assms(1,2) by (simp_all add: hourly_def)
  ultimately have "format_time s = format_time t"
    unfolding hourly_format [OF al(1) c refl] hourly_format [OF al(2) c' refl] y(1) m(1) d(1) by (simp only:)
  moreover have "parse_time (format_time s) = Some s" "parse_time (format_time t) = Some t"
    using assms(1,2) parse_format_time unfolding hourly_def by blast+
  ultimately show ?thesis by (metis option.inject)
qed

subsection \<open>Consistency under faults\<close>

definition entry_ok :: "time \<Rightarrow> string \<Rightarrow> delta_table \<Rightarrow> bool" where
  "entry_ok T n t \<longleftrightarrow> hourly (dt_from t) \<and> n = partition_name (dt_from t) \<and> dt_to t = dt_from t + hour_length \<and>
     (dt_attached t \<or> dt_to t \<le> T)"

definition partitions_ok :: "time \<Rightarrow> partition_db \<Rightarrow> bool" where
  "partitions_ok T db \<longleftrightarrow>
     (\<forall>n t. map_of (pt_tables db) n = Some t \<longrightarrow> entry_ok T n t) \<and> gomap_ok (pt_tables db) \<and>
     (\<forall>n f e. map_of (pt_registry db) n = Some (f, e) \<longrightarrow> hourly f \<and> n = partition_name f \<and> e = f + hour_length) \<and>
     gomap_ok (pt_registry db)"

lemma partitions_ok_mono: "partitions_ok T db \<Longrightarrow> T \<le> T' \<Longrightarrow> partitions_ok T' db"
  by (fastforce simp: partitions_ok_def entry_ok_def)

lemma ddl_inv:
  assumes "P db" "\<And>db'. change db = Some db' \<Longrightarrow> P db'"
  shows "P (snd (ddl op fault change db))"
  using assms by (auto simp: ddl_def split: stmt_fault.splits option.splits)

lemma partitions_ok_update:
  assumes "partitions_ok T db" "entry_ok T n t"
  shows "partitions_ok T (db\<lparr>pt_tables := AList.update n t (pt_tables db)\<rparr>)"
  using assms by (simp add: partitions_ok_def update_conv' del: map_of_eq_Some_iff)

lemma partitions_ok_delete:
  "partitions_ok T db \<Longrightarrow> partitions_ok T (db\<lparr>pt_tables := AList.delete n (pt_tables db)\<rparr>)"
  "partitions_ok T db \<Longrightarrow> partitions_ok T (db\<lparr>pt_registry := AList.delete n (pt_registry db)\<rparr>)"
  by (simp_all add: partitions_ok_def delete_conv' del: map_of_eq_Some_iff)

lemma partitions_ok_record:
  "partitions_ok T db \<Longrightarrow> hourly s \<Longrightarrow>
   partitions_ok T (db\<lparr>pt_registry := AList.update (partition_name s) (s, s + hour_length) (pt_registry db)\<rparr>)"
  by (simp add: partitions_ok_def update_conv' del: map_of_eq_Some_iff)

lemma Truncate_hourly: "hourly s \<Longrightarrow> Truncate_hour s = s"
  by (simp add: hourly_def Truncate_hour_def)

lemma create_inv:
  assumes "partitions_ok T db" "hourly s"
  shows "partitions_ok T (snd (createDeltaPartition pf s db))"
proof -
  have "partitions_ok T (snd (ddl op f (create_table (partition_name s) s (s + hour_length)) db))" for op f
    by (rule ddl_inv [where P = "partitions_ok T", OF assms(1)])
       (use assms in \<open>auto simp: create_table_def entry_ok_def intro!: partitions_ok_update split: if_splits\<close>)
  then show ?thesis
    using assms(2)
    by (auto simp: createDeltaPartition_def Let_def Truncate_hourly split: prod.split option.split
        intro!: ddl_inv [where P = "partitions_ok T"] partitions_ok_record) (metis snd_conv)+
qed

lemma drop_inv:
  assumes "partitions_ok T db" "\<And>t. map_of (pt_tables db) n = Some t \<Longrightarrow> dt_to t \<le> T"
  shows "partitions_ok T (snd (dropDeltaPartition pf n db))"
proof -
  have det: "partitions_ok T (snd (ddl op f (detach_table n) db))" for op f
  proof (rule ddl_inv [where P = "partitions_ok T", OF assms(1)])
    fix db' assume "detach_table n db = Some db'"
    then obtain t where t: "map_of (pt_tables db) n = Some t"
      "db' = db\<lparr>pt_tables := AList.update n (t\<lparr>dt_attached := False\<rparr>) (pt_tables db)\<rparr>"
      by (auto simp: detach_table_def split: option.splits simp del: map_of_eq_Some_iff)
    then have "entry_ok T n (t\<lparr>dt_attached := False\<rparr>)"
      using assms by (auto simp: partitions_ok_def entry_ok_def simp del: map_of_eq_Some_iff)
    with t assms(1) show "partitions_ok T db'" by (simp add: partitions_ok_update)
  qed
  have del: "partitions_ok T (snd (ddl op f (\<lambda>db. Some (db\<lparr>pt_tables := AList.delete n (pt_tables db)\<rparr>)) d))"
    "partitions_ok T (snd (ddl op f (\<lambda>db. Some (db\<lparr>pt_registry := AList.delete n (pt_registry db)\<rparr>)) d))"
    if "partitions_ok T d" for op f d
    by (rule ddl_inv [where P = "partitions_ok T"]; use that in \<open>auto intro: partitions_ok_delete\<close>)+
  obtain e1 d1 where one: "(if attached n db then ddl ''detach delta partition'' (pf_detach pf n) (detach_table n) db
      else (None, db)) = (e1, d1)" by fastforce
  have d1: "partitions_ok T d1" using arg_cong [OF one, of snd] det assms(1) by (auto split: if_splits)
  obtain e2 d2 where two: "ddl ''drop delta partition'' (pf_drop pf n)
      (\<lambda>db. Some (db\<lparr>pt_tables := AList.delete n (pt_tables db)\<rparr>)) d1 = (e2, d2)" by fastforce
  have d2: "partitions_ok T d2" using del(1) [OF d1, of "''drop delta partition''" "pf_drop pf n"] two by simp
  show ?thesis
    using assms(1) d1 d2 del(2) [OF d2] by (simp add: dropDeltaPartition_def one two split: option.split)
qed

definition in_calendar :: "time \<Rightarrow> time \<Rightarrow> bool" where
  "in_calendar lo hi \<longleftrightarrow> (\<forall>s. lo \<le> s \<and> s \<le> hi \<longrightarrow> 0 \<le> year_of s \<and> year_of s \<le> 9999)"

lemma hour_length_pos [simp]: "0 < hour_length"
  by (simp add: hour_length_def second_def)

lemma create_loop_inv:
  assumes "partitions_ok T db" "start mod hour_length = 0" "current \<le> start"
    and "in_calendar current (max current horizon)"
  shows "partitions_ok T (snd (create_loop pf current horizon start db))"
  using assms
proof (induction pf current horizon start db rule: create_loop.induct)
  case (1 pf current horizon start db)
  show ?case
  proof (cases "start < horizon \<or> start = current")
    case True
    have "hourly start" using True "1.prems"(2-4) by (auto simp: hourly_def in_calendar_def)
    note inv = create_inv [OF "1.prems"(1) this, of pf]
    obtain e db' where c: "createDeltaPartition pf start db = (e, db')" by fastforce
    show ?thesis
    proof (cases e)
      case None
      have "partitions_ok T (snd (create_loop pf current horizon (start + hour_length) db'))"
        by (rule "1.IH" [OF True c [symmetric] None])
           (use inv c "1.prems" hour_length_pos in \<open>auto simp del: hour_length_pos\<close>)
      then show ?thesis using True c None by (simp add: create_loop.simps)
    qed (use True c inv in \<open>simp add: create_loop.simps\<close>)
  qed (use "1.prems" in \<open>simp add: create_loop.simps\<close>)
qed

lemma dropped_tables:
  assumes "map_of (pt_tables (snd (dropDeltaPartition pf n db))) m = Some t"
  shows "\<exists>t'. map_of (pt_tables db) m = Some t' \<and> dt_to t' = dt_to t"
proof -
  let ?P = "\<lambda>d. \<forall>m t. map_of (pt_tables d) m = Some t \<longrightarrow> (\<exists>t'. map_of (pt_tables db) m = Some t' \<and> dt_to t' = dt_to t)"
  have det: "?P (snd (ddl op f (detach_table n) db))" for op f
    by (rule ddl_inv [where P = ?P])
       (auto simp: detach_table_def update_conv' split: option.splits if_splits simp del: map_of_eq_Some_iff)
  have del: "?P (snd (ddl op f (\<lambda>db. Some (db\<lparr>pt_tables := AList.delete n (pt_tables db)\<rparr>)) d))"
    "?P (snd (ddl op f (\<lambda>db. Some (db\<lparr>pt_registry := AList.delete n (pt_registry db)\<rparr>)) d))"
    if "?P d" for op f d
    by (rule ddl_inv [where P = ?P]; use that in \<open>auto simp: delete_conv' split: if_splits simp del: map_of_eq_Some_iff\<close>)+
  obtain e1 d1 where one: "(if attached n db then ddl ''detach delta partition'' (pf_detach pf n) (detach_table n) db
      else (None, db)) = (e1, d1)" by fastforce
  have d1: "?P d1" using arg_cong [OF one, of snd] det [of "''detach delta partition''" "pf_detach pf n"]
    by (auto split: if_splits simp del: map_of_eq_Some_iff)
  obtain e2 d2 where two: "ddl ''drop delta partition'' (pf_drop pf n)
      (\<lambda>db. Some (db\<lparr>pt_tables := AList.delete n (pt_tables db)\<rparr>)) d1 = (e2, d2)" by fastforce
  have d2: "?P d2" using del(1) [OF d1, of "''drop delta partition''" "pf_drop pf n"] two by simp
  have "?P (snd (dropDeltaPartition pf n db))"
    using d1 d2 del(2) [OF d2] by (auto simp: dropDeltaPartition_def one two split: option.split simp del: map_of_eq_Some_iff)
  with assms show ?thesis by blast
qed

lemma drop_loop_inv:
  assumes "partitions_ok T db" "\<And>n t. n \<in> set names \<Longrightarrow> map_of (pt_tables db) n = Some t \<Longrightarrow> dt_to t \<le> T"
  shows "partitions_ok T (snd (drop_loop pf names db))"
  using assms
proof (induction names arbitrary: db)
  case (Cons n names)
  have inv: "partitions_ok T (snd (dropDeltaPartition pf n db))"
    by (rule drop_inv [OF Cons.prems(1)]) (use Cons.prems(2) [of n] in simp)
  obtain e db' where d: "dropDeltaPartition pf n db = (e, db')" by fastforce
  have "partitions_ok T (snd (drop_loop pf names db'))"
  proof (rule Cons.IH)
    show "partitions_ok T db'" using inv d by simp
    fix m t assume "m \<in> set names" "map_of (pt_tables db') m = Some t"
    with dropped_tables [of pf n db m t] d Cons.prems(2) show "dt_to t \<le> T" by fastforce
  qed
  with inv d show ?case by (cases e) simp_all
qed simp

lemma expired_names_mem:
  assumes "partitions_ok T db"
  shows "n \<in> set (expired_names c db) \<longleftrightarrow> (\<exists>f. map_of (pt_registry db) n = Some (f, f + hour_length) \<and> f + hour_length \<le> c)"
proof -
  have "n \<in> set (expired_names c db) \<longleftrightarrow> (\<exists>f e. (n, f, e) \<in> set (pt_registry db) \<and> e \<le> c)"
    by (force simp: expired_names_def image_iff)
  also have "\<dots> \<longleftrightarrow> (\<exists>f e. map_of (pt_registry db) n = Some (f, e) \<and> e \<le> c)"
    using assms gomap_ok_mem_iff unfolding partitions_ok_def by metis
  also have "\<dots> \<longleftrightarrow> (\<exists>f. map_of (pt_registry db) n = Some (f, f + hour_length) \<and> f + hour_length \<le> c)"
    using assms unfolding partitions_ok_def by blast
  finally show ?thesis .
qed

lemma table_of_name:
  assumes "partitions_ok T db" "map_of (pt_tables db) (partition_name s) = Some t" "hourly s"
  shows "dt_from t = s \<and> dt_to t = s + hour_length"
  using assms partition_name_inj by (auto simp: partitions_ok_def entry_ok_def simp del: map_of_eq_Some_iff)

lemma expired_table:
  assumes "partitions_ok T db" "n \<in> set (expired_names c db)" "map_of (pt_tables db) n = Some t"
  shows "dt_to t \<le> c"
proof -
  obtain f where f: "map_of (pt_registry db) n = Some (f, f + hour_length)" "f + hour_length \<le> c"
    using expired_names_mem [OF assms(1)] assms(2) by blast
  then have "hourly f" "n = partition_name f" using assms(1) unfolding partitions_ok_def by blast+
  with table_of_name [OF assms(1), of f t] assms(3) f(2) show ?thesis by simp
qed

lemma aligned_apart:
  assumes "s mod hour_length = 0" "u mod hour_length = 0" "s < u"
  shows "s + hour_length \<le> u"
proof -
  obtain j k where jk: "s = hour_length * j" "u = hour_length * k" using assms(1,2) by (auto elim!: dvdE simp: mod_0_imp_dvd)
  then have "j < k" using assms(3) mult_less_cancel_left_pos [OF hour_length_pos] by simp
  then have "hour_length * (j + 1) \<le> hour_length * k" using mult_left_mono [of "j + 1" k hour_length] hour_length_pos by simp
  then show ?thesis by (simp add: jk algebra_simps)
qed

lemma aligned_disjoint:
  "s mod hour_length = 0 \<Longrightarrow> u mod hour_length = 0 \<Longrightarrow> s \<noteq> u \<Longrightarrow> s + hour_length \<le> u \<or> u + hour_length \<le> s"
  using aligned_apart [of s u] aligned_apart [of u s] by linarith

lemma tables_apart:
  assumes "partitions_ok T db" "map_of (pt_tables db) n = Some t" "map_of (pt_tables db) m = Some u" "n \<noteq> m"
  shows "dt_to t \<le> dt_from u \<or> dt_to u \<le> dt_from t"
proof -
  have e: "entry_ok T n t" "entry_ok T m u" using assms(1-3) unfolding partitions_ok_def by blast+
  then have "dt_from t \<noteq> dt_from u" using assms(4) by (auto simp: entry_ok_def)
  with e show ?thesis using aligned_disjoint [of "dt_from t" "dt_from u"] by (auto simp: entry_ok_def hourly_def)
qed

lemma Truncate_hour_props: "Truncate_hour now mod hour_length = 0" "Truncate_hour now \<le> now" "now < Truncate_hour now + hour_length"
proof -
  show "Truncate_hour now mod hour_length = 0" by (simp add: Truncate_hour_def)
  have "0 \<le> now mod hour_length" "now mod hour_length < hour_length" by simp_all
  then show "Truncate_hour now \<le> now" "now < Truncate_hour now + hour_length" by (simp_all add: Truncate_hour_def)
qed

lemma maintainAt_inv:
  assumes "partitions_ok T db" "T \<le> now" "0 < dp_Retention cfg"
    and "in_calendar (Truncate_hour now) (now + dp_PrecreateHorizon cfg)" "0 \<le> dp_PrecreateHorizon cfg"
  shows "partitions_ok now (snd (maintainAt cfg pf now db))"
proof -
  note tr = Truncate_hour_props [of now]
  have cal: "in_calendar (Truncate_hour now) (max (Truncate_hour now) (now + dp_PrecreateHorizon cfg))"
    using assms(4,5) tr(2) by (simp add: max_def)
  have ok: "partitions_ok now db" by (rule partitions_ok_mono [OF assms(1,2)])
  obtain e db1 where c: "create_loop pf (Truncate_hour now) (now + dp_PrecreateHorizon cfg) (Truncate_hour now) db = (e, db1)"
    by fastforce
  have ok1: "partitions_ok now db1" using create_loop_inv [OF ok tr(1) order_refl cal, of pf] c by simp
  have "partitions_ok now (snd (drop_loop pf (expired_names (now - dp_Retention cfg) db1) db1))"
  proof (rule drop_loop_inv [OF ok1])
    fix n t assume "n \<in> set (expired_names (now - dp_Retention cfg) db1)" "map_of (pt_tables db1) n = Some t"
    from expired_table [OF ok1 this] assms(3) show "dt_to t \<le> now" by simp
  qed
  with ok ok1 c show ?thesis by (simp add: maintainAt_def Let_def split: option.split)
qed

text \<open>
  C26. A maintenance pass keeps the partitions of the delta table consistent whatever statement of it
  fails or loses its answer, as long as the database clock does not run backwards: every child table
  has the hour its name says, no two of them overlap, the registry agrees with the names, and a table is
  detached only when its hour is over.
\<close>

theorem partitions_stay_consistent:
  assumes "partitions_ok T db" "T \<le> now" "NewOrderBookDeltaPartitionManager cfg0 = Inr cfg"
    and "in_calendar (Truncate_hour now) (now + dp_PrecreateHorizon cfg)"
    and "db' = snd (Maintain cfg pf now db)"
  shows "partitions_ok now db' \<and>
    (\<forall>n m t u. map_of (pt_tables db') n = Some t \<and> map_of (pt_tables db') m = Some u \<and> n \<noteq> m \<longrightarrow>
       dt_to t \<le> dt_from u \<or> dt_to u \<le> dt_from t)"
proof -
  have cfg: "0 < dp_Retention cfg" "0 \<le> dp_PrecreateHorizon cfg"
    using assms(3) by (auto simp: NewOrderBookDeltaPartitionManager_def split: if_splits)
  have "partitions_ok now db'"
    using maintainAt_inv [OF assms(1,2) cfg(1) assms(4) cfg(2), of pf] partitions_ok_mono [OF assms(1,2)]
    by (auto simp: assms(5) Maintain_def split: option.split)
  then show ?thesis using tables_apart by blast
qed

subsection \<open>The creation loop ends\<close>

text \<open>The rounds of the loop one after the other, until one fails.\<close>

fun create_each :: "pass_faults \<Rightarrow> time list \<Rightarrow> partition_db \<Rightarrow> partition_error option \<times> partition_db" where
  "create_each pf [] db = (None, db)"
| "create_each pf (s # ss) db =
     (case createDeltaPartition pf s db of
        (Some e, db) \<Rightarrow> (Some e, db)
      | (None, db) \<Rightarrow> create_each pf ss db)"

text \<open>The number of rounds: the current hour, and the hours that begin before the horizon.\<close>

definition pass_hours :: "time \<Rightarrow> time \<Rightarrow> nat" where
  "pass_hours current horizon = max 1 (nat ((horizon - current + hour_length - 1) div hour_length))"

lemma le_div_hours: "j \<le> x div hour_length \<longleftrightarrow> j * hour_length \<le> x" for j x :: int
proof
  assume "j \<le> x div hour_length"
  then have "j * hour_length \<le> x div hour_length * hour_length" by (simp add: mult_right_mono)
  also have "\<dots> \<le> x" by (simp add: minus_mod_eq_div_mult [symmetric])
  finally show "j * hour_length \<le> x" .
next
  assume "j * hour_length \<le> x"
  from zdiv_mono1 [OF this hour_length_pos] hour_length_pos show "j \<le> x div hour_length" by (simp del: hour_length_pos)
qed

lemma hour_in_pass: "k < pass_hours current horizon \<longleftrightarrow> current + int k * hour_length < horizon \<or> k = 0"
proof -
  have "int k < (horizon - current + hour_length - 1) div hour_length \<longleftrightarrow> current + int k * hour_length < horizon"
    using le_div_hours [of "int k + 1" "horizon - current + hour_length - 1"] by (auto simp: algebra_simps)
  then show ?thesis by (auto simp: pass_hours_def)
qed

lemma pass_hours_bound: "pass_hours (Truncate_hour now) (now + h) \<le> nat (h div hour_length) + 2"
proof (rule ccontr)
  let ?n = "nat (h div hour_length) + 2"
  assume "\<not> ?thesis"
  then have "Truncate_hour now + int ?n * hour_length < now + h" using hour_in_pass [of ?n "Truncate_hour now" "now + h"] by simp
  moreover have "h < (h div hour_length + 1) * hour_length" using le_div_hours [of "h div hour_length + 1" h] by simp
  moreover have "(h div hour_length + 1) * hour_length + hour_length \<le> int ?n * hour_length"
    using mult_right_mono [of "h div hour_length + 2" "int ?n" hour_length] by (simp add: algebra_simps)
  ultimately show False using Truncate_hour_props(3) [of now] by linarith
qed

lemma create_loop_from:
  "k \<le> pass_hours current horizon \<Longrightarrow>
   create_loop pf current horizon (current + int k * hour_length) db =
     create_each pf (map (\<lambda>j. current + int j * hour_length) [k..<pass_hours current horizon]) db"
proof (induction "pass_hours current horizon - k" arbitrary: k db)
  case 0
  then show ?case using hour_in_pass [of k current horizon] hour_length_pos by (auto simp: create_loop.simps simp del: hour_length_pos)
next
  case (Suc n)
  then have k: "k < pass_hours current horizon" by simp
  have "create_loop pf current horizon (current + int k * hour_length) db =
      (case createDeltaPartition pf (current + int k * hour_length) db of
         (Some e, db) \<Rightarrow> (Some e, db)
       | (None, db) \<Rightarrow> create_loop pf current horizon (current + int (Suc k) * hour_length) db)"
    using k hour_in_pass [of k current horizon]
    by (subst create_loop.simps) (auto simp: algebra_simps split: prod.split option.split)
  also have "\<dots> = create_each pf (map (\<lambda>j. current + int j * hour_length) [k..<pass_hours current horizon]) db"
    using Suc.hyps k by (simp add: upt_conv_Cons del: of_nat_Suc split: prod.split option.split)
  finally show ?case .
qed

text \<open>
  C25. A maintenance pass ends: the loop that creates partitions runs for the current hour and for every later
  hour that begins before the horizon, in this order and for no other, at most two rounds more than the
  horizon has whole hours, unless a statement fails before.
\<close>

theorem creation_loop_is_bounded:
  "\<exists>n \<le> nat (h div hour_length) + 2.
     (\<forall>k. k < n \<longleftrightarrow> k = 0 \<or> Truncate_hour now + int k * hour_length < now + h) \<and>
     create_loop pf (Truncate_hour now) (now + h) (Truncate_hour now) db =
       create_each pf (map (\<lambda>k. Truncate_hour now + int k * hour_length) [0..<n]) db"
proof (intro exI conjI)
  let ?n = "pass_hours (Truncate_hour now) (now + h)"
  show "?n \<le> nat (h div hour_length) + 2" by (rule pass_hours_bound)
  show "\<forall>k. k < ?n \<longleftrightarrow> k = 0 \<or> Truncate_hour now + int k * hour_length < now + h" using hour_in_pass by blast
  show "create_loop pf (Truncate_hour now) (now + h) (Truncate_hour now) db =
      create_each pf (map (\<lambda>k. Truncate_hour now + int k * hour_length) [0..<?n]) db"
    using create_loop_from [of 0] by simp
qed

subsection \<open>A pass without faults\<close>

definition quiet_pass :: "pass_faults \<Rightarrow> bool" where
  "quiet_pass pf \<longleftrightarrow> \<not> pf_acquire pf \<and> pf_lock pf = Some True \<and> \<not> pf_clock pf \<and> \<not> pf_schema pf \<and> \<not> pf_list pf \<and>
     (\<forall>s. pf_create pf s = StmtOk \<and> pf_record pf s = StmtOk) \<and>
     (\<forall>n. \<not> pf_inspect pf n \<and> pf_detach pf n = StmtOk \<and> pf_drop pf n = StmtOk \<and> pf_forget pf n = StmtOk)"

definition has_partition :: "partition_db \<Rightarrow> time \<Rightarrow> bool" where
  "has_partition db s \<longleftrightarrow> (\<exists>t. map_of (pt_tables db) (partition_name s) = Some t \<and> dt_attached t)"

definition keeps_tables :: "partition_db \<Rightarrow> partition_db \<Rightarrow> bool" where
  "keeps_tables db db' \<longleftrightarrow> (\<forall>n t. map_of (pt_tables db) n = Some t \<longrightarrow> map_of (pt_tables db') n = Some t)"

lemma create_quiet:
  assumes "quiet_pass pf" "partitions_ok T db" "hourly s" "T < s + hour_length"
  shows "\<exists>db'. createDeltaPartition pf s db = (None, db') \<and> has_partition db' s \<and> keeps_tables db db'"
proof (cases "map_of (pt_tables db) (partition_name s)")
  case (Some t)
  have "entry_ok T (partition_name s) t" using assms(2) Some unfolding partitions_ok_def by blast
  then have "dt_attached t" using table_of_name [OF assms(2) Some assms(3)] assms(4) by (auto simp: entry_ok_def)
  with Some assms(1,3) show ?thesis
    by (simp add: createDeltaPartition_def Let_def Truncate_hourly quiet_pass_def ddl_def create_table_def
        has_partition_def keeps_tables_def del: map_of_eq_Some_iff)
next
  case None
  have free: "\<not> (dt_attached t \<and> dt_from t < s + hour_length \<and> s < dt_to t)" if "(n, t) \<in> set (pt_tables db)" for n t
  proof -
    have "map_of (pt_tables db) n = Some t" using that assms(2) gomap_ok_mem_iff unfolding partitions_ok_def by metis
    then have e: "entry_ok T n t" "n \<noteq> partition_name s" using assms(2) None unfolding partitions_ok_def by auto
    then have "dt_from t \<noteq> s" by (auto simp: entry_ok_def)
    then show ?thesis using aligned_disjoint [of "dt_from t" s] e(1) assms(3)
      by (auto simp: entry_ok_def hourly_def)
  qed
  then have "\<not> list_ex (\<lambda>(n, t). dt_attached t \<and> dt_from t < s + hour_length \<and> s < dt_to t) (pt_tables db)"
    by (auto simp: list_ex_iff)
  with None assms(1,3) show ?thesis
    by (simp add: createDeltaPartition_def Let_def Truncate_hourly quiet_pass_def ddl_def create_table_def
        has_partition_def keeps_tables_def update_conv' del: map_of_eq_Some_iff)
qed

lemma create_loop_quiet:
  assumes "quiet_pass pf" "partitions_ok T db" "start mod hour_length = 0" "current \<le> start" "T < start + hour_length"
    and "in_calendar current (max current horizon)"
  shows "\<exists>db'. create_loop pf current horizon start db = (None, db') \<and> keeps_tables db db' \<and>
    (\<forall>s. s mod hour_length = 0 \<and> start \<le> s \<and> (s < horizon \<or> s = current) \<longrightarrow> has_partition db' s)"
  using assms
proof (induction pf current horizon start db rule: create_loop.induct)
  case (1 pf current horizon start db)
  show ?case
  proof (cases "start < horizon \<or> start = current")
    case True
    have hs: "hourly start" using True "1.prems"(3,4,6) by (auto simp: hourly_def in_calendar_def)
    from create_quiet [OF "1.prems"(1,2) hs "1.prems"(5)] obtain db1 where
      c: "createDeltaPartition pf start db = (None, db1)" "has_partition db1 start" "keeps_tables db db1" by blast
    have ok1: "partitions_ok T db1" using create_inv [OF "1.prems"(2) hs, of pf] c(1) by simp
    have "(start + hour_length) mod hour_length = 0" "current \<le> start + hour_length" "T < start + hour_length + hour_length"
      using "1.prems"(3-5) hour_length_pos by (auto simp del: hour_length_pos)
    from "1.IH" [OF True c(1) [symmetric] refl "1.prems"(1) ok1 this "1.prems"(6)] obtain db' where
      r: "create_loop pf current horizon (start + hour_length) db1 = (None, db')" "keeps_tables db1 db'"
      "\<forall>s. s mod hour_length = 0 \<and> start + hour_length \<le> s \<and> (s < horizon \<or> s = current) \<longrightarrow> has_partition db' s" by blast
    have first: "has_partition db' start" using c(2) r(2) unfolding has_partition_def keeps_tables_def by blast
    have "has_partition db' s" if "s mod hour_length = 0" "start \<le> s" "s < horizon \<or> s = current" for s
      using that r(3) first aligned_apart [of start s] "1.prems"(3) by (cases "s = start") auto
    moreover have "keeps_tables db db'" using c(3) r(2) by (simp add: keeps_tables_def)
    ultimately show ?thesis using True c(1) r(1) by (simp add: create_loop.simps)
  next
    case False
    then show ?thesis using "1.prems"(4) by (auto simp: create_loop.simps keeps_tables_def)
  qed
qed

lemma drop_quiet:
  assumes "quiet_pass pf"
  shows "\<exists>db'. dropDeltaPartition pf n db = (None, db') \<and> map_of (pt_tables db') = (map_of (pt_tables db))(n := None) \<and>
    map_of (pt_registry db') = (map_of (pt_registry db))(n := None)"
proof (cases "attached n db")
  case True
  then obtain t where "map_of (pt_tables db) n = Some t" by (auto simp: attached_def split: option.splits)
  with True assms show ?thesis
    by (simp add: dropDeltaPartition_def quiet_pass_def ddl_def detach_table_def delete_conv' update_conv'
        fun_upd_twist del: map_of_eq_Some_iff)
qed (use assms in \<open>simp add: dropDeltaPartition_def quiet_pass_def ddl_def delete_conv'\<close>)

lemma drop_loop_quiet:
  assumes "quiet_pass pf"
  shows "\<exists>db'. drop_loop pf names db = (None, db') \<and>
    (\<forall>n. map_of (pt_tables db') n = (if n \<in> set names then None else map_of (pt_tables db) n) \<and>
         map_of (pt_registry db') n = (if n \<in> set names then None else map_of (pt_registry db) n))"
proof (induction names arbitrary: db)
  case (Cons n names)
  from drop_quiet [OF assms, of n db] obtain db1 where
    d: "dropDeltaPartition pf n db = (None, db1)" "map_of (pt_tables db1) = (map_of (pt_tables db))(n := None)"
    "map_of (pt_registry db1) = (map_of (pt_registry db))(n := None)" by blast
  from Cons.IH [of db1] d show ?case by auto
qed simp

lemma instant_hour:
  assumes "Truncate_hour now \<le> i" "i < hor \<or> i < Truncate_hour now + hour_length"
  shows "Truncate_hour now \<le> Truncate_hour i" "Truncate_hour i < hor \<or> Truncate_hour i = Truncate_hour now"
proof -
  note tn = Truncate_hour_props [of now] and ti = Truncate_hour_props [of i]
  show cur: "Truncate_hour now \<le> Truncate_hour i" using aligned_apart [OF ti(1) tn(1)] ti(3) assms(1) by linarith
  show "Truncate_hour i < hor \<or> Truncate_hour i = Truncate_hour now"
    using assms(2) ti(2) aligned_apart [OF tn(1) ti(1)] cur by linarith
qed

text \<open>
  A pass that meets no fault succeeds and afterwards a delta ingested at any time from the current
  hour up to the horizon has an attached partition (and the current hour always has one), every registered
  partition ends after the retention cutoff, and no partition that ends after the cutoff was removed.
\<close>

theorem successful_pass_covers_horizon:
  assumes "partitions_ok T db" "T \<le> now" "NewOrderBookDeltaPartitionManager cfg0 = Inr cfg"
    and "in_calendar (Truncate_hour now) (now + dp_PrecreateHorizon cfg)" "quiet_pass pf"
  shows "\<exists>db'. Maintain cfg pf now db = (None, db') \<and>
    (\<forall>i. Truncate_hour now \<le> i \<and> (i < now + dp_PrecreateHorizon cfg \<or> i < Truncate_hour now + hour_length) \<longrightarrow>
       (\<exists>n t. map_of (pt_tables db') n = Some t \<and> dt_attached t \<and> dt_from t \<le> i \<and> i < dt_to t)) \<and>
    (\<forall>n f e. map_of (pt_registry db') n = Some (f, e) \<longrightarrow> now - dp_Retention cfg < e) \<and>
    (\<forall>n t. map_of (pt_tables db) n = Some t \<and> now - dp_Retention cfg < dt_to t \<longrightarrow> map_of (pt_tables db') n = Some t)"
proof -
  let ?cur = "Truncate_hour now" and ?hor = "now + dp_PrecreateHorizon cfg" and ?cut = "now - dp_Retention cfg"
  note tr = Truncate_hour_props [of now]
  have cfg: "0 < dp_Retention cfg" "0 \<le> dp_PrecreateHorizon cfg"
    using assms(3) by (auto simp: NewOrderBookDeltaPartitionManager_def split: if_splits)
  have cal: "in_calendar ?cur (max ?cur ?hor)" using assms(4) cfg(2) tr(2) by (simp add: max_def)
  have "T < ?cur + hour_length" using assms(2) tr(3) by simp
  from create_loop_quiet [OF assms(5,1) tr(1) order_refl this cal] obtain db1 where
    c: "create_loop pf ?cur ?hor ?cur db = (None, db1)" "keeps_tables db db1"
    "\<forall>s. s mod hour_length = 0 \<and> ?cur \<le> s \<and> (s < ?hor \<or> s = ?cur) \<longrightarrow> has_partition db1 s" by blast
  have ok1: "partitions_ok T db1" using create_loop_inv [OF assms(1) tr(1) order_refl cal, of pf] c(1) by simp
  from drop_loop_quiet [OF assms(5), of "expired_names ?cut db1" db1] obtain db' where
    d: "drop_loop pf (expired_names ?cut db1) db1 = (None, db')"
    "\<And>n. map_of (pt_tables db') n = (if n \<in> set (expired_names ?cut db1) then None else map_of (pt_tables db1) n)"
    "\<And>n. map_of (pt_registry db') n = (if n \<in> set (expired_names ?cut db1) then None else map_of (pt_registry db1) n)" by metis
  have kept: "map_of (pt_tables db') n = Some t" if t: "map_of (pt_tables db1) n = Some t" "?cut < dt_to t" for n t
    using d(2) t expired_table [OF ok1 _ t(1), of ?cut] by fastforce
  have run: "Maintain cfg pf now db = (None, db')"
    using assms(5) c(1) d(1) by (simp add: Maintain_def maintainAt_def quiet_pass_def Let_def)
  have "\<exists>n t. map_of (pt_tables db') n = Some t \<and> dt_attached t \<and> dt_from t \<le> i \<and> i < dt_to t"
    if i: "?cur \<le> i" "i < ?hor \<or> i < ?cur + hour_length" for i
  proof -
    note ti = Truncate_hour_props [of i]
    have "has_partition db1 (Truncate_hour i)" "hourly (Truncate_hour i)"
      using instant_hour [OF i] c(3) ti(1) assms(4) tr(2) cfg(2) by (auto simp: hourly_def in_calendar_def)
    then obtain t where t: "map_of (pt_tables db1) (partition_name (Truncate_hour i)) = Some t" "dt_attached t"
      "dt_from t = Truncate_hour i" "dt_to t = Truncate_hour i + hour_length"
      using table_of_name [OF ok1] unfolding has_partition_def by blast
    moreover have "?cut < dt_to t" using instant_hour(1) [OF i] tr(3) cfg(1) t(4) by linarith
    ultimately show ?thesis using kept ti(2,3) by force
  qed
  moreover have "?cut < e" if "map_of (pt_registry db') n = Some (f, e)" for n f e
  proof (rule ccontr)
    assume "\<not> ?cut < e"
    moreover have m: "map_of (pt_registry db1) n = Some (f, e)" "n \<notin> set (expired_names ?cut db1)"
      using that d(3) [of n] by (auto split: if_splits)
    moreover have "e = f + hour_length" using ok1 m(1) unfolding partitions_ok_def by blast
    ultimately show False using expired_names_mem [OF ok1, of n ?cut] by simp
  qed
  moreover have "map_of (pt_tables db') n = Some t" if "map_of (pt_tables db) n = Some t" "?cut < dt_to t" for n t
    using kept that c(2) unfolding keeps_tables_def by blast
  ultimately show ?thesis using run by blast
qed

subsection \<open>Witnesses\<close>

definition sample_partition_cfg :: DeltaPartitionConfig where
  "sample_partition_cfg = \<lparr> dp_Retention = 24 * hour_length, dp_MaintenanceInterval = second, dp_PrecreateHorizon = 0 \<rparr>"

definition quiet_faults :: "stmt_fault \<Rightarrow> pass_faults" where
  "quiet_faults f = \<lparr> pf_acquire = False, pf_lock = Some True, pf_clock = False, pf_schema = False,
     pf_create = (\<lambda>_. StmtOk), pf_record = (\<lambda>_. f), pf_list = False, pf_inspect = (\<lambda>_. False),
     pf_detach = (\<lambda>_. StmtOk), pf_drop = (\<lambda>_. StmtOk), pf_forget = (\<lambda>_. StmtOk) \<rparr>"

definition no_partitions :: partition_db where
  "no_partitions = \<lparr> pt_tables = [], pt_registry = [] \<rparr>"

lemma sample_maintenance:
  "partitions_ok 0 no_partitions" "NewOrderBookDeltaPartitionManager sample_partition_cfg = Inr sample_partition_cfg"
  "in_calendar (Truncate_hour 0) (0 + dp_PrecreateHorizon sample_partition_cfg)" "quiet_pass (quiet_faults StmtOk)"
proof -
  have "year_of 0 = 1970"
    by (simp add: year_of_def civil_def year_of_days_def unix_epoch_days_def month_lengths_def leap_year_def Let_def)
  then show "in_calendar (Truncate_hour 0) (0 + dp_PrecreateHorizon sample_partition_cfg)"
    unfolding in_calendar_def Truncate_hour_def sample_partition_cfg_def by (auto dest!: antisym)
qed (simp_all add: partitions_ok_def no_partitions_def NewOrderBookDeltaPartitionManager_def sample_partition_cfg_def
    hour_length_def second_def quiet_pass_def quiet_faults_def)

theorem partitions_stay_consistent_witness:
  "partitions_ok 0 (snd (Maintain sample_partition_cfg (quiet_faults StmtFails) 0 no_partitions))"
  using partitions_stay_consistent [OF sample_maintenance(1) order_refl sample_maintenance(2,3) refl] by blast

theorem successful_pass_covers_horizon_witness:
  "\<exists>db' n t. Maintain sample_partition_cfg (quiet_faults StmtOk) 0 no_partitions = (None, db') \<and>
     map_of (pt_tables db') n = Some t \<and> dt_attached t \<and> dt_from t \<le> second \<and> second < dt_to t"
proof -
  have "Truncate_hour 0 \<le> second" "second < Truncate_hour 0 + hour_length"
    by (simp_all add: Truncate_hour_def hour_length_def second_def)
  with successful_pass_covers_horizon [OF sample_maintenance(1) order_refl sample_maintenance(2-4)] show ?thesis by metis
qed

end
