(* ===== verification/Partition_Loop.thy ===== *)
theory Partition_Loop
  imports Delta_Partitions
begin

section \<open>The maintenance loop of the delta partitions\<close>

text \<open>
  \<open>Run\<close> of \<^verbatim>\<open>storage/partitions.go\<close>: a pass at every tick, whose error is only logged. The lemmas show what a pass
  keeps whatever fails in it; the theorem, that the horizon bridges an outage of the maintenance.
\<close>

text \<open>A tick carries the faults its pass meets and the time it reads from the database.\<close>

definition partition_Run :: "DeltaPartitionConfig \<Rightarrow> (pass_faults \<times> time) list \<Rightarrow> partition_db \<Rightarrow> partition_db" where
  "partition_Run cfg ticks db = foldl (\<lambda>db (pf, now). snd (Maintain cfg pf now db)) db ticks"

text \<open>A statement after another one, as the code chains them.\<close>

lemma chain_inv:
  assumes "P (snd r)" "\<And>db. P db \<Longrightarrow> P (snd (k db))"
  shows "P (snd (case r of (Some e, db) \<Rightarrow> (Some e, db) | (None, db) \<Rightarrow> k db))"
  using assms by (auto split: prod.split option.split)

lemma create_table_keeps: "create_table name a b db = Some db' \<Longrightarrow> keeps_tables db db'"
  by (auto simp: create_table_def keeps_tables_def update_conv' simp del: map_of_eq_Some_iff split: if_splits)

lemma keeps_refl [simp]: "keeps_tables db db"
  by (simp add: keeps_tables_def)

lemma keeps_trans: "keeps_tables a b \<Longrightarrow> keeps_tables b c \<Longrightarrow> keeps_tables a c"
  by (simp add: keeps_tables_def)

lemma create_keeps: "keeps_tables db (snd (createDeltaPartition pf s db))"
  unfolding createDeltaPartition_def Let_def
  by (rule chain_inv; rule ddl_inv) (auto dest: create_table_keeps intro: keeps_trans simp: keeps_tables_def)

lemma create_loop_keeps: "keeps_tables db (snd (create_loop pf current horizon start db))"
proof (induction pf current horizon start db rule: create_loop.induct)
  case (1 pf current horizon start db)
  obtain e db1 where c: "createDeltaPartition pf start db = (e, db1)" by fastforce
  have "keeps_tables db db1" using create_keeps [of db pf start] c by simp
  with 1 [OF _ c [symmetric]] c show ?case
    by (subst create_loop.simps) (auto split: option.splits intro: keeps_trans)
qed

lemma drop_keeps:
  assumes "m \<noteq> n"
  shows "map_of (pt_tables (snd (dropDeltaPartition pf m db))) n = map_of (pt_tables db) n"
proof -
  let ?P = "\<lambda>d. map_of (pt_tables d) n = map_of (pt_tables db) n"
  have detach: "?P (snd (ddl op f (detach_table m) db))" for op f
    by (rule ddl_inv) (use assms in \<open>auto simp: detach_table_def update_conv' split: option.splits\<close>)
  have remove: "?P (snd (ddl op f (\<lambda>db. Some (db\<lparr>pt_tables := AList.delete m (pt_tables db)\<rparr>)) d))" if "?P d" for op f d
    by (rule ddl_inv [where P = ?P]) (use assms that in \<open>auto simp: delete_conv'\<close>)
  have forget: "?P (snd (ddl op f (\<lambda>db. Some (db\<lparr>pt_registry := AList.delete m (pt_registry db)\<rparr>)) d))" if "?P d" for op f d
    by (rule ddl_inv [where P = ?P]) (use that in auto)
  show ?thesis
  proof (cases "pf_inspect pf m")
    case False
    show ?thesis
      unfolding dropDeltaPartition_def if_not_P [OF False]
      by (rule chain_inv [where P = ?P], simp add: detach) (rule chain_inv [where P = ?P, OF remove forget])
  qed (simp add: dropDeltaPartition_def)
qed

lemma drop_loop_keeps: "n \<notin> set names \<Longrightarrow> map_of (pt_tables (snd (drop_loop pf names db))) n = map_of (pt_tables db) n"
proof (induction names arbitrary: db)
  case (Cons m names)
  obtain e db1 where d: "dropDeltaPartition pf m db = (e, db1)" by fastforce
  then have "map_of (pt_tables db1) n = map_of (pt_tables db) n" using drop_keeps [of m n pf db] Cons.prems by auto
  then show ?case using Cons d by (auto split: option.splits)
qed simp

text \<open>Whatever fails in it, a pass removes no table whose hour ends after the cutoff.\<close>

lemma maintain_keeps:
  assumes "partitions_ok T db" "0 \<le> dp_PrecreateHorizon cfg"
    and "in_calendar (Truncate_hour now) (now + dp_PrecreateHorizon cfg)"
    and "map_of (pt_tables db) n = Some t" "now - dp_Retention cfg < dt_to t"
  shows "map_of (pt_tables (snd (Maintain cfg pf now db))) n = Some t"
proof -
  let ?cur = "Truncate_hour now" and ?hor = "now + dp_PrecreateHorizon cfg"
  note tr = Truncate_hour_props [of now]
  obtain e db1 where c: "create_loop pf ?cur ?hor ?cur db = (e, db1)" by fastforce
  have cal: "in_calendar ?cur (max ?cur ?hor)" using assms(2,3) tr(2) by (simp add: max_def)
  have ok1: "partitions_ok T db1" using create_loop_inv [OF assms(1) tr(1) order_refl cal, of pf] c by simp
  have t1: "map_of (pt_tables db1) n = Some t"
    using create_loop_keeps [of db pf ?cur ?hor ?cur] c assms(4) unfolding keeps_tables_def by auto
  then have "n \<notin> set (expired_names (now - dp_Retention cfg) db1)" using expired_table [OF ok1 _ t1] assms(5) by fastforce
  from drop_loop_keeps [OF this] t1 assms(4) show ?thesis
    by (auto simp: Maintain_def maintainAt_def Let_def c simp del: map_of_eq_Some_iff split: option.split)
qed

lemma sorted_le_last: "sorted xs \<Longrightarrow> x \<in> set xs \<Longrightarrow> x \<le> last xs" for xs :: "'a :: linorder list"
  by (induction xs) auto

lemma Maintain_inv:
  assumes "partitions_ok T db" "T \<le> now" "0 < dp_Retention cfg" "0 \<le> dp_PrecreateHorizon cfg"
    and "in_calendar (Truncate_hour now) (now + dp_PrecreateHorizon cfg)"
  shows "partitions_ok now (snd (Maintain cfg pf now db))"
  using maintainAt_inv [OF assms(1-3,5,4), of pf] partitions_ok_mono [OF assms(1,2)]
  by (auto simp: Maintain_def split: option.split)

lemma Run_keeps:
  assumes "partitions_ok T db" "sorted (T # map snd ticks)" "0 < dp_Retention cfg" "0 \<le> dp_PrecreateHorizon cfg"
    and "\<forall>s \<in> set (map snd ticks). in_calendar (Truncate_hour s) (s + dp_PrecreateHorizon cfg) \<and> s < dt_to t"
    and "map_of (pt_tables db) n = Some t"
  shows "map_of (pt_tables (partition_Run cfg ticks db)) n = Some t"
  using assms
proof (induction ticks arbitrary: T db)
  case (Cons x ticks)
  obtain pf now where x: "x = (pf, now)" by fastforce
  let ?db = "snd (Maintain cfg pf now db)"
  have cal: "in_calendar (Truncate_hour now) (now + dp_PrecreateHorizon cfg)" "now < dt_to t" "T \<le> now"
    using Cons.prems(2,5) x by auto
  have "partitions_ok now ?db" by (rule Maintain_inv [OF Cons.prems(1) cal(3) Cons.prems(3,4) cal(1)])
  moreover have "map_of (pt_tables ?db) n = Some t"
    using maintain_keeps [OF Cons.prems(1,4) cal(1) Cons.prems(6)] cal(2) Cons.prems(3) by simp
  ultimately have "map_of (pt_tables (partition_Run cfg ticks ?db)) n = Some t"
    using Cons.IH [of now ?db] Cons.prems(2-5) x by (simp del: map_of_eq_Some_iff)
  then show ?case by (simp add: partition_Run_def x)
qed (simp add: partition_Run_def)

text \<open>
  C24. The precreated horizon bridges an outage of the maintenance. Once a pass met no fault, the loop may go on with
  passes of which every one fails at any statement: at every later time up to the horizon of the good pass a
  delta that is ingested finds an attached partition. The good pass also leaves no registered partition that ends
  before the retention cutoff.
\<close>

theorem maintenance_bridges_outage:
  assumes "partitions_ok T db" "T \<le> now" "NewOrderBookDeltaPartitionManager cfg0 = Inr cfg" "quiet_pass pf"
    and "sorted (now # map snd ticks)"
    and "\<forall>s \<in> set (now # map snd ticks). in_calendar (Truncate_hour s) (s + dp_PrecreateHorizon cfg)"
  shows "\<exists>db1. Maintain cfg pf now db = (None, db1) \<and>
    (\<forall>n f e. map_of (pt_registry db1) n = Some (f, e) \<longrightarrow> now - dp_Retention cfg < e) \<and>
    (\<forall>i. last (now # map snd ticks) \<le> i \<and> (i < now + dp_PrecreateHorizon cfg \<or> i < Truncate_hour now + hour_length) \<longrightarrow>
       (\<exists>n t. map_of (pt_tables (partition_Run cfg ticks db1)) n = Some t \<and> dt_attached t \<and> dt_from t \<le> i \<and> i < dt_to t))"
proof -
  have cfg: "0 < dp_Retention cfg" "0 \<le> dp_PrecreateHorizon cfg"
    using assms(3) by (auto simp: NewOrderBookDeltaPartitionManager_def split: if_splits)
  have cal: "in_calendar (Truncate_hour now) (now + dp_PrecreateHorizon cfg)" using assms(6) by simp
  from successful_pass_covers_horizon [OF assms(1-3) cal assms(4)] obtain db1 where
    db1: "Maintain cfg pf now db = (None, db1)" "\<forall>n f e. map_of (pt_registry db1) n = Some (f, e) \<longrightarrow> now - dp_Retention cfg < e"
    "\<And>i. Truncate_hour now \<le> i \<Longrightarrow> i < now + dp_PrecreateHorizon cfg \<or> i < Truncate_hour now + hour_length \<Longrightarrow>
       \<exists>n t. map_of (pt_tables db1) n = Some t \<and> dt_attached t \<and> dt_from t \<le> i \<and> i < dt_to t" by blast
  have ok: "partitions_ok now db1" using Maintain_inv [OF assms(1,2) cfg cal, of pf] db1(1) by simp
  have "\<exists>n t. map_of (pt_tables (partition_Run cfg ticks db1)) n = Some t \<and> dt_attached t \<and> dt_from t \<le> i \<and> i < dt_to t"
    if i: "last (now # map snd ticks) \<le> i" "i < now + dp_PrecreateHorizon cfg \<or> i < Truncate_hour now + hour_length" for i
  proof -
    have before: "s \<le> i" if "s \<in> set (now # map snd ticks)" for s
      using sorted_le_last [OF assms(5) that] i(1) by simp
    then have "Truncate_hour now \<le> i" using Truncate_hour_props(2) [of now] order_trans [of _ now i] by simp
    from db1(3) [OF this i(2)] obtain n t where
      t: "map_of (pt_tables db1) n = Some t" "dt_attached t" "dt_from t \<le> i" "i < dt_to t" by blast
    have "\<forall>s \<in> set (map snd ticks). in_calendar (Truncate_hour s) (s + dp_PrecreateHorizon cfg) \<and> s < dt_to t"
      using assms(6) le_less_trans [OF before t(4)] by simp
    from Run_keeps [OF ok assms(5) cfg this t(1)]
    have "map_of (pt_tables (partition_Run cfg ticks db1)) n = Some t" .
    with t(2-4) show ?thesis by blast
  qed
  with db1(1,2) show ?thesis by blast
qed

theorem maintenance_bridges_outage_witness:
  "\<exists>db1 n t. Maintain sample_partition_cfg (quiet_faults StmtOk) 0 no_partitions = (None, db1) \<and>
     map_of (pt_tables (partition_Run sample_partition_cfg [(quiet_faults StmtFails, 0), (quiet_faults StmtLost, 0)] db1)) n = Some t \<and>
     dt_attached t \<and> dt_from t \<le> second \<and> second < dt_to t"
proof -
  let ?ticks = "[(quiet_faults StmtFails, 0), (quiet_faults StmtLost, 0)] :: (pass_faults \<times> time) list"
  have "last (0 # map snd ?ticks) \<le> second" "second < Truncate_hour 0 + hour_length"
    by (simp_all add: Truncate_hour_def hour_length_def second_def)
  moreover have "sorted (0 # map snd ?ticks)" by simp
  moreover have "\<forall>s \<in> set (0 # map snd ?ticks). in_calendar (Truncate_hour s) (s + dp_PrecreateHorizon sample_partition_cfg)"
    using sample_maintenance(3) by simp
  ultimately show ?thesis
    using maintenance_bridges_outage [OF sample_maintenance(1) order_refl sample_maintenance(2,4), of ?ticks] by blast
qed

end
