(* ===== verification/Config_Files.thy ===== *)
theory Config_Files
  imports Go_Strings
begin

section \<open>Configuration files: dotenv.go, yaml.go\<close>

text \<open>
  The two optional files behind the environment. \<open>ParseDotEnv\<close> reads lines the way \<open>bufio.Scanner\<close> cuts them;
  \<open>LoadDotEnv\<close> puts the pairs into the process environment without touching variables that exist.
  \<open>ParseYAML\<close> expands shell variables in the text, decodes it and flattens the document to the keys of the
  environment. The YAML decoder is a library and therefore a parameter, the function \<open>decode\<close>. The order in
  which Go visits a map is a parameter too, the function \<open>order\<close>.

  The lemmas show that a file of plain assignments is read back, that real variables win whatever the order,
  and how the expansion treats text and references.
\<close>

type_synonym env = "string \<Rightarrow> string option"

subsection \<open>.env files\<close>

datatype dotenv_error =
    NotKeyValue nat string
  | EmptyKey nat
  | LineTooLong
  | ReadFailed
  | OpenFailed
  | SetFailed string

definition unquoteEnvValue :: "string \<Rightarrow> string" where
  "unquoteEnvValue v =
     (if 2 \<le> length v \<and> (hd v = CHR 0x22 \<and> last v = CHR 0x22 \<or> hd v = CHR 0x27 \<and> last v = CHR 0x27)
      then butlast (tl v) else v)"

text \<open>The lines of \<open>ScanLines\<close>: no empty line after the last newline, and a carriage return at the end dropped.\<close>

definition raw_lines :: "string \<Rightarrow> string list" where
  "raw_lines data = (let ls = split_on (CHR 0x0A) data in if last ls = [] then butlast ls else ls)"

definition dropCR :: "string \<Rightarrow> string" where
  "dropCR l = (if l \<noteq> [] \<and> last l = CHR 0x0D then butlast l else l)"

definition maxScanTokenSize :: nat where
  "maxScanTokenSize = 65536"

fun dotenv_loop :: "nat \<Rightarrow> string list \<Rightarrow> (string, string) gomap \<Rightarrow> dotenv_error + (string, string) gomap" where
  "dotenv_loop lineNo [] out = Inr out"
| "dotenv_loop lineNo (raw # rest) out =
     (if length raw \<ge> maxScanTokenSize then Inl LineTooLong
      else let line = TrimSpace (dropCR raw) in
        if line = [] \<or> HasPrefix line ''#'' then dotenv_loop (Suc lineNo) rest out
        else let line = TrimPrefix line ''export '' in
          (case cut_first (CHR ''='') line of
             None \<Rightarrow> Inl (NotKeyValue lineNo line)
           | Some (k, v) \<Rightarrow>
               if TrimSpace k = [] then Inl (EmptyKey lineNo)
               else dotenv_loop (Suc lineNo) rest
                      (AList.update (TrimSpace k) (unquoteEnvValue (TrimSpace v)) out)))"

text \<open>\<open>readFails\<close>: reading the file ends with an error after the given data.\<close>

definition ParseDotEnv :: "bool \<Rightarrow> string \<Rightarrow> dotenv_error + (string, string) gomap" where
  "ParseDotEnv readFails data =
     bind_r (dotenv_loop 1 (raw_lines data) []) (\<lambda>out. if readFails then Inl ReadFailed else Inr out)"

datatype file_state = Missing | Unreadable | File bool string

text \<open>\<open>os.Setenv\<close> refuses an empty key, \<open>=\<close> or NUL in the key, and NUL in the value.\<close>

definition setenv_refuses :: "string \<Rightarrow> string \<Rightarrow> bool" where
  "setenv_refuses k v \<longleftrightarrow> k = [] \<or> CHR ''='' \<in> set k \<or> CHR 0x00 \<in> set k \<or> CHR 0x00 \<in> set v"

fun apply_pairs :: "(string \<times> string) list \<Rightarrow> string list \<Rightarrow> env \<Rightarrow> (dotenv_error + string list) \<times> env" where
  "apply_pairs [] applied env = (Inr applied, env)"
| "apply_pairs ((k, v) # pairs) applied env =
     (if env k \<noteq> None then apply_pairs pairs applied env
      else if setenv_refuses k v then (Inl (SetFailed k), env)
      else apply_pairs pairs (applied @ [k]) (env(k \<mapsto> v)))"

definition LoadDotEnv :: "((string, string) gomap \<Rightarrow> (string \<times> string) list) \<Rightarrow> (string \<Rightarrow> file_state) \<Rightarrow> string \<Rightarrow> env \<Rightarrow>
  (dotenv_error + string list) \<times> env" where
  "LoadDotEnv order files path env =
     (case files path of
        Missing \<Rightarrow> (Inr [], env)
      | Unreadable \<Rightarrow> (Inl OpenFailed, env)
      | File readFails data \<Rightarrow>
          (case ParseDotEnv readFails data of
             Inl e \<Rightarrow> (Inl e, env)
           | Inr pairs \<Rightarrow> apply_pairs (order pairs) [] env))"

subsection \<open>Shell variables: os.Expand\<close>

definition isShellSpecialVar :: "char \<Rightarrow> bool" where
  "isShellSpecialVar c \<longleftrightarrow> c \<in> set ''*#$@!?-'' \<or> is_digit c"

definition isAlphaNum :: "char \<Rightarrow> bool" where
  "isAlphaNum c \<longleftrightarrow> c = CHR ''_'' \<or> is_digit c \<or> (97 \<le> (of_char c :: nat) \<and> (of_char c :: nat) \<le> 122) \<or>
     (65 \<le> (of_char c :: nat) \<and> (of_char c :: nat) \<le> 90)"

text \<open>The name at the front of a text that follows a dollar sign, and how many bytes it takes.\<close>

definition getShellName :: "string \<Rightarrow> string \<times> nat" where
  "getShellName s =
     (if hd s = CHR ''{'' then
        (if 2 < length s \<and> isShellSpecialVar (s ! 1) \<and> s ! 2 = CHR ''}'' then ([s ! 1], 3)
         else let name = takeWhile (\<lambda>c. c \<noteq> CHR ''}'') (tl s) in
           if length name = length (tl s) then ([], 1)
           else if name = [] then ([], 2) else (name, length name + 2))
      else if isShellSpecialVar (hd s) then ([hd s], 1)
      else let name = takeWhile isAlphaNum s in (name, length name))"

function Expand :: "(string \<Rightarrow> string) \<Rightarrow> string \<Rightarrow> string" where
  "Expand mapping [] = []"
| "Expand mapping (c # s) =
     (if c = CHR ''$'' \<and> s \<noteq> []
      then (case getShellName s of (name, w) \<Rightarrow>
             (if name = [] \<and> 0 < w then [] else if name = [] then [c] else mapping name) @ Expand mapping (drop w s))
      else c # Expand mapping s)"
  by pat_completeness auto
termination
  by (relation "measure (length \<circ> snd)") auto

subsection \<open>The YAML document\<close>

record yamlConfig =
  yc_Mode :: string
  yc_Server_HTTPAddr :: string
  yc_Server_MetricsAddr :: string
  yc_Database_DSN :: string
  yc_Database_MaxConns :: "goint option"
  yc_Database_MinConns :: "goint option"
  yc_Database_ConnectTimeout :: string
  yc_KafkaClusters :: "(string, string list) gomap"
  yc_Runtime_NodeID :: string
  yc_Runtime_MaxGroups :: "goint option"
  yc_Runtime_MaxWeight :: "goint option"
  yc_Runtime_LeaseTTL :: string
  yc_Runtime_LeaseRenewInterval :: string
  yc_Runtime_ReconcileInterval :: string
  yc_Runtime_HeartbeatInterval :: string
  yc_Runtime_ShutdownTimeout :: string
  yc_Processing_StatusReportInterval :: string
  yc_Processing_InputReconcile :: string
  yc_Batch_Trade_Size :: "goint option"
  yc_Batch_Trade_FlushInterval :: string
  yc_Batch_Kline_Size :: "goint option"
  yc_Batch_Kline_FlushInterval :: string
  yc_Batch_OrderBookDelta_Size :: "goint option"
  yc_Batch_OrderBookDelta_FlushInterval :: string
  yc_OrderBook_SnapshotInterval :: string
  yc_OrderBook_DeltaRetention :: string
  yc_OrderBook_DeltaPartitionInterval :: string
  yc_OrderBook_PartitionMaintenanceInterval :: string
  yc_OrderBook_PartitionPrecreateHorizon :: string
  yc_Log_Level :: string
  yc_Log_Format :: string

datatype yaml_result = YamlEOF | YamlError | YamlDoc yamlConfig

definition put :: "string \<Rightarrow> string \<Rightarrow> (string, string) gomap \<Rightarrow> (string, string) gomap" where
  "put key v out = (if v \<noteq> [] then AList.update key v out else out)"

definition putInt :: "string \<Rightarrow> goint option \<Rightarrow> (string, string) gomap \<Rightarrow> (string, string) gomap" where
  "putInt key v out = (case v of None \<Rightarrow> out | Some n \<Rightarrow> AList.update key (FormatInt n) out)"

definition put_brokers :: "yamlConfig \<Rightarrow> (string, string) gomap \<Rightarrow> (string, string) gomap" where
  "put_brokers yc out =
     (case map_of (yc_KafkaClusters yc) ''default'' of
        None \<Rightarrow> out
      | Some brokers \<Rightarrow> if 0 < length brokers then put ''KAFKA_BROKERS'' (Join brokers '','') out else out)"

definition yaml_puts :: "yamlConfig \<Rightarrow> ((string, string) gomap \<Rightarrow> (string, string) gomap) list" where
  "yaml_puts yc =
     [put ''MODE'' (yc_Mode yc),
      put ''HTTP_ADDR'' (yc_Server_HTTPAddr yc),
      put ''METRICS_ADDR'' (yc_Server_MetricsAddr yc),
      put ''DATABASE_DSN'' (yc_Database_DSN yc),
      putInt ''DB_MAX_CONNS'' (yc_Database_MaxConns yc),
      putInt ''DB_MIN_CONNS'' (yc_Database_MinConns yc),
      put ''DB_CONNECT_TIMEOUT'' (yc_Database_ConnectTimeout yc),
      put_brokers yc,
      put ''RUNTIME_NODE_ID'' (yc_Runtime_NodeID yc),
      putInt ''RUNTIME_MAX_GROUPS'' (yc_Runtime_MaxGroups yc),
      putInt ''RUNTIME_MAX_WEIGHT'' (yc_Runtime_MaxWeight yc),
      put ''LEASE_TTL'' (yc_Runtime_LeaseTTL yc),
      put ''LEASE_RENEW_INTERVAL'' (yc_Runtime_LeaseRenewInterval yc),
      put ''RECONCILE_INTERVAL'' (yc_Runtime_ReconcileInterval yc),
      put ''HEARTBEAT_INTERVAL'' (yc_Runtime_HeartbeatInterval yc),
      put ''SHUTDOWN_TIMEOUT'' (yc_Runtime_ShutdownTimeout yc),
      put ''INPUT_STATUS_REPORT_INTERVAL'' (yc_Processing_StatusReportInterval yc),
      put ''INPUT_RECONCILE_INTERVAL'' (yc_Processing_InputReconcile yc),
      putInt ''TRADE_BATCH_SIZE'' (yc_Batch_Trade_Size yc),
      put ''TRADE_BATCH_FLUSH_INTERVAL'' (yc_Batch_Trade_FlushInterval yc),
      putInt ''KLINE_BATCH_SIZE'' (yc_Batch_Kline_Size yc),
      put ''KLINE_BATCH_FLUSH_INTERVAL'' (yc_Batch_Kline_FlushInterval yc),
      putInt ''ORDERBOOK_DELTA_BATCH_SIZE'' (yc_Batch_OrderBookDelta_Size yc),
      put ''ORDERBOOK_DELTA_FLUSH_INTERVAL'' (yc_Batch_OrderBookDelta_FlushInterval yc),
      put ''ORDERBOOK_SNAPSHOT_INTERVAL'' (yc_OrderBook_SnapshotInterval yc),
      put ''ORDERBOOK_DELTA_RETENTION'' (yc_OrderBook_DeltaRetention yc),
      put ''ORDERBOOK_DELTA_PARTITION_INTERVAL'' (yc_OrderBook_DeltaPartitionInterval yc),
      put ''PARTITION_MAINTENANCE_INTERVAL'' (yc_OrderBook_PartitionMaintenanceInterval yc),
      put ''PARTITION_PRECREATE_HORIZON'' (yc_OrderBook_PartitionPrecreateHorizon yc),
      put ''LOG_LEVEL'' (yc_Log_Level yc),
      put ''LOG_FORMAT'' (yc_Log_Format yc)]"

definition flatten_yaml :: "yamlConfig \<Rightarrow> (string, string) gomap" where
  "flatten_yaml yc = foldl (\<lambda>out p. p out) [] (yaml_puts yc)"

text \<open>\<open>None\<close> is a parse error.\<close>

definition ParseYAML :: "(string \<Rightarrow> yaml_result) \<Rightarrow> string \<Rightarrow> env \<Rightarrow> (string, string) gomap option" where
  "ParseYAML decode data lookup =
     (case decode (Expand (\<lambda>name. case lookup name of Some v \<Rightarrow> v | None \<Rightarrow> []) data) of
        YamlEOF \<Rightarrow> Some []
      | YamlError \<Rightarrow> None
      | YamlDoc yc \<Rightarrow> Some (flatten_yaml yc))"

subsection \<open>Real variables win\<close>

lemma apply_pairs_keeps: "env k = Some v \<Longrightarrow> snd (apply_pairs pairs applied env) k = Some v"
proof (induction pairs arbitrary: applied env)
  case (Cons p pairs)
  have "snd (apply_pairs pairs as (env(a \<mapsto> b))) k = Some v" if "env a = None" for as a b
    by (rule Cons.IH) (use Cons.prems that in auto)
  then show ?case using Cons by (cases p) auto
qed simp

lemma apply_pairs_result:
  "apply_pairs pairs applied env = (Inr keys, env') \<Longrightarrow> gomap_ok pairs \<Longrightarrow>
   env' = map_of pairs ++ env \<and> keys = applied @ filter (\<lambda>k. env k = None) (map fst pairs)"
proof (induction pairs arbitrary: applied env)
  case (Cons p pairs)
  obtain k v where p: "p = (k, v)" by fastforce
  have fresh: "map_of pairs k = None" "k \<notin> fst ` set pairs" "gomap_ok pairs"
    using Cons.prems(2) by (simp_all add: p map_of_eq_None_iff)
  show ?case
  proof (cases "env k")
    case None
    with Cons.prems(1) have "apply_pairs pairs (applied @ [k]) (env(k \<mapsto> v)) = (Inr keys, env')"
      by (auto simp: p split: if_splits)
    note IH = Cons.IH [OF this fresh(3), THEN conjunct1] Cons.IH [OF this fresh(3), THEN conjunct2]
    have "filter (\<lambda>x. (env(k \<mapsto> v)) x = None) (map fst pairs) = filter (\<lambda>x. env x = None) (map fst pairs)"
      using fresh(2) by (intro filter_cong) auto
    then have "keys = applied @ filter (\<lambda>k. env k = None) (map fst (p # pairs))" using IH(2) None by (simp add: p)
    moreover have "map_of pairs ++ env(k \<mapsto> v) = map_of (p # pairs) ++ env"
      using None by (auto simp: p map_add_def fun_eq_iff split: option.split)
    ultimately show ?thesis using trans [OF IH(1)] by blast
  next
    case (Some w)
    with Cons.IH [of applied env] Cons.prems(1) fresh(3) show ?thesis
      by (auto simp: p map_add_def fun_eq_iff split: option.split)
  qed
qed simp

lemma dotenv_loop_ok: "dotenv_loop n ls m = Inr out \<Longrightarrow> gomap_ok m \<Longrightarrow> gomap_ok out"
  by (induction n ls m rule: dotenv_loop.induct) (auto simp: Let_def split: if_splits option.splits)

lemma ParseDotEnv_ok: "ParseDotEnv b data = Inr out \<Longrightarrow> gomap_ok out"
  using dotenv_loop_ok [of 1 "raw_lines data" "[]" out]
  by (auto simp: ParseDotEnv_def bind_r_Inr_iff split: if_splits)

lemma LoadDotEnv_result:
  assumes "\<And>m. mset (order m) = mset m" "LoadDotEnv order files path env = (Inr applied, env')"
    and "files path = File False data" "ParseDotEnv False data = Inr pairs"
  shows "env' = map_of pairs ++ env \<and> distinct applied \<and> set applied = fst ` set pairs - dom env"
proof -
  have run: "apply_pairs (order pairs) [] env = (Inr applied, env')" using assms(2-4) by (simp add: LoadDotEnv_def)
  have ok: "gomap_ok pairs" using assms(4) ParseDotEnv_ok by blast
  have perm: "mset (map fst (order pairs)) = mset (map fst pairs)" using assms(1) [of pairs] by (metis mset_map)
  then have dist: "gomap_ok (order pairs)" using ok by (metis mset_eq_imp_distinct_iff)
  from apply_pairs_result [OF run this] have res: "env' = map_of (order pairs) ++ env"
    "applied = filter (\<lambda>k. env k = None) (map fst (order pairs))" by simp_all
  have "map_of (order pairs) = map_of pairs"
    using ok dist assms(1) [of pairs] by (metis map_of_inject_set mset_eq_setD)
  moreover have "set (map fst (order pairs)) = fst ` set pairs" using perm by (metis list.set_map mset_eq_setD)
  ultimately show ?thesis using res dist by auto
qed

text \<open>
  Loading a .env file never changes a variable that the process already has, even when loading fails half
  way. When it succeeds, the environment is the pairs of the file below the real variables, and the reported
  keys are exactly the ones that were added; neither depends on the order in which the map is visited.
\<close>

theorem dotenv_never_overrides:
  assumes "\<And>m. mset (order m) = mset m" "LoadDotEnv order files path env = (r, env')"
  shows "env \<subseteq>\<^sub>m env' \<and>
    (\<forall>applied pairs. r = Inr applied \<and> files path = File False data \<and> ParseDotEnv False data = Inr pairs \<longrightarrow>
       env' = map_of pairs ++ env \<and> distinct applied \<and> set applied = fst ` set pairs - dom env)"
proof
  have keeps: "env \<subseteq>\<^sub>m snd (apply_pairs ps [] env)" for ps by (auto simp: map_le_def apply_pairs_keeps)
  show "env \<subseteq>\<^sub>m env'"
    using assms(2) keeps [of "order pairs" for pairs]
    by (auto simp: LoadDotEnv_def split: file_state.splits sum.splits) (metis snd_conv)
  show "\<forall>applied pairs. r = Inr applied \<and> files path = File False data \<and> ParseDotEnv False data = Inr pairs \<longrightarrow>
       env' = map_of pairs ++ env \<and> distinct applied \<and> set applied = fst ` set pairs - dom env"
    using LoadDotEnv_result [OF assms(1), of files path env _ env' data] assms(2) by blast
qed

subsection \<open>Reading back a written file\<close>

text \<open>A file with one quoted assignment per line.\<close>

definition env_line :: "string \<times> string \<Rightarrow> string" where
  "env_line kv = fst kv @ CHR ''='' # CHR 0x22 # snd kv @ [CHR 0x22]"

definition render_env :: "(string \<times> string) list \<Rightarrow> string" where
  "render_env kvs = concat (map (\<lambda>kv. env_line kv @ [CHR 0x0A]) kvs)"

definition plain_pair :: "string \<times> string \<Rightarrow> bool" where
  "plain_pair kv \<longleftrightarrow> fst kv \<noteq> [] \<and> hd (fst kv) \<noteq> CHR ''#'' \<and>
     list_all (\<lambda>c. graphic c \<and> c \<noteq> CHR ''='') (fst kv) \<and> CHR 0x0A \<notin> set (snd kv) \<and>
     length (fst kv) + length (snd kv) + 3 < maxScanTokenSize"

lemma raw_lines_render: "list_all plain_pair kvs \<Longrightarrow> raw_lines (render_env kvs) = map env_line kvs"
proof -
  assume plain: "list_all plain_pair kvs"
  have "CHR 0x0A \<notin> set (fst kv)" if "plain_pair kv" for kv
  proof
    assume "CHR 0x0A \<in> set (fst kv)"
    with that have "graphic (CHR 0x0A)" by (simp add: plain_pair_def list_all_iff)
    then show False by (simp add: graphic_def)
  qed
  then have "CHR 0x0A \<notin> set (env_line kv)" if "plain_pair kv" for kv
    using that by (simp add: env_line_def plain_pair_def)
  with plain have "split_on (CHR 0x0A) (render_env kvs) = map env_line kvs @ [[]]"
    by (induction kvs) (simp_all add: render_env_def split_on_append)
  then show ?thesis by (simp add: raw_lines_def)
qed

lemma no_export: "list_all (\<lambda>c. graphic c \<and> c \<noteq> CHR ''='') k \<Longrightarrow> \<not> prefix ''export '' (k @ CHR ''='' # v)"
proof
  assume k: "list_all (\<lambda>c. graphic c \<and> c \<noteq> CHR ''='') k" and "prefix ''export '' (k @ CHR ''='' # v)"
  then obtain zs where "k @ CHR ''='' # v = ''export '' @ zs" unfolding prefix_def by blast
  then have at: "(k @ CHR ''='' # v) ! i = ''export '' ! i" if "i < 7" for i
    using that by (simp only: nth_append) simp
  show False
  proof (cases "length k < 7")
    case True
    then have "CHR ''='' \<in> set ''export ''" using at [of "length k"] nth_mem [of "length k" "''export ''"] by simp
    then show False by simp
  next
    case False
    then have "k ! 6 = CHR '' ''" using at [of 6] by (simp add: nth_append)
    moreover have "graphic (k ! 6)" using k False by (simp add: list_all_length)
    ultimately show False by (simp add: graphic_def)
  qed
qed

lemma env_line_read:
  assumes "plain_pair kv"
  shows "dotenv_loop n (env_line kv # rest) out = dotenv_loop (Suc n) rest (AList.update (fst kv) (snd kv) out)"
proof -
  let ?l = "env_line kv"
  have k: "fst kv \<noteq> []" "graphic (hd (fst kv))" "graphic (last (fst kv))" "hd (fst kv) \<noteq> CHR ''#''" "CHR ''='' \<notin> set (fst kv)"
    using assms by (auto simp: plain_pair_def list_all_iff)
  have quote: "graphic (CHR 0x22)" by (simp add: graphic_def)
  have hd: "hd ?l = hd (fst kv)" "last ?l = CHR 0x22" "?l \<noteq> []" using k(1) by (simp_all add: env_line_def)
  have "dropCR ?l = ?l" using hd by (simp add: dropCR_def)
  moreover have "TrimSpace ?l = ?l" by (rule TrimSpace_graphic) (simp_all add: hd k quote)
  moreover have "\<not> HasPrefix ?l ''#''" using k(1,4) by (cases "fst kv") (auto simp: HasPrefix_def env_line_def)
  moreover have "TrimPrefix ?l ''export '' = ?l"
    using no_export [of "fst kv"] assms by (simp add: TrimPrefix_def env_line_def plain_pair_def)
  moreover have "cut_first (CHR ''='') ?l = Some (fst kv, CHR 0x22 # snd kv @ [CHR 0x22])"
    using k(5) by (simp add: env_line_def)
  moreover have "TrimSpace (fst kv) = fst kv" by (rule TrimSpace_graphic [OF k(2,3)])
  moreover have "TrimSpace (CHR 0x22 # snd kv @ [CHR 0x22]) = CHR 0x22 # snd kv @ [CHR 0x22]"
    by (rule TrimSpace_graphic) (simp_all add: quote)
  moreover have "unquoteEnvValue (CHR 0x22 # snd kv @ [CHR 0x22]) = snd kv" by (simp add: unquoteEnvValue_def butlast_append)
  moreover have "length ?l < maxScanTokenSize" using assms by (simp add: env_line_def plain_pair_def)
  ultimately show ?thesis using hd(3) k(1) by (simp add: Let_def)
qed

lemma dotenv_lines:
  assumes "list_all plain_pair kvs"
  shows "ParseDotEnv False (render_env kvs) = Inr (foldl (\<lambda>m kv. AList.update (fst kv) (snd kv) m) [] kvs)"
proof -
  have "dotenv_loop n (map env_line kvs) out = Inr (foldl (\<lambda>m kv. AList.update (fst kv) (snd kv) m) out kvs)" for n out
    using assms by (induction kvs arbitrary: n out) (simp_all add: env_line_read del: dotenv_loop.simps(2))
  then show ?thesis by (simp add: ParseDotEnv_def raw_lines_render [OF assms])
qed

text \<open>
  A .env file written with one quoted assignment per line is read back exactly, for any values without line
  breaks: a later assignment of a key replaces an earlier one.
\<close>

theorem dotenv_roundtrip:
  assumes "list_all plain_pair kvs"
  shows "ParseDotEnv False (render_env kvs) = Inr (foldl (\<lambda>m kv. AList.update (fst kv) (snd kv) m) [] kvs)"
  by (rule dotenv_lines [OF assms])

subsection \<open>Expansion\<close>

lemma Expand_plain: "CHR ''$'' \<notin> set a \<Longrightarrow> Expand f (a @ b) = a @ Expand f b"
  by (induction a) auto

lemma Expand_reference:
  assumes "name \<noteq> []" "list_all isAlphaNum name" "\<not> (length name = 1 \<and> isShellSpecialVar (hd name))"
  shows "Expand f (''${'' @ name @ CHR ''}'' # b) = f name @ Expand f b"
proof -
  have no: "CHR ''}'' \<notin> set name"
  proof
    assume "CHR ''}'' \<in> set name"
    with assms(2) have "isAlphaNum (CHR ''}'')" by (simp add: list_all_iff)
    then show False by (simp add: isAlphaNum_def is_digit_def)
  qed
  then have name: "takeWhile (\<lambda>c. c \<noteq> CHR ''}'') (name @ CHR ''}'' # b) = name"
    by (auto simp: takeWhile_append intro: takeWhile_eq_all_conv [THEN iffD2])
  have "getShellName (CHR ''{'' # name @ CHR ''}'' # b) = (name, length name + 2)"
  proof (cases name rule: list.exhaust)
    case (Cons c cs)
    have "\<not> (isShellSpecialVar c \<and> (cs @ CHR ''}'' # b) ! 0 = CHR ''}'')"
      using assms(3) no by (cases cs) (auto simp: Cons)
    then have "\<not> (2 < length (CHR ''{'' # name @ CHR ''}'' # b) \<and> isShellSpecialVar ((CHR ''{'' # name @ CHR ''}'' # b) ! 1) \<and>
        (CHR ''{'' # name @ CHR ''}'' # b) ! 2 = CHR ''}'')" by (simp add: Cons numeral_2_eq_2)
    then show ?thesis using assms(1) unfolding getShellName_def by (auto simp: name Let_def)
  qed (use assms(1) in simp)
  then show ?thesis using assms(1) by simp
qed

subsection \<open>Witnesses\<close>

theorem dotenv_roundtrip_witness:
  "ParseDotEnv False (render_env [(''A'', ''1 # x''), (''B'', []), (''A'', ''2'')]) = Inr [(''A'', ''2''), (''B'', [])]"
proof -
  have "list_all plain_pair [(''A'', ''1 # x''), (''B'', []), (''A'', ''2'')]"
    by (simp add: plain_pair_def graphic_def maxScanTokenSize_def)
  from dotenv_roundtrip [OF this] show ?thesis by simp
qed

definition env_files :: "string \<Rightarrow> file_state" where
  "env_files path = (if path = ''.env'' then File False (render_env [(''A'', ''1''), (''B'', ''2'')]) else Missing)"

theorem dotenv_never_overrides_witness:
  "snd (LoadDotEnv id env_files ''.env'' [''A'' \<mapsto> ''0'']) ''A'' = Some ''0''"
proof -
  obtain r env' where l: "LoadDotEnv id env_files ''.env'' [''A'' \<mapsto> ''0''] = (r, env')" by fastforce
  have "mset (id m) = mset m" for m :: "(string, string) gomap" by simp
  from dotenv_never_overrides [OF this l] have "[''A'' \<mapsto> ''0''] \<subseteq>\<^sub>m env'" by blast
  then have "env' ''A'' = Some ''0''" by (simp add: map_le_def)
  then show ?thesis by (simp only: l snd_conv)
qed

end
