(* ===== verification/Go_Duration.thy ===== *)
theory Go_Duration
  imports Decimal Go_Time
begin

section \<open>Duration texts: time.ParseDuration\<close>

text \<open>
  The parser of the Go library that the configuration uses: a sign, then numbers with an optional fraction,
  each followed by its unit, added up in an unsigned 64-bit counter whose overflow is an error. A fraction
  is scaled in \<open>float64\<close> arithmetic and cut off, so that it never exceeds its unit.

  The lemmas show that a whole number of a unit is read exactly and that results stay in the range of a
  64-bit integer.
\<close>

definition unit_map :: "(string \<times> nat) list" where
  "unit_map =
     [(''ns'', 1), (''us'', 1000), ([CHR 0xC2, CHR 0xB5, CHR ''s''], 1000), ([CHR 0xCE, CHR 0xBC, CHR ''s''], 1000),
      (''ms'', 1000000), (''s'', 1000000000), (''m'', 60000000000), (''h'', 3600000000000)]"

definition two63 :: nat where
  "two63 = 9223372036854775808"

text \<open>\<open>leadingInt\<close>: the digits at the front as a number of at most \<open>2^63\<close>; \<open>None\<close> is the overflow error.\<close>

fun leadingInt_loop :: "nat \<Rightarrow> string \<Rightarrow> (nat \<times> string) option" where
  "leadingInt_loop x [] = Some (x, [])"
| "leadingInt_loop x (c # s) =
     (if \<not> is_digit c then Some (x, c # s)
      else if x > two63 div 10 then None
      else let y = x * 10 + digit_val c in if y > two63 then None else leadingInt_loop y s)"

text \<open>\<open>leadingFraction\<close>: the digits that fit, and the power of ten they are over; the others are skipped.\<close>

fun leadingFraction_loop :: "nat \<Rightarrow> nat \<Rightarrow> bool \<Rightarrow> string \<Rightarrow> nat \<times> nat \<times> string" where
  "leadingFraction_loop x scale overflow [] = (x, scale, [])"
| "leadingFraction_loop x scale overflow (c # s) =
     (if \<not> is_digit c then (x, scale, c # s)
      else if overflow \<or> x > (two63 - 1) div 10 then leadingFraction_loop x scale True s
      else let y = x * 10 + digit_val c in
        if y > two63 then leadingFraction_loop x scale True s
        else leadingFraction_loop y (scale * 10) False s)"

text \<open>\<open>uint64(float64(f) * (float64(unit) / scale))\<close>; the scale, at most \<open>10^19\<close>, is exact.\<close>

definition trunc_bf :: "bigfloat \<Rightarrow> nat" where
  "trunc_bf f = (case f of Fin m e \<Rightarrow> if 0 \<le> e then nat m * 2 ^ nat e else nat m div 2 ^ nat (- e) | Inf n \<Rightarrow> 0)"

definition fraction_of :: "nat \<Rightarrow> nat \<Rightarrow> nat \<Rightarrow> nat" where
  "fraction_of f scale unit =
     trunc_bf (bf_mul 53 (set_exp_round 53 False f 0) (bf_quo 53 (Fin (int unit) 0) (Fin (int scale) 0)))"

definition unit_char :: "char \<Rightarrow> bool" where
  "unit_char c \<longleftrightarrow> c \<noteq> CHR ''.'' \<and> \<not> is_digit c"

text \<open>One number with its unit: its value in nanoseconds and the rest.\<close>

definition duration_item :: "string \<Rightarrow> (nat \<times> string) option" where
  "duration_item s =
     (if s = [] \<or> unit_char (hd s) then None
      else (case leadingInt_loop 0 s of
              None \<Rightarrow> None
            | Some (v, s1) \<Rightarrow>
                (let pre = length s1 \<noteq> length s;
                     (f, scale, s2, post) =
                       (case s1 of
                          c # r \<Rightarrow> if c = CHR ''.''
                            then (case leadingFraction_loop 0 1 False r of (f, scale, r') \<Rightarrow> (f, scale, r', length r' \<noteq> length r))
                            else (0, 1, s1, False)
                        | [] \<Rightarrow> (0, 1, s1, False));
                     u = takeWhile unit_char s2; rest = dropWhile unit_char s2
                 in if \<not> pre \<and> \<not> post then None
                    else if u = [] then None
                    else (case map_of unit_map u of
                            None \<Rightarrow> None
                          | Some unit \<Rightarrow>
                              if v > two63 div unit then None
                              else let w = v * unit + (if f > 0 then fraction_of f scale unit else 0)
                                in if w > two63 then None else Some (w, rest)))))"

lemma leadingInt_loop_split: "leadingInt_loop x s = Some (v, r) \<Longrightarrow> suffix r s"
  by (induction x s rule: leadingInt_loop.induct) (auto simp: Let_def suffix_ConsI split: if_splits)

lemma leadingFraction_loop_split: "leadingFraction_loop x k b s = (f, sc, r) \<Longrightarrow> suffix r s"
  by (induction x k b s rule: leadingFraction_loop.induct) (auto simp: Let_def suffix_ConsI split: if_splits)

lemma duration_item_shorter: "duration_item s = Some (w, rest) \<Longrightarrow> length rest < length s"
proof -
  assume item: "duration_item s = Some (w, rest)"
  then obtain v s1 where s1: "leadingInt_loop 0 s = Some (v, s1)"
    by (auto simp: duration_item_def split: if_splits option.splits prod.splits)
  define q where "q = (case s1 of
      c # r \<Rightarrow> if c = CHR ''.''
        then (case leadingFraction_loop 0 1 False r of (f, scale, r') \<Rightarrow> (f, scale, r', length r' \<noteq> length r))
        else (0, 1, s1, False)
    | [] \<Rightarrow> (0, 1, s1, False))"
  obtain f scale s2 post where q: "q = (f, scale, s2, post)" by (metis prod_cases4)
  have "length s2 \<le> length s1"
  proof (cases s1)
    case (Cons c r)
    obtain f' k r' where fr: "leadingFraction_loop 0 1 False r = (f', k, r')" by (metis prod_cases3)
    from suffix_length_le [OF leadingFraction_loop_split [OF this]] q fr show ?thesis by (auto simp: q_def Cons split: if_splits)
  qed (use q in \<open>simp add: q_def\<close>)
  moreover have "length s1 \<le> length s" using suffix_length_le [OF leadingInt_loop_split [OF s1]] .
  moreover have "takeWhile unit_char s2 \<noteq> [] \<and> rest = dropWhile unit_char s2"
    using item unfolding duration_item_def s1 option.case prod.case q_def [symmetric] q Let_def
    by (auto split: if_splits option.splits)
  moreover have "length s2 = length (takeWhile unit_char s2) + length (dropWhile unit_char s2)"
    by (metis length_append takeWhile_dropWhile_id)
  ultimately show "length rest < length s" by (cases "takeWhile unit_char s2") auto
qed

function duration_loop :: "nat \<Rightarrow> string \<Rightarrow> nat option" where
  "duration_loop d s =
     (if s = [] then Some d
      else (case duration_item s of
              None \<Rightarrow> None
            | Some (v, rest) \<Rightarrow>
                let d' = (d + v) mod (2 * two63) in if d' > two63 then None else duration_loop d' rest))"
  by pat_completeness auto
termination
  by (relation "measure (length \<circ> snd)") (auto dest: duration_item_shorter)

declare duration_loop.simps [simp del]

definition ParseDuration :: "string \<Rightarrow> duration option" where
  "ParseDuration t =
     (case split_sign t of (neg, s) \<Rightarrow>
      if s = ''0'' then Some 0
      else if s = [] then None
      else (case duration_loop 0 s of
              None \<Rightarrow> None
            | Some d \<Rightarrow> if neg then Some (- int d)
                        else if d > two63 - 1 then None else Some (int d)))"

subsection \<open>Whole numbers of a unit\<close>

lemma unit_map_facts:
  "map_of unit_map u = Some k \<Longrightarrow> u \<noteq> [] \<and> list_all unit_char u \<and> 0 < k"
  by (auto simp: unit_map_def unit_char_def is_digit_def split: if_splits)

lemma leadingInt_digits:
  assumes "list_all is_digit ds" "x * 10 ^ length ds + digits_val ds \<le> two63" "rest = [] \<or> \<not> is_digit (hd rest)"
  shows "leadingInt_loop x (ds @ rest) = Some (x * 10 ^ length ds + digits_val ds, rest)"
  using assms(1,2)
proof (induction ds arbitrary: x)
  case Nil
  then show ?case using assms(3) by (cases rest) (auto simp: digits_val_def)
next
  case (Cons c ds)
  let ?y = "x * 10 + digit_val c"
  have total: "x * 10 ^ length (c # ds) + digits_val (c # ds) = ?y * 10 ^ length ds + digits_val ds"
    using digits_val_append [of "[c]" ds] by (simp add: digits_val_def algebra_simps)
  then have bound: "?y * 10 ^ length ds + digits_val ds \<le> two63" using Cons.prems(2) by simp
  have "?y \<le> ?y * 10 ^ length ds" by simp
  then have "?y \<le> two63" using bound by linarith
  moreover from this have "x \<le> two63 div 10" by (simp add: less_eq_div_iff_mult_less_eq)
  ultimately show ?case using Cons.IH [of ?y] Cons.prems(1) bound total by (simp add: Let_def)
qed

lemma unit_item:
  assumes "map_of unit_map u = Some k" "n * k \<le> two63"
  shows "duration_item (nat_string n @ u) = Some (n * k, [])"
proof -
  note u = unit_map_facts [OF assms(1)] and ds = nat_string_digits [of n]
  have "n \<le> n * k" using u by simp
  then have "n \<le> two63" using assms(2) by linarith
  then have int: "leadingInt_loop 0 (nat_string n @ u) = Some (n, u)"
    using leadingInt_digits [of "nat_string n" 0 u] ds u by (cases u) (auto simp: unit_char_def)
  have "n \<le> two63 div k" using assms(2) u by (simp add: less_eq_div_iff_mult_less_eq)
  moreover have "\<not> unit_char (hd (nat_string n @ u))"
    using ds by (cases "nat_string n") (auto simp: unit_char_def)
  moreover obtain a l where a: "u = a # l" "a \<noteq> CHR ''.''" "unit_char a" "takeWhile unit_char l = l" "dropWhile unit_char l = []"
    using u by (cases u) (auto simp: list_all_iff takeWhile_eq_all_conv dropWhile_eq_Nil_conv unit_char_def)
  ultimately show ?thesis
    using int ds assms by (simp add: duration_item_def Let_def a)
qed

text \<open>A count of a unit, written as Go writes integers, is read exactly when it is in range.\<close>

lemma ParseDuration_unit:
  assumes "map_of unit_map u = Some k" "0 \<le> n" "n * int k < int two63"
  shows "ParseDuration (FormatInt n @ u) = Some (n * int k)"
proof -
  let ?s = "nat_string (nat n) @ u"
  have s: "FormatInt n @ u = ?s" using assms(2) by (simp add: FormatInt_def)
  have sign: "split_sign ?s = (False, ?s)"
    using split_sign_nat_string [of "nat n"] nat_string_digits [of "nat n"]
    by (cases "nat_string (nat n)") (auto simp: split_sign_def split: if_splits)
  have small: "nat n * k < two63" using assms(2,3) by (metis int_nat_eq nat_int_comparison(2) of_nat_mult)
  have "?s \<noteq> ''0''"
    using unit_map_facts [OF assms(1)] nat_string_digits [of "nat n"] by (cases "nat_string (nat n)"; cases u) auto
  moreover have "duration_loop 0 ?s = Some (nat n * k)"
    using unit_item [OF assms(1), of "nat n"] small nat_string_digits [of "nat n"]
    by (simp add: duration_loop.simps [of 0] duration_loop.simps [of _ "[]"] Let_def)
  ultimately show ?thesis
    unfolding s ParseDuration_def using small assms(2) nat_string_digits [of "nat n"] by (simp add: sign)
qed

lemma duration_loop_bound: "duration_loop d s = Some v \<Longrightarrow> d \<le> two63 \<Longrightarrow> v \<le> two63"
proof (induction d s rule: duration_loop.induct)
  case (1 d s)
  then show ?case
    by (subst (asm) (2) duration_loop.simps) (auto simp: Let_def split: if_splits option.splits)
qed

lemma ParseDuration_range: "ParseDuration s = Some d \<Longrightarrow> in_int64 d"
  by (auto simp: ParseDuration_def in_int64_def min_int64_def max_int64_def two63_def
      split: prod.splits if_splits option.splits dest!: duration_loop_bound)

end
