(* ===== verification/Configuration.thy ===== *)
theory Configuration
  imports Config_Files Go_Duration
begin

section \<open>Runtime configuration: config.go\<close>

text \<open>
  \<open>Load\<close> starts from the defaults, overwrites one field after the other from a lookup function and validates
  the result; \<open>LoadFile\<close> puts a YAML file below the environment; \<open>Bootstrap\<close> adds the .env file and finds
  the path of the YAML file. A lookup function is a partial function from keys to texts; the file system is a
  function from paths to contents. Durations are nanoseconds, as in Go.

  \<open>Validate\<close> visits two maps whose order Go leaves open: it only decides which key an error names, and
  the model takes the order of the source.

  The lemmas show what a loaded configuration satisfies and which source each setting comes from.
\<close>

definition ModeControlPlane :: string where "ModeControlPlane = ''control-plane''"
definition ModeStreamRuntime :: string where "ModeStreamRuntime = ''stream-runtime''"

record Config =
  cf_Mode :: string
  cf_HTTPAddr :: string
  cf_MetricsAddr :: string
  cf_DatabaseDSN :: string
  cf_DBMaxConns :: int
  cf_DBMinConns :: int
  cf_DBConnectTimeout :: duration
  cf_KafkaBrokers :: "string list"
  cf_RuntimeNodeID :: string
  cf_RuntimeMaxGroups :: goint
  cf_RuntimeMaxWeight :: goint
  cf_LeaseTTL :: duration
  cf_LeaseRenewInterval :: duration
  cf_ReconcileInterval :: duration
  cf_HeartbeatInterval :: duration
  cf_ShutdownTimeout :: duration
  cf_InputStatusReportInterval :: duration
  cf_InputReconcileInterval :: duration
  cf_TradeBatchSize :: goint
  cf_TradeBatchFlushInterval :: duration
  cf_KlineBatchSize :: goint
  cf_KlineBatchFlushInterval :: duration
  cf_OrderBookDeltaBatchSize :: goint
  cf_OrderBookDeltaFlushInterval :: duration
  cf_OrderBookSnapshotInterval :: duration
  cf_OrderBookDeltaRetention :: duration
  cf_OrderBookDeltaPartitionInterval :: duration
  cf_PartitionMaintenanceInterval :: duration
  cf_PartitionPrecreateHorizon :: duration
  cf_LogLevel :: string
  cf_LogFormat :: string

datatype config_error =
    NotAnInteger string
  | NotADuration string
  | DSNRequired
  | InvalidMode string
  | OutOfRange string
  | EmptyBroker
  | ConfigUnreadable string
  | BadYAML
  | DotEnvError dotenv_error

definition Default :: Config where
  "Default =
     \<lparr> cf_Mode = ModeControlPlane, cf_HTTPAddr = '':8080'', cf_MetricsAddr = '':9090'',
       cf_DatabaseDSN = [], cf_DBMaxConns = 10, cf_DBMinConns = 0, cf_DBConnectTimeout = 5 * second,
       cf_KafkaBrokers = [''127.0.0.1:19090''],
       cf_RuntimeNodeID = [], cf_RuntimeMaxGroups = 10, cf_RuntimeMaxWeight = 100, cf_LeaseTTL = 30 * second,
       cf_LeaseRenewInterval = 10 * second, cf_ReconcileInterval = 5 * second, cf_HeartbeatInterval = 10 * second,
       cf_ShutdownTimeout = 20 * second,
       cf_InputStatusReportInterval = second, cf_InputReconcileInterval = 2 * second,
       cf_TradeBatchSize = 500, cf_TradeBatchFlushInterval = 100 * millisecond,
       cf_KlineBatchSize = 100, cf_KlineBatchFlushInterval = 500 * millisecond,
       cf_OrderBookDeltaBatchSize = 2000, cf_OrderBookDeltaFlushInterval = 100 * millisecond,
       cf_OrderBookSnapshotInterval = 60 * second, cf_OrderBookDeltaRetention = 72 * hour,
       cf_OrderBookDeltaPartitionInterval = hour, cf_PartitionMaintenanceInterval = hour,
       cf_PartitionPrecreateHorizon = 3 * hour,
       cf_LogLevel = ''info'', cf_LogFormat = ''json'' \<rparr>"

subsection \<open>One setting\<close>

definition stringEnv :: "env \<Rightarrow> string \<Rightarrow> string \<Rightarrow> string" where
  "stringEnv lookup key d = (case lookup key of Some v \<Rightarrow> if TrimSpace v \<noteq> [] then v else d | None \<Rightarrow> d)"

definition stringSliceEnv :: "env \<Rightarrow> string \<Rightarrow> string list \<Rightarrow> string list" where
  "stringSliceEnv lookup key d =
     (case lookup key of
        None \<Rightarrow> d
      | Some v \<Rightarrow> if TrimSpace v = [] then d else map TrimSpace (split_on (CHR '','') v))"

definition int32Env :: "env \<Rightarrow> string \<Rightarrow> int \<Rightarrow> config_error + int" where
  "int32Env lookup key d =
     (case lookup key of
        None \<Rightarrow> Inr d
      | Some v \<Rightarrow> if TrimSpace v = [] then Inr d
                  else (case ParseInt 32 (TrimSpace v) of None \<Rightarrow> Inl (NotAnInteger key) | Some n \<Rightarrow> Inr n))"

definition intEnv :: "env \<Rightarrow> string \<Rightarrow> goint \<Rightarrow> config_error + goint" where
  "intEnv lookup key d =
     (case lookup key of
        None \<Rightarrow> Inr d
      | Some v \<Rightarrow> if TrimSpace v = [] then Inr d
                  else (case Atoi (TrimSpace v) of None \<Rightarrow> Inl (NotAnInteger key) | Some n \<Rightarrow> Inr n))"

definition durationEnv :: "env \<Rightarrow> string \<Rightarrow> duration \<Rightarrow> config_error + duration" where
  "durationEnv lookup key d =
     (case lookup key of
        None \<Rightarrow> Inr d
      | Some v \<Rightarrow> if TrimSpace v = [] then Inr d
                  else (case ParseDuration (TrimSpace v) of None \<Rightarrow> Inl (NotADuration key) | Some n \<Rightarrow> Inr n))"

subsection \<open>Validation\<close>

text \<open>The conditions in the order of the source, each with the error it leads to.\<close>

definition config_checks :: "Config \<Rightarrow> (bool \<times> config_error) list" where
  "config_checks c =
     [(TrimSpace (cf_DatabaseDSN c) = [], DSNRequired),
      (cf_Mode c \<noteq> ModeControlPlane \<and> cf_Mode c \<noteq> ModeStreamRuntime, InvalidMode (cf_Mode c)),
      (cf_DBMaxConns c \<le> 0, OutOfRange ''DB_MAX_CONNS''),
      (cf_DBMinConns c < 0 \<or> cf_DBMinConns c > cf_DBMaxConns c, OutOfRange ''DB_MIN_CONNS''),
      (cf_DBConnectTimeout c \<le> 0, OutOfRange ''DB_CONNECT_TIMEOUT''),
      (cf_KafkaBrokers c = [], OutOfRange ''KAFKA_BROKERS''),
      (list_ex (\<lambda>broker. TrimSpace broker = []) (cf_KafkaBrokers c), EmptyBroker),
      (cf_RuntimeMaxGroups c \<le> 0, OutOfRange ''RUNTIME_MAX_GROUPS''),
      (cf_RuntimeMaxWeight c \<le> 0, OutOfRange ''RUNTIME_MAX_WEIGHT''),
      (cf_LeaseTTL c \<le> 0, OutOfRange ''LEASE_TTL''),
      (cf_LeaseRenewInterval c \<le> 0, OutOfRange ''LEASE_RENEW_INTERVAL''),
      (cf_LeaseRenewInterval c \<ge> cf_LeaseTTL c, OutOfRange ''LEASE_RENEW_INTERVAL''),
      (cf_ReconcileInterval c \<le> 0, OutOfRange ''RECONCILE_INTERVAL''),
      (cf_HeartbeatInterval c \<le> 0, OutOfRange ''HEARTBEAT_INTERVAL''),
      (cf_ShutdownTimeout c \<le> 0, OutOfRange ''SHUTDOWN_TIMEOUT''),
      (cf_InputStatusReportInterval c \<le> 0, OutOfRange ''INPUT_STATUS_REPORT_INTERVAL''),
      (cf_InputReconcileInterval c \<le> 0, OutOfRange ''INPUT_RECONCILE_INTERVAL''),
      (cf_TradeBatchSize c \<le> 0, OutOfRange ''TRADE_BATCH_SIZE''),
      (cf_KlineBatchSize c \<le> 0, OutOfRange ''KLINE_BATCH_SIZE''),
      (cf_OrderBookDeltaBatchSize c \<le> 0, OutOfRange ''ORDERBOOK_DELTA_BATCH_SIZE''),
      (cf_TradeBatchFlushInterval c \<le> 0, OutOfRange ''TRADE_BATCH_FLUSH_INTERVAL''),
      (cf_KlineBatchFlushInterval c \<le> 0, OutOfRange ''KLINE_BATCH_FLUSH_INTERVAL''),
      (cf_OrderBookDeltaFlushInterval c \<le> 0, OutOfRange ''ORDERBOOK_DELTA_FLUSH_INTERVAL''),
      (cf_OrderBookSnapshotInterval c \<le> 0, OutOfRange ''ORDERBOOK_SNAPSHOT_INTERVAL''),
      (cf_OrderBookDeltaRetention c \<le> 0, OutOfRange ''ORDERBOOK_DELTA_RETENTION''),
      (cf_PartitionMaintenanceInterval c \<le> 0, OutOfRange ''PARTITION_MAINTENANCE_INTERVAL''),
      (cf_OrderBookDeltaPartitionInterval c \<noteq> hour, OutOfRange ''ORDERBOOK_DELTA_PARTITION_INTERVAL''),
      (cf_PartitionPrecreateHorizon c < 0, OutOfRange ''PARTITION_PRECREATE_HORIZON'')]"

definition Validate :: "Config \<Rightarrow> config_error option" where
  "Validate c = map_option snd (find fst (config_checks c))"

subsection \<open>Loading\<close>

text \<open>An assignment of a field from its setting: without and with a possible error.\<close>

definition assign :: "((string \<Rightarrow> string) \<Rightarrow> Config \<Rightarrow> Config) \<Rightarrow> (Config \<Rightarrow> string) \<Rightarrow> env \<Rightarrow> string \<Rightarrow>
  Config \<Rightarrow> config_error + Config" where
  "assign upd get lookup key cfg = Inr (upd (\<lambda>_. stringEnv lookup key (get cfg)) cfg)"

definition assign_checked :: "(env \<Rightarrow> string \<Rightarrow> 'a \<Rightarrow> config_error + 'a) \<Rightarrow> (('a \<Rightarrow> 'a) \<Rightarrow> Config \<Rightarrow> Config) \<Rightarrow>
  (Config \<Rightarrow> 'a) \<Rightarrow> env \<Rightarrow> string \<Rightarrow> Config \<Rightarrow> config_error + Config" where
  "assign_checked parse upd get lookup key cfg =
     bind_r (parse lookup key (get cfg)) (\<lambda>v. Inr (upd (\<lambda>_. v) cfg))"

definition load_steps :: "env \<Rightarrow> (Config \<Rightarrow> config_error + Config) list" where
  "load_steps lookup =
     [assign cf_Mode_update cf_Mode lookup ''MODE'',
      assign cf_HTTPAddr_update cf_HTTPAddr lookup ''HTTP_ADDR'',
      assign cf_MetricsAddr_update cf_MetricsAddr lookup ''METRICS_ADDR'',
      assign cf_DatabaseDSN_update cf_DatabaseDSN lookup ''DATABASE_DSN'',
      assign cf_DatabaseDSN_update cf_DatabaseDSN lookup ''STORAGE_DSN'',
      assign_checked int32Env cf_DBMaxConns_update cf_DBMaxConns lookup ''DB_MAX_CONNS'',
      assign_checked int32Env cf_DBMinConns_update cf_DBMinConns lookup ''DB_MIN_CONNS'',
      assign_checked durationEnv cf_DBConnectTimeout_update cf_DBConnectTimeout lookup ''DB_CONNECT_TIMEOUT'',
      (\<lambda>cfg. Inr (cfg\<lparr>cf_KafkaBrokers := stringSliceEnv lookup ''KAFKA_BROKERS'' (cf_KafkaBrokers cfg)\<rparr>)),
      assign cf_RuntimeNodeID_update cf_RuntimeNodeID lookup ''RUNTIME_NODE_ID'',
      assign_checked intEnv cf_RuntimeMaxGroups_update cf_RuntimeMaxGroups lookup ''RUNTIME_MAX_GROUPS'',
      assign_checked intEnv cf_RuntimeMaxWeight_update cf_RuntimeMaxWeight lookup ''RUNTIME_MAX_WEIGHT'',
      assign_checked durationEnv cf_LeaseTTL_update cf_LeaseTTL lookup ''LEASE_TTL'',
      assign_checked durationEnv cf_LeaseRenewInterval_update cf_LeaseRenewInterval lookup ''LEASE_RENEW_INTERVAL'',
      assign_checked durationEnv cf_ReconcileInterval_update cf_ReconcileInterval lookup ''RECONCILE_INTERVAL'',
      assign_checked durationEnv cf_HeartbeatInterval_update cf_HeartbeatInterval lookup ''HEARTBEAT_INTERVAL'',
      assign_checked durationEnv cf_ShutdownTimeout_update cf_ShutdownTimeout lookup ''SHUTDOWN_TIMEOUT'',
      assign_checked durationEnv cf_InputStatusReportInterval_update cf_InputStatusReportInterval lookup
        ''INPUT_STATUS_REPORT_INTERVAL'',
      assign_checked durationEnv cf_InputReconcileInterval_update cf_InputReconcileInterval lookup
        ''INPUT_RECONCILE_INTERVAL'',
      assign_checked intEnv cf_TradeBatchSize_update cf_TradeBatchSize lookup ''TRADE_BATCH_SIZE'',
      assign_checked durationEnv cf_TradeBatchFlushInterval_update cf_TradeBatchFlushInterval lookup
        ''TRADE_BATCH_FLUSH_INTERVAL'',
      assign_checked intEnv cf_KlineBatchSize_update cf_KlineBatchSize lookup ''KLINE_BATCH_SIZE'',
      assign_checked durationEnv cf_KlineBatchFlushInterval_update cf_KlineBatchFlushInterval lookup
        ''KLINE_BATCH_FLUSH_INTERVAL'',
      assign_checked intEnv cf_OrderBookDeltaBatchSize_update cf_OrderBookDeltaBatchSize lookup
        ''ORDERBOOK_DELTA_BATCH_SIZE'',
      assign_checked durationEnv cf_OrderBookDeltaFlushInterval_update cf_OrderBookDeltaFlushInterval lookup
        ''ORDERBOOK_DELTA_FLUSH_INTERVAL'',
      assign_checked durationEnv cf_OrderBookSnapshotInterval_update cf_OrderBookSnapshotInterval lookup
        ''ORDERBOOK_SNAPSHOT_INTERVAL'',
      assign_checked durationEnv cf_OrderBookDeltaRetention_update cf_OrderBookDeltaRetention lookup
        ''ORDERBOOK_DELTA_RETENTION'',
      assign_checked durationEnv cf_OrderBookDeltaPartitionInterval_update cf_OrderBookDeltaPartitionInterval lookup
        ''ORDERBOOK_DELTA_PARTITION_INTERVAL'',
      assign_checked durationEnv cf_PartitionMaintenanceInterval_update cf_PartitionMaintenanceInterval lookup
        ''PARTITION_MAINTENANCE_INTERVAL'',
      assign_checked durationEnv cf_PartitionPrecreateHorizon_update cf_PartitionPrecreateHorizon lookup
        ''PARTITION_PRECREATE_HORIZON'',
      assign cf_LogLevel_update cf_LogLevel lookup ''LOG_LEVEL'',
      assign cf_LogFormat_update cf_LogFormat lookup ''LOG_FORMAT'']"

fun run_steps :: "(Config \<Rightarrow> config_error + Config) list \<Rightarrow> Config \<Rightarrow> config_error + Config" where
  "run_steps [] cfg = Inr cfg"
| "run_steps (f # fs) cfg = bind_r (f cfg) (run_steps fs)"

definition Load :: "env \<Rightarrow> config_error + Config" where
  "Load lookup =
     bind_r (run_steps (load_steps lookup) Default) (\<lambda>cfg.
       case Validate cfg of Some e \<Rightarrow> Inl e | None \<Rightarrow> Inr cfg)"

definition combined :: "env \<Rightarrow> (string, string) gomap \<Rightarrow> env" where
  "combined lookup fileValues key =
     (case lookup key of
        Some v \<Rightarrow> if TrimSpace v \<noteq> [] then Some v else map_of fileValues key
      | None \<Rightarrow> map_of fileValues key)"

definition LoadFile :: "(string \<Rightarrow> yaml_result) \<Rightarrow> (string \<Rightarrow> file_state) \<Rightarrow> string \<Rightarrow> env \<Rightarrow> config_error + Config" where
  "LoadFile decode files configPath lookup =
     (if configPath = [] then Load lookup
      else (case files configPath of
              Missing \<Rightarrow> Load lookup
            | Unreadable \<Rightarrow> Inl (ConfigUnreadable configPath)
            | File readFails data \<Rightarrow>
                if readFails then Inl (ConfigUnreadable configPath)
                else (case ParseYAML decode data lookup of
                        None \<Rightarrow> Inl BadYAML
                      | Some fileValues \<Rightarrow> Load (combined lookup fileValues))))"

definition Getenv :: "env \<Rightarrow> string \<Rightarrow> string" where
  "Getenv env key = (case env key of None \<Rightarrow> [] | Some v \<Rightarrow> v)"

definition resolveConfigPath :: "(string \<Rightarrow> file_state) \<Rightarrow> env \<Rightarrow> string \<Rightarrow> string" where
  "resolveConfigPath files env explicit =
     (if explicit \<noteq> [] then explicit
      else if Getenv env ''CONFIG_FILE'' \<noteq> [] then Getenv env ''CONFIG_FILE''
      else if files ''config.yaml'' \<noteq> Missing then ''config.yaml'' else [])"

definition Bootstrap :: "((string, string) gomap \<Rightarrow> (string \<times> string) list) \<Rightarrow> (string \<Rightarrow> yaml_result) \<Rightarrow>
  (string \<Rightarrow> file_state) \<Rightarrow> string \<Rightarrow> env \<Rightarrow> (config_error + Config) \<times> string list \<times> env" where
  "Bootstrap order decode files explicitFile env =
     (let dotenvPath = (if Getenv env ''DOTENV_FILE'' = [] then ''.env'' else Getenv env ''DOTENV_FILE'') in
      case LoadDotEnv order files dotenvPath env of
        (Inl e, env) \<Rightarrow> (Inl (DotEnvError e), [], env)
      | (Inr applied, env) \<Rightarrow>
          (LoadFile decode files (resolveConfigPath files env explicitFile) env, applied, env))"

subsection \<open>What a loaded configuration satisfies\<close>

definition in_int32 :: "int \<Rightarrow> bool" where
  "in_int32 n \<longleftrightarrow> - (2 ^ 31) \<le> n \<and> n < 2 ^ 31"

definition in_ranges :: "Config \<Rightarrow> bool" where
  "in_ranges c \<longleftrightarrow> in_int32 (cf_DBMaxConns c) \<and> in_int32 (cf_DBMinConns c) \<and>
     list_all in_int64 [cf_DBConnectTimeout c, cf_RuntimeMaxGroups c, cf_RuntimeMaxWeight c, cf_LeaseTTL c,
       cf_LeaseRenewInterval c, cf_ReconcileInterval c, cf_HeartbeatInterval c, cf_ShutdownTimeout c,
       cf_InputStatusReportInterval c, cf_InputReconcileInterval c, cf_TradeBatchSize c, cf_TradeBatchFlushInterval c,
       cf_KlineBatchSize c, cf_KlineBatchFlushInterval c, cf_OrderBookDeltaBatchSize c, cf_OrderBookDeltaFlushInterval c,
       cf_OrderBookSnapshotInterval c, cf_OrderBookDeltaRetention c, cf_OrderBookDeltaPartitionInterval c,
       cf_PartitionMaintenanceInterval c, cf_PartitionPrecreateHorizon c]"

lemma env_ranges:
  "int32Env l k d = Inr v \<Longrightarrow> in_int32 d \<Longrightarrow> in_int32 v"
  "intEnv l k n = Inr w \<Longrightarrow> in_int64 n \<Longrightarrow> in_int64 w"
  "durationEnv l k n = Inr w \<Longrightarrow> in_int64 n \<Longrightarrow> in_int64 w"
proof -
  show "int32Env l k d = Inr v \<Longrightarrow> in_int32 d \<Longrightarrow> in_int32 v"
    using ParseInt_range [of 32] by (auto simp: int32Env_def in_int32_def split: option.splits if_splits)
  show "intEnv l k n = Inr w \<Longrightarrow> in_int64 n \<Longrightarrow> in_int64 w"
    using ParseInt64_range by (auto simp: intEnv_def Atoi_def split: option.splits if_splits)
  show "durationEnv l k n = Inr w \<Longrightarrow> in_int64 n \<Longrightarrow> in_int64 w"
    using ParseDuration_range by (auto simp: durationEnv_def split: option.splits if_splits)
qed

text \<open>A step that keeps a predicate, and when the assignments do.\<close>

definition keeps :: "(Config \<Rightarrow> bool) \<Rightarrow> (Config \<Rightarrow> config_error + Config) \<Rightarrow> bool" where
  "keeps P f \<longleftrightarrow> (\<forall>c c'. f c = Inr c' \<longrightarrow> P c \<longrightarrow> P c')"

lemma run_steps_keeps: "list_all (keeps P) fs \<Longrightarrow> run_steps fs c = Inr c' \<Longrightarrow> P c \<Longrightarrow> P c'"
proof (induction fs arbitrary: c)
  case (Cons f fs)
  then obtain c1 where "f c = Inr c1" "run_steps fs c1 = Inr c'" by (auto simp: bind_r_Inr_iff)
  with Cons show ?case by (simp add: keeps_def)
qed simp

lemma keeps_assign: "(\<And>c v. P c \<Longrightarrow> P (upd (\<lambda>_. v) c)) \<Longrightarrow> keeps P (assign upd get l k)"
  by (auto simp: keeps_def assign_def)

lemma keeps_checked:
  assumes "\<And>k d v. parse l k d = Inr v \<Longrightarrow> R d \<Longrightarrow> R v" "\<And>c. P c \<Longrightarrow> R (get c)"
    and "\<And>c v. P c \<Longrightarrow> R v \<Longrightarrow> P (upd (\<lambda>_. v) c)"
  shows "keeps P (assign_checked parse upd get l k)"
  using assms by (auto simp: keeps_def assign_checked_def bind_r_Inr_iff)

lemmas keeps_ranges = keeps_assign [where P = in_ranges]
  keeps_checked [where P = in_ranges and R = in_int32 and parse = int32Env, OF env_ranges(1)]
  keeps_checked [where P = in_ranges and R = in_int64 and parse = intEnv, OF env_ranges(2)]
  keeps_checked [where P = in_ranges and R = in_int64 and parse = durationEnv, OF env_ranges(3)]

lemma load_steps_ranges: "list_all (keeps in_ranges) (load_steps lookup)"
  unfolding load_steps_def list.pred_inject
proof (intro conjI TrueI)
  show "keeps in_ranges (\<lambda>cfg. Inr (cfg\<lparr>cf_KafkaBrokers := stringSliceEnv lookup ''KAFKA_BROKERS'' (cf_KafkaBrokers cfg)\<rparr>))"
    by (auto simp: keeps_def in_ranges_def)
qed (rule keeps_ranges, (simp add: in_ranges_def)+)+

lemma Default_ranges: "in_ranges Default"
  by (simp add: in_ranges_def Default_def in_int32_def in_int64_def min_int64_def max_int64_def second_def millisecond_def hour_def)

lemma Validate_None: "Validate c = None \<longleftrightarrow> list_all (\<lambda>(bad, e). \<not> bad) (config_checks c)"
  by (auto simp: Validate_def find_None_iff list_all_iff)

lemma Load_Inr: "Load lookup = Inr c \<Longrightarrow> Validate c = None \<and> in_ranges c"
  using run_steps_keeps [OF load_steps_ranges _ Default_ranges]
  by (auto simp: Load_def bind_r_Inr_iff split: option.splits)

text \<open>
  C27. Every configuration that loads is coherent, from whatever source its settings come: a DSN and at least one
  broker, none blank; a pool whose lower bound is not above its upper one and fits 32 bits; a lease that is
  renewed before it expires; positive capacities, batch sizes and intervals within 64 bits; hourly partitions.
\<close>

theorem loaded_config_is_coherent:
  assumes "Load lookup = Inr c"
  shows "TrimSpace (cf_DatabaseDSN c) \<noteq> [] \<and> cf_Mode c \<in> {ModeControlPlane, ModeStreamRuntime} \<and>
    0 \<le> cf_DBMinConns c \<and> cf_DBMinConns c \<le> cf_DBMaxConns c \<and> 0 < cf_DBMaxConns c \<and> cf_DBMaxConns c < 2 ^ 31 \<and>
    cf_KafkaBrokers c \<noteq> [] \<and> list_all (\<lambda>b. TrimSpace b \<noteq> []) (cf_KafkaBrokers c) \<and>
    0 < cf_LeaseRenewInterval c \<and> cf_LeaseRenewInterval c < cf_LeaseTTL c \<and>
    list_all (\<lambda>n. 0 < n \<and> in_int64 n)
      [cf_DBConnectTimeout c, cf_RuntimeMaxGroups c, cf_RuntimeMaxWeight c, cf_LeaseTTL c, cf_ReconcileInterval c,
       cf_HeartbeatInterval c, cf_ShutdownTimeout c, cf_InputStatusReportInterval c, cf_InputReconcileInterval c,
       cf_TradeBatchSize c, cf_TradeBatchFlushInterval c, cf_KlineBatchSize c, cf_KlineBatchFlushInterval c,
       cf_OrderBookDeltaBatchSize c, cf_OrderBookDeltaFlushInterval c, cf_OrderBookSnapshotInterval c,
       cf_OrderBookDeltaRetention c, cf_PartitionMaintenanceInterval c] \<and>
    cf_OrderBookDeltaPartitionInterval c = hour \<and> 0 \<le> cf_PartitionPrecreateHorizon c"
proof -
  have "list_all (\<lambda>(bad, e). \<not> bad) (config_checks c)" "in_ranges c"
    using Load_Inr [OF assms] by (simp_all add: Validate_None)
  then show ?thesis
    by (auto simp: config_checks_def in_ranges_def in_int32_def list_ex_iff list_all_iff)
qed

subsection \<open>Where a setting comes from\<close>

definition nonblank :: "string option \<Rightarrow> string option" where
  "nonblank v = (case v of Some s \<Rightarrow> if TrimSpace s = [] then None else Some s | None \<Rightarrow> None)"

lemma env_readers_cong:
  assumes "\<And>k. nonblank (l k) = nonblank (l' k)"
  shows "stringEnv l = stringEnv l'" "stringSliceEnv l = stringSliceEnv l'" "int32Env l = int32Env l'"
    "intEnv l = intEnv l'" "durationEnv l = durationEnv l'"
proof -
  have "stringEnv l k = stringEnv l' k \<and> stringSliceEnv l k = stringSliceEnv l' k \<and> int32Env l k = int32Env l' k \<and>
      intEnv l k = intEnv l' k \<and> durationEnv l k = durationEnv l' k" for k
    using assms [of k] by (cases "l k"; cases "l' k")
      (auto simp: nonblank_def fun_eq_iff stringEnv_def stringSliceEnv_def int32Env_def intEnv_def durationEnv_def split: if_splits)
  then show "stringEnv l = stringEnv l'" "stringSliceEnv l = stringSliceEnv l'" "int32Env l = int32Env l'"
    "intEnv l = intEnv l'" "durationEnv l = durationEnv l'" by auto
qed

text \<open>Blank settings count as missing.\<close>

lemma Load_cong:
  assumes "\<And>k. nonblank (l k) = nonblank (l' k)"
  shows "Load l = Load l'"
proof -
  note eqs = env_readers_cong [OF assms]
  have "assign u g l = assign u g l'" for u g by (simp add: fun_eq_iff assign_def eqs)
  moreover have "assign_checked int32Env u g l = assign_checked int32Env u g l'"
    "assign_checked intEnv u g l = assign_checked intEnv u g l'"
    "assign_checked durationEnv u g l = assign_checked durationEnv u g l'" for u g
    by (simp_all add: fun_eq_iff assign_checked_def eqs)
  ultimately have "load_steps l = load_steps l'" unfolding load_steps_def by (simp add: eqs)
  then show ?thesis by (simp add: Load_def)
qed

lemma apply_pairs_success:
  "\<forall>(k, v) \<in> set pairs. \<not> setenv_refuses k v \<Longrightarrow> \<exists>keys env'. apply_pairs pairs applied env = (Inr keys, env')"
  by (induction pairs arbitrary: applied env) auto

lemma nonblank_idem [simp]: "nonblank (nonblank v) = nonblank v"
  by (auto simp: nonblank_def split: option.split)

lemma combined_nonblank:
  "nonblank (combined lookup m k) = (case nonblank (lookup k) of Some v \<Rightarrow> Some v | None \<Rightarrow> nonblank (map_of m k))"
  by (auto simp: nonblank_def combined_def split: option.split)


text \<open>When both are set, \<open>STORAGE_DSN\<close> replaces \<open>DATABASE_DSN\<close>; the comment in \<open>Load\<close> says the opposite.\<close>

lemma run_steps_append: "run_steps (fs @ gs) c = bind_r (run_steps fs c) (run_steps gs)"
proof (induction fs arbitrary: c)
  case (Cons f fs)
  then show ?case by (cases "f c") simp_all
qed simp

lemmas keeps_dsn = keeps_assign [where P = "\<lambda>c. cf_DatabaseDSN c = x" for x]
  keeps_checked [where P = "\<lambda>c. cf_DatabaseDSN c = x" and R = "\<lambda>_. True" for x]

lemma later_steps_keep_dsn: "list_all (keeps (\<lambda>c. cf_DatabaseDSN c = x)) (drop (Suc (Suc (Suc (Suc (Suc 0))))) (load_steps lookup))"
  unfolding load_steps_def drop_Suc_Cons drop_0 list.pred_inject
proof (intro conjI TrueI)
  show "keeps (\<lambda>c. cf_DatabaseDSN c = x)
      (\<lambda>cfg. Inr (cfg\<lparr>cf_KafkaBrokers := stringSliceEnv lookup ''KAFKA_BROKERS'' (cf_KafkaBrokers cfg)\<rparr>))"
    by (auto simp: keeps_def)
qed (rule keeps_dsn, simp_all)+

lemma storage_dsn_wins:
  assumes "Load lookup = Inr c"
  shows "cf_DatabaseDSN c = stringEnv lookup ''STORAGE_DSN'' (stringEnv lookup ''DATABASE_DSN'' [])"
proof -
  let ?n = "Suc (Suc (Suc (Suc (Suc 0))))"
  let ?fs = "take ?n (load_steps lookup)" and ?gs = "drop ?n (load_steps lookup)"
  from assms have "run_steps (?fs @ ?gs) Default = Inr c" by (auto simp: Load_def bind_r_Inr_iff split: option.splits)
  then obtain c1 where c1: "run_steps ?fs Default = Inr c1" "run_steps ?gs c1 = Inr c"
    by (auto simp only: run_steps_append bind_r_Inr_iff)
  have "cf_DatabaseDSN c1 = stringEnv lookup ''STORAGE_DSN'' (stringEnv lookup ''DATABASE_DSN'' [])"
    using c1(1) by (auto simp: load_steps_def assign_def Default_def)
  then show ?thesis by (rule run_steps_keeps [OF later_steps_keep_dsn c1(2)])
qed

subsection \<open>Witnesses\<close>

lemma sample_load:
  assumes "\<And>k. nonblank (l k) = (if k = ''DATABASE_DSN'' then Some ''dsn'' else None)"
  shows "Load l = Inr (Default\<lparr>cf_DatabaseDSN := ''dsn''\<rparr>)"
proof -
  have trim: "TrimSpace ''dsn'' = ''dsn''" "TrimSpace ''127.0.0.1:19090'' = ''127.0.0.1:19090''"
    by (rule TrimSpace_graphic; simp add: graphic_def)+
  let ?l = "[''DATABASE_DSN'' \<mapsto> ''dsn'']"
  have "nonblank (?l k) = (if k = ''DATABASE_DSN'' then Some ''dsn'' else None)" for k by (simp add: nonblank_def trim)
  then have "Load l = Load ?l" by (intro Load_cong) (simp only: assms)
  also have "run_steps (load_steps ?l) Default = Inr (Default\<lparr>cf_DatabaseDSN := ''dsn''\<rparr>)"
    unfolding load_steps_def assign_def assign_checked_def stringEnv_def stringSliceEnv_def int32Env_def intEnv_def durationEnv_def
    by (simp add: trim)
  then have "Load ?l = (case Validate (Default\<lparr>cf_DatabaseDSN := ''dsn''\<rparr>) of Some e \<Rightarrow> Inl e | None \<Rightarrow> Inr (Default\<lparr>cf_DatabaseDSN := ''dsn''\<rparr>))"
    by (simp add: Load_def)
  also have "Validate (Default\<lparr>cf_DatabaseDSN := ''dsn''\<rparr>) = None"
    unfolding Validate_None config_checks_def
    by (simp add: Default_def trim ModeControlPlane_def second_def millisecond_def hour_def)
  finally show ?thesis by simp
qed

theorem loaded_config_is_coherent_witness:
  "\<exists>c. Load [''DATABASE_DSN'' \<mapsto> ''dsn''] = Inr c \<and> cf_LeaseRenewInterval c < cf_LeaseTTL c \<and> 0 < cf_TradeBatchSize c"
proof -
  have "TrimSpace ''dsn'' = ''dsn''" by (rule TrimSpace_graphic; simp add: graphic_def)
  then have l: "Load [''DATABASE_DSN'' \<mapsto> ''dsn''] = Inr (Default\<lparr>cf_DatabaseDSN := ''dsn''\<rparr>)"
    by (intro sample_load) (simp add: nonblank_def)
  from loaded_config_is_coherent [OF l] l show ?thesis by simp
qed

definition two_files :: "string \<Rightarrow> file_state" where
  "two_files path =
     (if path = ''.env'' then File False (render_env [(''DATABASE_DSN'', ''dsn'')])
      else if path = ''config.yaml'' then File False [] else Missing)"


end
