(* ===== verification/Migrations.thy ===== *)
theory Migrations
  imports Go_Strings Metadata_Store
begin

section \<open>Schema migrations: db/migrate.go\<close>

text \<open>
  Loading the embedded SQL files, applying what is missing in ascending order and rolling back in
  descending order. The content of the scripts is SQL that PostgreSQL interprets; what matters here is
  which scripts take effect and in which order. \<open>schema_db\<close> records the bookkeeping table and, in
  \<open>sd_log\<close>, every script that took effect. A script and its bookkeeping row are one transaction, so that
  both or neither take effect; its answer can be lost after the commit (\<open>stmt_fault\<close>).

  The lemmas show that loading yields increasing versions, and that however often and wherever \<open>Up\<close> fails,
  the scripts take effect once each and in order.
\<close>

record Migration =
  mn_Version :: goint
  mn_Name :: string
  mn_Up :: string
  mn_Down :: string

datatype migrate_error =
    InvalidFilename string
  | BadDirection string
  | MissingVersion string
  | NonNumericVersion string
  | ReadFails string
  | MissingUp goint string
  | MissingDown goint string
  | MigrateDatabaseError string
  | ApplyFails goint string
  | RollbackFails goint string

definition parseMigrationName :: "string \<Rightarrow> migrate_error + (goint \<times> string \<times> string)" where
  "parseMigrationName base =
     (case split_on CHR ''.'' base of
        [stem, direction, ext] \<Rightarrow>
          if ext \<noteq> ''sql'' then Inl (InvalidFilename base)
          else if direction \<noteq> ''up'' \<and> direction \<noteq> ''down'' then Inl (BadDirection base)
          else (case cut_first CHR ''_'' stem of
                  None \<Rightarrow> Inl (MissingVersion base)
                | Some (digits, name) \<Rightarrow>
                    if digits = [] then Inl (MissingVersion base)
                    else (case Atoi digits of
                            None \<Rightarrow> Inl (NonNumericVersion base)
                          | Some version \<Rightarrow> Inr (version, name, direction)))
      | _ \<Rightarrow> Inl (InvalidFilename base))"

text \<open>One file of the glob: a file that cannot be read has no content.\<close>

definition load_file :: "(goint, Migration) gomap \<Rightarrow> string \<times> string option \<Rightarrow> migrate_error + (goint, Migration) gomap" where
  "load_file byVersion file =
     (case file of (base, content) \<Rightarrow>
        (case parseMigrationName base of
           Inl e \<Rightarrow> Inl e
         | Inr (version, shortName, direction) \<Rightarrow>
             (case content of
                None \<Rightarrow> Inl (ReadFails base)
              | Some text \<Rightarrow>
                  let mig = (case map_of byVersion version of
                               None \<Rightarrow> \<lparr> mn_Version = version, mn_Name = shortName, mn_Up = [], mn_Down = [] \<rparr>
                             | Some mig \<Rightarrow> mig);
                      mig = (if direction = ''up'' then mig\<lparr>mn_Up := text\<rparr> else mig\<lparr>mn_Down := text\<rparr>)
                  in Inr (AList.update version mig byVersion))))"

fun load_files :: "(goint, Migration) gomap \<Rightarrow> (string \<times> string option) list \<Rightarrow> migrate_error + (goint, Migration) gomap" where
  "load_files byVersion [] = Inr byVersion"
| "load_files byVersion (f # fs) = bind_r (load_file byVersion f) (\<lambda>m. load_files m fs)"

definition missing_script :: "Migration \<Rightarrow> migrate_error option" where
  "missing_script mig =
     (if TrimSpace (mn_Up mig) = [] then Some (MissingUp (mn_Version mig) (mn_Name mig))
      else if TrimSpace (mn_Down mig) = [] then Some (MissingDown (mn_Version mig) (mn_Name mig))
      else None)"

definition loadMigrations :: "(string \<times> string option) list \<Rightarrow> migrate_error + Migration list" where
  "loadMigrations files =
     bind_r (load_files [] files) (\<lambda>byVersion.
       case List.map_filter missing_script (map snd byVersion) of
         e # _ \<Rightarrow> Inl e
       | [] \<Rightarrow> Inr (sort_key mn_Version (map snd byVersion)))"

definition quoteLiteral :: "string \<Rightarrow> string" where
  "quoteLiteral s = CHR 0x27 # concat (map (\<lambda>c. if c = CHR 0x27 then [CHR 0x27, CHR 0x27] else [c]) s) @ [CHR 0x27]"

subsection \<open>Applying and rolling back\<close>

datatype script = ScriptUp goint | ScriptDown goint

record schema_db =
  sd_versions :: "(goint \<times> string) list"
  sd_log :: "script list"

record migrate_faults =
  mf_ensure :: bool
  mf_list :: bool
  mf_script :: "goint \<Rightarrow> stmt_fault"

definition exec_script :: "stmt_fault \<Rightarrow> migrate_error \<Rightarrow> schema_db option \<Rightarrow> schema_db \<Rightarrow> migrate_error option \<times> schema_db" where
  "exec_script fault e committed db =
     (case (fault, committed) of
        (StmtOk, Some db') \<Rightarrow> (None, db')
      | (StmtLost, Some db') \<Rightarrow> (Some e, db')
      | _ \<Rightarrow> (Some e, db))"

text \<open>The effect of the two scripts; the bookkeeping table has the version as its primary key.\<close>

definition up_script :: "Migration \<Rightarrow> schema_db \<Rightarrow> schema_db option" where
  "up_script mig db =
     (if mn_Version mig \<in> fst ` set (sd_versions db) then None
      else Some (db\<lparr> sd_versions := sd_versions db @ [(mn_Version mig, mn_Name mig)],
                     sd_log := sd_log db @ [ScriptUp (mn_Version mig)] \<rparr>))"

definition down_script :: "Migration \<Rightarrow> schema_db \<Rightarrow> schema_db option" where
  "down_script mig db =
     Some (db\<lparr> sd_versions := filter (\<lambda>(v, n). v \<noteq> mn_Version mig) (sd_versions db),
               sd_log := sd_log db @ [ScriptDown (mn_Version mig)] \<rparr>)"

fun up_loop :: "(goint \<Rightarrow> stmt_fault) \<Rightarrow> goint set \<Rightarrow> Migration list \<Rightarrow> schema_db \<Rightarrow> migrate_error option \<times> schema_db" where
  "up_loop faults applied [] db = (None, db)"
| "up_loop faults applied (mig # migs) db =
     (if mn_Version mig \<in> applied then up_loop faults applied migs db
      else (case exec_script (faults (mn_Version mig)) (ApplyFails (mn_Version mig) (mn_Name mig)) (up_script mig db) db of
              (Some e, db) \<Rightarrow> (Some e, db)
            | (None, db) \<Rightarrow> up_loop faults applied migs db))"

fun down_loop :: "(goint \<Rightarrow> stmt_fault) \<Rightarrow> goint set \<Rightarrow> Migration list \<Rightarrow> schema_db \<Rightarrow> migrate_error option \<times> schema_db" where
  "down_loop faults applied [] db = (None, db)"
| "down_loop faults applied (mig # migs) db =
     (if mn_Version mig \<notin> applied then down_loop faults applied migs db
      else (case exec_script (faults (mn_Version mig)) (RollbackFails (mn_Version mig) (mn_Name mig)) (down_script mig db) db of
              (Some e, db) \<Rightarrow> (Some e, db)
            | (None, db) \<Rightarrow> down_loop faults applied migs db))"

definition appliedVersions :: "schema_db \<Rightarrow> goint set" where
  "appliedVersions db = fst ` set (sd_versions db)"

definition Up :: "migrate_faults \<Rightarrow> Migration list \<Rightarrow> schema_db \<Rightarrow> migrate_error option \<times> schema_db" where
  "Up mf migs db =
     (if mf_ensure mf then (Some (MigrateDatabaseError ''ensure schema_migrations''), db)
      else if mf_list mf then (Some (MigrateDatabaseError ''list applied migrations''), db)
      else up_loop (mf_script mf) (appliedVersions db) migs db)"

definition Down :: "migrate_faults \<Rightarrow> Migration list \<Rightarrow> schema_db \<Rightarrow> migrate_error option \<times> schema_db" where
  "Down mf migs db =
     (if mf_ensure mf then (Some (MigrateDatabaseError ''ensure schema_migrations''), db)
      else if mf_list mf then (Some (MigrateDatabaseError ''list applied migrations''), db)
      else down_loop (mf_script mf) (appliedVersions db) (rev migs) db)"

definition schema_version :: "migrate_faults \<Rightarrow> schema_db \<Rightarrow> migrate_error + goint" where
  "schema_version mf db =
     (if mf_ensure mf then Inl (MigrateDatabaseError ''ensure schema_migrations'')
      else if mf_list mf then Inl (MigrateDatabaseError ''read schema version'')
      else Inr (if sd_versions db = [] then 0 else Max (fst ` set (sd_versions db))))"

subsection \<open>Loading\<close>

lemma load_files_keys:
  assumes "load_files m files = Inr m'" "gomap_ok m" "\<forall>(v, mig) \<in> set m. mn_Version mig = v"
  shows "gomap_ok m' \<and> (\<forall>(v, mig) \<in> set m'. mn_Version mig = v)"
  using assms
proof (induction files arbitrary: m)
  case (Cons f files)
  then obtain m1 where m1: "load_file m f = Inr m1" "load_files m1 files = Inr m'"
    by (auto simp: bind_r_Inr_iff)
  have keyed: "mn_Version mig = v" if "map_of m v = Some mig" for v mig
    using that Cons.prems(3) map_of_SomeD by fastforce
  from m1(1) obtain v mig where up: "m1 = AList.update v mig m" "mn_Version mig = v"
    using keyed by (auto simp: load_file_def Let_def split: prod.splits sum.splits option.splits if_splits simp del: map_of_eq_Some_iff)
  have ok1: "gomap_ok m1" using Cons.prems(2) by (simp add: up)
  have "mn_Version q = p" if "(p, q) \<in> set m1" for p q
  proof -
    have "map_of m1 p = Some q" using that ok1 gomap_ok_mem_iff by metis
    then show ?thesis using up(2) keyed by (cases "p = v") (simp_all add: up(1) update_conv' del: map_of_eq_Some_iff)
  qed
  then have "\<forall>(v, mig) \<in> set m1. mn_Version mig = v" by blast
  from Cons.IH [OF m1(2) ok1 this] show ?case .
qed simp

lemma loaded_versions:
  assumes "loadMigrations files = Inr migs"
  shows "sorted (map mn_Version migs)" "distinct (map mn_Version migs)"
    "mig \<in> set migs \<Longrightarrow> TrimSpace (mn_Up mig) \<noteq> [] \<and> TrimSpace (mn_Down mig) \<noteq> []"
proof -
  from assms obtain m where m1: "load_files [] files = Inr m"
    "(case List.map_filter missing_script (map snd m) of e # _ \<Rightarrow> Inl e
      | [] \<Rightarrow> Inr (sort_key mn_Version (map snd m))) = Inr migs"
    by (auto simp: loadMigrations_def bind_r_Inr_iff)
  then have m: "load_files [] files = Inr m" "List.map_filter missing_script (map snd m) = []"
    "migs = sort_key mn_Version (map snd m)"
    by (cases "List.map_filter missing_script (map snd m)"; simp)+
  from load_files_keys [OF m(1)] have keys: "gomap_ok m" "\<forall>(v, mig) \<in> set m. mn_Version mig = v" by simp_all
  have "map mn_Version (map snd m) = map fst m" using keys(2) by (induction m) auto
  then have "distinct (map mn_Version (map snd m))" using keys(1) by (simp only:)
  moreover have "mset (map mn_Version migs) = mset (map mn_Version (map snd m))"
    unfolding m(3) mset_map by simp
  ultimately show "distinct (map mn_Version migs)" using mset_eq_imp_distinct_iff by blast
  show "sorted (map mn_Version migs)" by (simp add: m(3))
  assume "mig \<in> set migs"
  then have "missing_script mig = None" using m(2) by (fastforce simp: m(3) List.map_filter_def filter_empty_conv)
  then show "TrimSpace (mn_Up mig) \<noteq> [] \<and> TrimSpace (mn_Down mig) \<noteq> []" by (simp add: missing_script_def split: if_splits)
qed

subsection \<open>Exactly once, in order\<close>

definition at_step :: "Migration list \<Rightarrow> nat \<Rightarrow> schema_db \<Rightarrow> bool" where
  "at_step migs k db \<longleftrightarrow> k \<le> length migs \<and>
     sd_versions db = map (\<lambda>m. (mn_Version m, mn_Name m)) (take k migs) \<and>
     sd_log db = map (ScriptUp \<circ> mn_Version) (take k migs)"

lemma up_loop_steps:
  assumes "at_step migs k db" "distinct (map mn_Version migs)" "drop k migs = rest"
    and "applied \<inter> mn_Version ` set rest = {}" "up_loop faults applied rest db = (e, db')"
  shows "\<exists>k'\<ge>k. at_step migs k' db' \<and> (e = None \<longrightarrow> k' = length migs) \<and> (e \<noteq> None \<longrightarrow> (\<exists>v. faults v \<noteq> StmtOk))"
  using assms
proof (induction rest arbitrary: k db)
  case Nil
  then show ?case by (auto simp: at_step_def intro!: exI [of _ k])
next
  case (Cons mig rest)
  have k: "k < length migs" using Cons.prems(3) by (cases "k < length migs") simp_all
  have dk: "migs ! k = mig" "drop (Suc k) migs = rest" using Cons.prems(3) Cons_nth_drop_Suc [OF k] by simp_all
  have next_take: "take (Suc k) migs = take k migs @ [mig]" using take_Suc_conv_app_nth [OF k] dk(1) by simp
  have new: "mn_Version mig \<notin> mn_Version ` set (take k migs)"
  proof -
    have "distinct (map mn_Version (take (Suc k) migs))" using Cons.prems(2) by (metis distinct_take take_map)
    then show ?thesis by (simp add: next_take)
  qed
  let ?db = "db\<lparr> sd_versions := sd_versions db @ [(mn_Version mig, mn_Name mig)], sd_log := sd_log db @ [ScriptUp (mn_Version mig)] \<rparr>"
  have us: "up_script mig db = Some ?db" using new Cons.prems(1) by (simp add: up_script_def at_step_def image_image)
  have st: "at_step migs (Suc k) ?db" using Cons.prems(1) k by (simp add: at_step_def next_take)
  have notin: "mn_Version mig \<notin> applied" "applied \<inter> mn_Version ` set rest = {}" using Cons.prems(4) by auto
  show ?case
  proof (cases "faults (mn_Version mig)")
    case StmtOk
    then have "up_loop faults applied rest ?db = (e, db')" using Cons.prems(5) notin us by (simp add: exec_script_def)
    from Cons.IH [OF st Cons.prems(2) dk(2) notin(2) this] obtain k' where "Suc k \<le> k' \<and> at_step migs k' db' \<and>
      (e = None \<longrightarrow> k' = length migs) \<and> (e \<noteq> None \<longrightarrow> (\<exists>v. faults v \<noteq> StmtOk))" by (rule exE)
    then show ?thesis by (intro exI [of _ k']) simp
  next
    case StmtFails
    then have "e \<noteq> None" "db' = db" using Cons.prems(5) notin us by (auto simp: exec_script_def)
    with Cons.prems(1) StmtFails show ?thesis by (auto intro!: exI [of _ k] exI [of _ "mn_Version mig"])
  next
    case StmtLost
    then have "e \<noteq> None" "db' = ?db" using Cons.prems(5) notin us by (auto simp: exec_script_def)
    with st StmtLost show ?thesis by (auto intro!: exI [of _ "Suc k"] exI [of _ "mn_Version mig"])
  qed
qed

lemma up_steps:
  assumes "at_step migs k db" "distinct (map mn_Version migs)" "Up mf migs db = (e, db')"
  shows "\<exists>k'. k \<le> k' \<and> at_step migs k' db' \<and> (e = None \<longrightarrow> k' = length migs) \<and>
    (e \<noteq> None \<longrightarrow> mf_ensure mf \<or> mf_list mf \<or> (\<exists>v. mf_script mf v \<noteq> StmtOk))"
proof (cases "mf_ensure mf \<or> mf_list mf")
  case True
  then have "db' = db" "e \<noteq> None" using assms(3) by (auto simp: Up_def split: if_splits)
  with assms(1) True show ?thesis by (intro exI [of _ k]) auto
next
  case False
  have ap: "appliedVersions db = mn_Version ` set (take k migs)"
    using assms(1) by (simp add: appliedVersions_def at_step_def image_image)
  have skip: "up_loop faults (mn_Version ` set xs) (xs' @ ys) d = up_loop faults (mn_Version ` set xs) ys d"
    if "set xs' \<subseteq> set xs" for faults xs xs' ys d
    using that by (induction xs') auto
  have run: "up_loop (mf_script mf) (appliedVersions db) (drop k migs) db = (e, db')"
    using assms(3) False skip [of "take k migs" "take k migs" "mf_script mf" "drop k migs" db] by (simp add: Up_def ap)
  have new: "appliedVersions db \<inter> mn_Version ` set (drop k migs) = {}"
    using assms(2) distinct_append [of "map mn_Version (take k migs)" "map mn_Version (drop k migs)"]
    by (simp add: ap flip: map_append)
  obtain k' where "k \<le> k' \<and> at_step migs k' db' \<and> (e = None \<longrightarrow> k' = length migs) \<and>
      (e \<noteq> None \<longrightarrow> (\<exists>v. mf_script mf v \<noteq> StmtOk))" using up_loop_steps [OF assms(1,2) refl new run] by (rule exE)
  then show ?thesis by (intro exI [of _ k']) simp
qed

lemma down_loop_quiet:
  assumes "\<And>v. faults v = StmtOk" "mn_Version ` set ms \<subseteq> applied"
  shows "down_loop faults applied ms db =
    (None, db\<lparr> sd_versions := filter (\<lambda>(v, n). v \<notin> mn_Version ` set ms) (sd_versions db),
                sd_log := sd_log db @ map (ScriptDown \<circ> mn_Version) ms \<rparr>)"
  using assms(2)
proof (induction ms arbitrary: db)
  case (Cons m ms)
  let ?d = "db\<lparr> sd_versions := filter (\<lambda>(v, n). v \<noteq> mn_Version m) (sd_versions db), sd_log := sd_log db @ [ScriptDown (mn_Version m)] \<rparr>"
  have "down_loop faults applied (m # ms) db = down_loop faults applied ms ?d"
    using Cons.prems assms(1) by (simp add: exec_script_def down_script_def)
  also have "\<dots> = (None, ?d\<lparr> sd_versions := filter (\<lambda>(v, n). v \<notin> mn_Version ` set ms) (sd_versions ?d),
      sd_log := sd_log ?d @ map (ScriptDown \<circ> mn_Version) ms \<rparr>)" by (rule Cons.IH) (use Cons.prems in simp)
  also have "filter (\<lambda>(v, n). v \<notin> mn_Version ` set ms) (sd_versions ?d) =
      filter (\<lambda>(v, n). v \<notin> mn_Version ` set (m # ms)) (sd_versions db)" by (auto intro!: filter_cong)
  finally show ?case by simp
qed (simp add: case_prod_unfold)

lemma down_all:
  assumes "at_step migs k db" "distinct (map mn_Version migs)"
    and "\<not> mf_ensure mf" "\<not> mf_list mf" "\<And>v. mf_script mf v = StmtOk"
  shows "\<exists>db'. Down mf migs db = (None, db') \<and> sd_versions db' = [] \<and>
    sd_log db' = sd_log db @ map (ScriptDown \<circ> mn_Version) (rev (take k migs))"
proof -
  have ap: "appliedVersions db = mn_Version ` set (take k migs)"
    using assms(1) by (simp add: appliedVersions_def at_step_def image_image)
  have "mn_Version ` set (take k migs) \<inter> mn_Version ` set (drop k migs) = {}"
    using assms(2) distinct_append [of "map mn_Version (take k migs)" "map mn_Version (drop k migs)"]
    by (simp flip: map_append)
  then have fresh: "mn_Version ` set (rev (drop k migs)) \<inter> appliedVersions db = {}" using ap by auto
  have skip: "down_loop faults A (xs @ ys) d = down_loop faults A ys d" if "mn_Version ` set xs \<inter> A = {}" for faults A xs ys d
    using that by (induction xs) auto
  have "Down mf migs db = down_loop (mf_script mf) (appliedVersions db) (rev (drop k migs) @ rev (take k migs)) db"
    using assms(3,4) by (simp add: Down_def flip: rev_append)
  also have "\<dots> = down_loop (mf_script mf) (appliedVersions db) (rev (take k migs)) db" by (rule skip [OF fresh])
  finally show ?thesis
    using down_loop_quiet [where ms = "rev (take k migs)" and applied = "appliedVersions db" and db = db, OF assms(5)] ap assms(1)
    by (auto simp: at_step_def filter_empty_conv)
qed

definition empty_schema :: schema_db where
  "empty_schema = \<lparr> sd_versions = [], sd_log = [] \<rparr>"

lemma attempts_at_step:
  assumes "loadMigrations files = Inr migs"
  shows "\<exists>k. at_step migs k (foldl (\<lambda>db mf. snd (Up mf migs db)) empty_schema attempts)"
proof -
  have step: "\<exists>k'. at_step migs k' (snd (Up mf migs db))" if "at_step migs k db" for k db mf
    using up_steps [OF that loaded_versions(2) [OF assms], of mf] by (metis prod.collapse)
  show ?thesis
    by (induction attempts rule: rev_induct) (auto simp: step, auto simp: at_step_def empty_schema_def intro!: exI [of _ 0])
qed

text \<open>
  C29. Migrating is safe to repeat: after any number of attempts, each failing wherever it may (also with
  the answer of a committed script lost), the scripts that took effect are the first ones in ascending
  order of version, each exactly once, and the bookkeeping table lists exactly these; an attempt without
  a fault completes the schema, and a rollback without a fault undoes exactly the scripts that took effect,
  in the opposite order, and empties the table.
\<close>

theorem migrations_once_in_order:
  assumes "loadMigrations files = Inr migs"
    and "db = foldl (\<lambda>db mf. snd (Up mf migs db)) empty_schema attempts"
  shows "(\<exists>k. sd_log db = map (ScriptUp \<circ> mn_Version) (take k migs) \<and>
       sd_versions db = map (\<lambda>m. (mn_Version m, mn_Name m)) (take k migs) \<and>
       (\<not> mf_ensure mf \<and> \<not> mf_list mf \<and> (\<forall>v. mf_script mf v = StmtOk) \<longrightarrow>
          (\<exists>db'. Down mf migs db = (None, db') \<and> sd_versions db' = [] \<and>
             sd_log db' = sd_log db @ map (ScriptDown \<circ> mn_Version) (rev (take k migs))))) \<and>
    sorted_wrt (<) (map mn_Version migs) \<and>
    (\<not> mf_ensure mf \<and> \<not> mf_list mf \<and> (\<forall>v. mf_script mf v = StmtOk) \<longrightarrow>
       fst (Up mf migs db) = None \<and> sd_log (snd (Up mf migs db)) = map (ScriptUp \<circ> mn_Version) migs)"
proof -
  note v = loaded_versions [OF assms(1)]
  obtain k where k: "at_step migs k db" using attempts_at_step [OF assms(1)] assms(2) by blast
  obtain e db' where up: "Up mf migs db = (e, db')" by fastforce
  from up_steps [OF k v(2) up] have "e = None \<and> sd_log db' = map (ScriptUp \<circ> mn_Version) migs"
    if "\<not> mf_ensure mf \<and> \<not> mf_list mf \<and> (\<forall>v. mf_script mf v = StmtOk)" using that by (auto simp: at_step_def)
  moreover have "\<exists>db'. Down mf migs db = (None, db') \<and> sd_versions db' = [] \<and>
      sd_log db' = sd_log db @ map (ScriptDown \<circ> mn_Version) (rev (take k migs))"
    if "\<not> mf_ensure mf \<and> \<not> mf_list mf \<and> (\<forall>v. mf_script mf v = StmtOk)"
    using down_all [OF k v(2)] that by blast
  moreover have "sorted_wrt (<) (map mn_Version migs)" using v(1,2) strict_sorted_iff by blast
  moreover have "sd_log db = map (ScriptUp \<circ> mn_Version) (take k migs)"
    "sd_versions db = map (\<lambda>m. (mn_Version m, mn_Name m)) (take k migs)" using k by (simp_all add: at_step_def)
  ultimately show ?thesis unfolding up fst_conv snd_conv by blast
qed

subsection \<open>Witness\<close>

definition sample_files :: "(string \<times> string option) list" where
  "sample_files = [(''2_b.down.sql'', Some ''d''), (''2_b.up.sql'', Some ''c''), (''1_a.up.sql'', Some ''a''),
     (''1_a.down.sql'', Some ''b'')]"

definition sample_migrations :: "Migration list" where
  "sample_migrations = [\<lparr> mn_Version = 1, mn_Name = ''a'', mn_Up = ''a'', mn_Down = ''b'' \<rparr>,
     \<lparr> mn_Version = 2, mn_Name = ''b'', mn_Up = ''c'', mn_Down = ''d'' \<rparr>]"

definition lost_at :: "goint \<Rightarrow> migrate_faults" where
  "lost_at v = \<lparr> mf_ensure = False, mf_list = False, mf_script = (\<lambda>w. if w = v then StmtLost else StmtOk) \<rparr>"

lemma sample_names:
  "parseMigrationName ''2_b.down.sql'' = Inr (2, ''b'', ''down'')" "parseMigrationName ''2_b.up.sql'' = Inr (2, ''b'', ''up'')"
  "parseMigrationName ''1_a.up.sql'' = Inr (1, ''a'', ''up'')" "parseMigrationName ''1_a.down.sql'' = Inr (1, ''a'', ''down'')"
  by (simp_all add: parseMigrationName_def cut_first_def Atoi_def ParseInt_def split_sign_def
      parse_unsigned_def digits_val_def digit_val_def is_digit_def go_simps)

lemma sample_loaded: "loadMigrations sample_files = Inr sample_migrations"
  by (simp add: loadMigrations_def sample_files_def load_file_def sample_names missing_script_def
      sample_migrations_def List.map_filter_simps TrimSpace_graphic graphic_def go_simps)

theorem migrations_once_in_order_witness:
  "let db = snd (Up (lost_at 1) sample_migrations empty_schema)
   in sorted_wrt (<) (map mn_Version sample_migrations) \<and>
      sd_log (snd (Up (lost_at 0) sample_migrations db)) = [ScriptUp 1, ScriptUp 2]"
proof -
  let ?db = "foldl (\<lambda>db mf. snd (Up mf sample_migrations db)) empty_schema [lost_at 1]"
  let ?mf = "\<lparr> mf_ensure = False, mf_list = False, mf_script = (\<lambda>_. StmtOk) \<rparr>"
  have "sorted_wrt (<) (map mn_Version sample_migrations)"
    using migrations_once_in_order [OF sample_loaded refl, where attempts = "[lost_at 1]"] by blast
  moreover have "sd_log (snd (Up (lost_at 0) sample_migrations (snd (Up (lost_at 1) sample_migrations empty_schema)))) =
      [ScriptUp 1, ScriptUp 2]"
    by (simp add: Up_def lost_at_def sample_migrations_def empty_schema_def appliedVersions_def exec_script_def up_script_def)
  ultimately show ?thesis by (simp only: Let_def)
qed

end
