(* ===== verification/Observability.thy ===== *)
theory Observability
  imports Complex_Main Go_Strings
begin

section \<open>Metrics, health and readiness: internal/observability/metrics.go\<close>

text \<open>
  The registry of counters, gauges and histograms with its text rendering, the recording functions of the
  process-wide registry as events, and the two probes. Counters are 64-bit and wrap. A \<open>float64\<close> is its
  rational value; its addition (\<open>fadd\<close>) and the \<open>%g\<close> format (\<open>fmt_g\<close>) are parameters. Methods with a mutex
  are atomic, so concurrent recording is a sequence of events.

  The lemmas show that a histogram reports exactly how many observations lie below each bound, that recording
  never changes the shape of a histogram, and that the heartbeat gauge is constant.
\<close>

subsection \<open>Histograms\<close>

record Histogram =
  hg_buckets :: "rat list"
  hg_counts :: "int64 list"
  hg_sum :: rat
  hg_total :: int64

definition NewHistogram :: "rat list \<Rightarrow> Histogram" where
  "NewHistogram buckets =
     \<lparr> hg_buckets = buckets, hg_counts = replicate (length buckets + 1) 0, hg_sum = 0, hg_total = 0 \<rparr>"

text \<open>The index the loop of \<open>Observe\<close> stops at: the first bound that is not exceeded, or the last slot.\<close>

fun bucket_index :: "rat list \<Rightarrow> rat \<Rightarrow> nat" where
  "bucket_index [] v = 0"
| "bucket_index (upper # bs) v = (if v \<le> upper then 0 else Suc (bucket_index bs v))"

definition Observe :: "(rat \<Rightarrow> rat \<Rightarrow> rat) \<Rightarrow> rat \<Rightarrow> Histogram \<Rightarrow> Histogram" where
  "Observe fadd v h =
     (let i = bucket_index (hg_buckets h) v in
      h\<lparr> hg_sum := fadd (hg_sum h) v, hg_total := wrap64 (hg_total h + 1),
         hg_counts := (hg_counts h)[i := wrap64 (hg_counts h ! i + 1)] \<rparr>)"

definition DefaultLatencyBuckets :: "rat list" where
  "DefaultLatencyBuckets = [1, 5, 10, 25, 50, 100, 250, 500, 1000, 2500, 5000]"

subsection \<open>The registry\<close>

record Registry =
  rg_counters :: "(string, int64) gomap"
  rg_gauges :: "(string, int64) gomap"
  rg_histograms :: "(string, Histogram) gomap"
  rg_helps :: "(string, string) gomap"
  rg_labels :: "(string, string) gomap"

definition NewRegistry :: "(string, string) gomap \<Rightarrow> Registry" where
  "NewRegistry labels =
     \<lparr> rg_counters = [], rg_gauges = [], rg_histograms = [], rg_helps = [], rg_labels = labels \<rparr>"

text \<open>The three accessors create a missing metric; the pointer they return is the entry under its name.\<close>

definition Counter :: "string \<Rightarrow> string \<Rightarrow> Registry \<Rightarrow> Registry" where
  "Counter name help r =
     (case map_of (rg_counters r) name of
        Some c \<Rightarrow> r
      | None \<Rightarrow> r\<lparr>rg_counters := AList.update name 0 (rg_counters r), rg_helps := AList.update name help (rg_helps r)\<rparr>)"

definition Gauge :: "string \<Rightarrow> string \<Rightarrow> Registry \<Rightarrow> Registry" where
  "Gauge name help r =
     (case map_of (rg_gauges r) name of
        Some g \<Rightarrow> r
      | None \<Rightarrow> r\<lparr>rg_gauges := AList.update name 0 (rg_gauges r), rg_helps := AList.update name help (rg_helps r)\<rparr>)"

definition Registry_Histogram :: "string \<Rightarrow> string \<Rightarrow> rat list \<Rightarrow> Registry \<Rightarrow> Registry" where
  "Registry_Histogram name help buckets r =
     (case map_of (rg_histograms r) name of
        Some h \<Rightarrow> r
      | None \<Rightarrow> r\<lparr>rg_histograms := AList.update name (NewHistogram buckets) (rg_histograms r),
                   rg_helps := AList.update name help (rg_helps r)\<rparr>)"

definition counter_value :: "Registry \<Rightarrow> string \<Rightarrow> int64" where
  "counter_value r name = (case map_of (rg_counters r) name of None \<Rightarrow> 0 | Some c \<Rightarrow> c)"

definition counter_Add :: "string \<Rightarrow> string \<Rightarrow> int64 \<Rightarrow> Registry \<Rightarrow> Registry" where
  "counter_Add name help n r =
     (let r = Counter name help r in
      r\<lparr>rg_counters := AList.update name (wrap64 (counter_value r name + n)) (rg_counters r)\<rparr>)"

definition gauge_Set :: "string \<Rightarrow> string \<Rightarrow> int64 \<Rightarrow> Registry \<Rightarrow> Registry" where
  "gauge_Set name help v r =
     (let r = Gauge name help r in r\<lparr>rg_gauges := AList.update name v (rg_gauges r)\<rparr>)"

definition histogram_Observe :: "(rat \<Rightarrow> rat \<Rightarrow> rat) \<Rightarrow> string \<Rightarrow> string \<Rightarrow> rat list \<Rightarrow> rat \<Rightarrow> Registry \<Rightarrow> Registry" where
  "histogram_Observe fadd name help buckets v r =
     (let r = Registry_Histogram name help buckets r in
      case map_of (rg_histograms r) name of
        None \<Rightarrow> r
      | Some h \<Rightarrow> r\<lparr>rg_histograms := AList.update name (Observe fadd v h) (rg_histograms r)\<rparr>)"

subsection \<open>Rendering\<close>

definition sortedKeys :: "(string, 'a) gomap \<Rightarrow> string list" where
  "sortedKeys m = sort (map fst m)"

definition quoted :: "string \<Rightarrow> string \<Rightarrow> string" where
  "quoted k v = k @ ''=\"'' @ v @ ''\"''"

definition entry :: "(string, 'a) gomap \<Rightarrow> 'a \<Rightarrow> string \<Rightarrow> 'a" where
  "entry m zero k = (case map_of m k of None \<Rightarrow> zero | Some v \<Rightarrow> v)"

definition static_labels :: "Registry \<Rightarrow> string" where
  "static_labels r =
     (if rg_labels r = [] then []
      else ''{'' @ Join (map (\<lambda>k. quoted k (entry (rg_labels r) [] k)) (sortedKeys (rg_labels r))) '','' @ ''}'')"

definition histogramLabels :: "string \<Rightarrow> string \<Rightarrow> string" where
  "histogramLabels staticLabels le =
     (if staticLabels = [] then ''{'' @ quoted ''le'' le @ ''}''
      else butlast staticLabels @ '','' @ quoted ''le'' le @ ''}'')"

definition newline :: string where
  "newline = [CHR 0x0A]"

definition sample_line :: "string \<Rightarrow> string \<Rightarrow> string \<Rightarrow> string" where
  "sample_line name labels v = name @ labels @ '' '' @ v @ newline"

definition header_lines :: "Registry \<Rightarrow> string \<Rightarrow> string \<Rightarrow> string" where
  "header_lines r name kind =
     ''# HELP '' @ name @ '' '' @ entry (rg_helps r) [] name @ newline @ ''# TYPE '' @ name @ '' '' @ kind @ newline"

definition cumulative :: "int64 list \<Rightarrow> nat \<Rightarrow> int64" where
  "cumulative counts i = foldl (\<lambda>cum c. wrap64 (cum + c)) 0 (take (Suc i) counts)"

definition render_histogram :: "(rat \<Rightarrow> string) \<Rightarrow> string \<Rightarrow> string \<Rightarrow> Histogram \<Rightarrow> string" where
  "render_histogram fmt_g labels name h =
     concat (map (\<lambda>i. sample_line (name @ ''_bucket'') (histogramLabels labels (fmt_g (hg_buckets h ! i)))
                        (FormatInt (cumulative (hg_counts h) i))) [0..<length (hg_buckets h)]) @
     sample_line (name @ ''_bucket'') (histogramLabels labels ''+Inf'') (FormatInt (hg_total h)) @
     sample_line (name @ ''_sum'') labels (fmt_g (hg_sum h)) @
     sample_line (name @ ''_count'') labels (FormatInt (hg_total h))"

definition serveMetrics :: "(rat \<Rightarrow> string) \<Rightarrow> Registry \<Rightarrow> string" where
  "serveMetrics fmt_g r =
     (let labels = static_labels r in
      concat (map (\<lambda>name. header_lines r name ''counter'' @
                sample_line name labels (FormatInt (entry (rg_counters r) 0 name))) (sortedKeys (rg_counters r))) @
      concat (map (\<lambda>name. header_lines r name ''gauge'' @
                sample_line name labels (FormatInt (entry (rg_gauges r) 0 name))) (sortedKeys (rg_gauges r))) @
      concat (map (\<lambda>name. header_lines r name ''histogram'' @
                render_histogram fmt_g labels name (entry (rg_histograms r) (NewHistogram []) name))
              (sortedKeys (rg_histograms r))))"

text \<open>\<open>Handler\<close>: the metrics under their path, an empty reply elsewhere.\<close>

definition metrics_Handler :: "(rat \<Rightarrow> string) \<Rightarrow> Registry \<Rightarrow> string \<Rightarrow> goint \<times> string" where
  "metrics_Handler fmt_g r path = (if path = ''/metrics'' then (200, serveMetrics fmt_g r) else (204, []))"

subsection \<open>Probes\<close>

definition HealthHandler :: "goint \<times> (string \<times> string) list" where
  "HealthHandler = (200, [(''status'', ''ok'')])"

definition ReadinessHandler :: "string option \<Rightarrow> goint \<times> (string \<times> string) list" where
  "ReadinessHandler check =
     (case check of
        Some err \<Rightarrow> (503, [(''status'', ''not ready''), (''error'', err)])
      | None \<Rightarrow> (200, [(''status'', ''ready'')]))"

subsection \<open>Recording\<close>

definition MetricHeartbeatAgeSec :: string where "MetricHeartbeatAgeSec = ''marketdata_runtime_heartbeat_age_seconds''"
definition MetricOwnedGroups :: string where "MetricOwnedGroups = ''marketdata_runtime_owned_groups''"
definition MetricProcessedTotal :: string where "MetricProcessedTotal = ''marketdata_runtime_processed_messages_total''"
definition MetricWriteErrorsTotal :: string where "MetricWriteErrorsTotal = ''marketdata_runtime_write_errors_total''"
definition MetricDecodeErrorsTotal :: string where "MetricDecodeErrorsTotal = ''marketdata_runtime_decode_errors_total''"
definition MetricLeaseFailures :: string where "MetricLeaseFailures = ''marketdata_runtime_lease_renew_failures_total''"
definition MetricStorageWriteLatency :: string where "MetricStorageWriteLatency = ''marketdata_storage_write_latency_ms''"

lemmas metric_names = MetricHeartbeatAgeSec_def MetricOwnedGroups_def MetricProcessedTotal_def MetricWriteErrorsTotal_def
  MetricDecodeErrorsTotal_def MetricLeaseFailures_def MetricStorageWriteLatency_def

text \<open>The functions of the package on the process-wide registry; without a registry they do nothing.\<close>

definition IncProcessedTotal :: "int64 \<Rightarrow> Registry option \<Rightarrow> Registry option" where
  "IncProcessedTotal n = map_option (counter_Add MetricProcessedTotal ''Total number of messages decoded and persisted'' n)"

definition IncWriteErrors :: "Registry option \<Rightarrow> Registry option" where
  "IncWriteErrors = map_option (counter_Add MetricWriteErrorsTotal ''Total number of database write failures'' 1)"

definition IncDecodeErrors :: "Registry option \<Rightarrow> Registry option" where
  "IncDecodeErrors = map_option (counter_Add MetricDecodeErrorsTotal ''Total number of message decode/validation failures'' 1)"

definition IncLeaseFailures :: "Registry option \<Rightarrow> Registry option" where
  "IncLeaseFailures = map_option (counter_Add MetricLeaseFailures ''Total number of group lease renewal failures'' 1)"

definition ObserveWriteLatencyMs :: "(rat \<Rightarrow> rat \<Rightarrow> rat) \<Rightarrow> rat \<Rightarrow> Registry option \<Rightarrow> Registry option" where
  "ObserveWriteLatencyMs fadd ms = map_option (histogram_Observe fadd MetricStorageWriteLatency
     ''Database write latency in milliseconds'' DefaultLatencyBuckets ms)"

definition SetOwnedGroups :: "int64 \<Rightarrow> Registry option \<Rightarrow> Registry option" where
  "SetOwnedGroups n = map_option (gauge_Set MetricOwnedGroups ''Number of MarketGroups currently owned by this runtime'' n)"

definition ReportHeartbeat :: "Registry option \<Rightarrow> Registry option" where
  "ReportHeartbeat = map_option (gauge_Set MetricHeartbeatAgeSec ''Seconds since last successful runtime heartbeat'' 0)"

datatype metric_event =
    Processed int64 | WriteError | DecodeError | LeaseFailure | WriteLatency rat | OwnedGroups int64 | Heartbeat

fun metric_step :: "(rat \<Rightarrow> rat \<Rightarrow> rat) \<Rightarrow> Registry option \<Rightarrow> metric_event \<Rightarrow> Registry option" where
  "metric_step fadd r (Processed n) = IncProcessedTotal n r"
| "metric_step fadd r WriteError = IncWriteErrors r"
| "metric_step fadd r DecodeError = IncDecodeErrors r"
| "metric_step fadd r LeaseFailure = IncLeaseFailures r"
| "metric_step fadd r (WriteLatency ms) = ObserveWriteLatencyMs fadd ms r"
| "metric_step fadd r (OwnedGroups n) = SetOwnedGroups n r"
| "metric_step fadd r Heartbeat = ReportHeartbeat r"

subsection \<open>Histograms count exactly\<close>

lemma bucket_index_le: "bucket_index bs v \<le> length bs"
  by (induction bs) auto

lemma bucket_index_bound:
  "sorted bs \<Longrightarrow> i < length bs \<Longrightarrow> bucket_index bs v \<le> i \<longleftrightarrow> v \<le> bs ! i"
proof (induction bs arbitrary: i)
  case (Cons b bs)
  show ?case
  proof (cases i)
    case (Suc j)
    have "b \<le> bs ! j" using Cons.prems Suc by auto
    then have "v \<le> b \<Longrightarrow> v \<le> bs ! j" by simp
    with Cons Suc show ?thesis by auto
  qed simp
qed simp

definition observed :: "(rat \<Rightarrow> rat \<Rightarrow> rat) \<Rightarrow> rat list \<Rightarrow> rat list \<Rightarrow> Histogram" where
  "observed fadd bs vs = foldl (\<lambda>h v. Observe fadd v h) (NewHistogram bs) vs"

lemma wrap64_add: "wrap64 (wrap64 a + b) = wrap64 (a + b)"
proof -
  have "wrap64 a + b + 2 ^ 63 = (a + 2 ^ 63) mod 2 ^ 64 + b" by (simp add: wrap64_def)
  then have "(wrap64 a + b + 2 ^ 63) mod 2 ^ 64 = (a + 2 ^ 63 + b) mod 2 ^ 64" by (simp only: mod_add_left_eq)
  then show ?thesis unfolding wrap64_def [of "wrap64 a + b"] wrap64_def [of "a + b"]
    by (simp only: ac_simps)
qed

lemma wrap64_nat: "int n \<le> max_int64 \<Longrightarrow> wrap64 (int n) = int n"
  by (rule wrap64_id) (simp add: in_int64_def min_int64_def)

text \<open>Every slot counts, modulo \<open>2^64\<close>, the observations whose bound it is.\<close>

lemma observed_slots:
  "hg_buckets (observed fadd bs vs) = bs \<and> hg_total (observed fadd bs vs) = wrap64 (int (length vs)) \<and>
   hg_counts (observed fadd bs vs) =
     map (\<lambda>j. wrap64 (int (length (filter (\<lambda>v. bucket_index bs v = j) vs)))) [0..<length bs + 1]"
proof (induction vs rule: rev_induct)
  case Nil
  have "wrap64 0 = 0" by (simp add: wrap64_def)
  then show ?case by (simp add: observed_def NewHistogram_def map_replicate_const)
next
  case (snoc v vs)
  have step: "observed fadd bs (vs @ [v]) = Observe fadd v (observed fadd bs vs)" by (simp add: observed_def)
  have "wrap64 (wrap64 (int n) + 1) = wrap64 (int (Suc n))" for n using wrap64_add [of "int n" 1] by (simp add: add.commute)
  then show ?case using snoc bucket_index_le [of bs v]
    by (auto simp: step Observe_def Let_def add.commute intro!: nth_equalityI simp del: upt_Suc simp: nth_list_update)
qed

lemma foldl_wrap: "foldl (\<lambda>cum c. wrap64 (cum + c)) (wrap64 a) (map wrap64 cs) = wrap64 (a + sum_list cs)"
proof (induction cs arbitrary: a)
  case (Cons c cs)
  have "wrap64 (wrap64 a + wrap64 c) = wrap64 (a + c)" using wrap64_add [of a "wrap64 c"] wrap64_add [of c a] by (simp add: add.commute)
  with Cons.IH [of "a + c"] show ?case by (simp add: add.assoc)
qed simp

lemma sum_slots:
  "sum_list (map (\<lambda>j. int (length (filter (\<lambda>v. f v = j) vs))) [0..<Suc i]) = int (length (filter (\<lambda>v. f v \<le> (i :: nat)) vs))"
proof (induction vs)
  case (Cons v vs)
  have "sum_list (map (\<lambda>j. if f v = j then 1 + g j else g j) [0..<Suc i]) =
      (if f v \<le> i then 1 else 0) + sum_list (map g [0..<Suc i])" for g :: "nat \<Rightarrow> int"
    by (induction i) auto
  with Cons show ?case by (simp add: if_distrib cong: if_cong del: upt_Suc)
qed (simp add: sum_list_0)

lemma histogram_exact:
  assumes "sorted bs" "int (length vs) \<le> max_int64" "i < length bs"
  shows "cumulative (hg_counts (observed fadd bs vs)) i = int (length (filter (\<lambda>v. v \<le> bs ! i) vs))"
proof -
  let ?n = "\<lambda>j. int (length (filter (\<lambda>v. bucket_index bs v = j) vs))"
  have "take (Suc i) (hg_counts (observed fadd bs vs)) = map wrap64 (map ?n [0..<Suc i])"
    using assms(3) by (simp add: observed_slots take_map take_upt comp_def del: upt_Suc)
  then have "cumulative (hg_counts (observed fadd bs vs)) i = wrap64 (0 + sum_list (map ?n [0..<Suc i]))"
    using foldl_wrap [of 0 "map ?n [0..<Suc i]"] wrap64_nat [of 0] by (simp add: cumulative_def max_int64_def del: upt_Suc)
  also have "\<dots> = wrap64 (int (length (filter (\<lambda>v. bucket_index bs v \<le> i) vs)))" by (simp only: sum_slots add_0)
  also have "filter (\<lambda>v. bucket_index bs v \<le> i) vs = filter (\<lambda>v. v \<le> bs ! i) vs"
    using bucket_index_bound [OF assms(1,3)] by simp
  also have "wrap64 (int (length (filter (\<lambda>v. v \<le> bs ! i) vs))) = int (length (filter (\<lambda>v. v \<le> bs ! i) vs))"
    using assms(2) length_filter_le [of "\<lambda>v. v \<le> bs ! i" vs] by (intro wrap64_nat) linarith
  finally show ?thesis .
qed

subsection \<open>What a run of recordings shows\<close>

text \<open>What an event adds to a counter, and the latencies of a run.\<close>

fun added :: "string \<Rightarrow> metric_event \<Rightarrow> int" where
  "added name (Processed n) = (if name = MetricProcessedTotal then n else 0)"
| "added name WriteError = (if name = MetricWriteErrorsTotal then 1 else 0)"
| "added name DecodeError = (if name = MetricDecodeErrorsTotal then 1 else 0)"
| "added name LeaseFailure = (if name = MetricLeaseFailures then 1 else 0)"
| "added name e = 0"

fun latencies :: "metric_event list \<Rightarrow> rat list" where
  "latencies [] = []"
| "latencies (WriteLatency ms # es) = ms # latencies es"
| "latencies (e # es) = latencies es"

lemma latencies_append [simp]: "latencies (es @ fs) = latencies es @ latencies fs"
  by (induction es rule: latencies.induct) simp_all

lemma latencies_length: "length (latencies es) \<le> length es"
  by (induction es rule: latencies.induct) simp_all

lemma counter_Add_value:
  "counter_value (counter_Add name help n r) name' =
     (if name' = name then wrap64 (counter_value r name + n) else counter_value r name')"
  "rg_histograms (counter_Add name help n r) = rg_histograms r" "rg_gauges (counter_Add name help n r) = rg_gauges r"
  by (auto simp: counter_Add_def Counter_def counter_value_def Let_def split: option.split)

lemma gauge_Set_value:
  "map_of (rg_gauges (gauge_Set name help v r)) = (map_of (rg_gauges r))(name \<mapsto> v)"
  "rg_histograms (gauge_Set name help v r) = rg_histograms r" "counter_value (gauge_Set name help v r) = counter_value r"
  by (auto simp: gauge_Set_def Gauge_def counter_value_def Let_def fun_eq_iff split: option.split)

lemma histogram_Observe_value:
  "map_of (rg_histograms (histogram_Observe fadd name help bs v r)) = (map_of (rg_histograms r))
     (name \<mapsto> Observe fadd v (case map_of (rg_histograms r) name of None \<Rightarrow> NewHistogram bs | Some h \<Rightarrow> h))"
  "counter_value (histogram_Observe fadd name help bs v r) = counter_value r"
  "rg_gauges (histogram_Observe fadd name help bs v r) = rg_gauges r"
  by (auto simp: histogram_Observe_def Registry_Histogram_def counter_value_def Let_def fun_eq_iff split: option.split)

lemmas recording = IncProcessedTotal_def IncWriteErrors_def IncDecodeErrors_def IncLeaseFailures_def
  ObserveWriteLatencyMs_def SetOwnedGroups_def ReportHeartbeat_def

lemma recorded:
  "\<exists>r. foldl (metric_step fadd) (Some (NewRegistry labels)) es = Some r \<and>
     (\<forall>name. counter_value r name = wrap64 (sum_list (map (added name) es))) \<and>
     map_of (rg_histograms r) MetricStorageWriteLatency =
       (if latencies es = [] then None else Some (observed fadd DefaultLatencyBuckets (latencies es)))"
proof (induction es rule: rev_induct)
  case Nil
  have "wrap64 0 = 0" by (simp add: wrap64_def)
  then show ?case by (simp add: NewRegistry_def counter_value_def)
next
  case (snoc e es)
  then obtain r where r: "foldl (metric_step fadd) (Some (NewRegistry labels)) es = Some r"
    "\<And>name. counter_value r name = wrap64 (sum_list (map (added name) es))"
    "map_of (rg_histograms r) MetricStorageWriteLatency =
       (if latencies es = [] then None else Some (observed fadd DefaultLatencyBuckets (latencies es)))" by blast
  show ?case
    by (cases e) (auto simp: r recording counter_Add_value gauge_Set_value histogram_Observe_value wrap64_add observed_def)
qed

text \<open>
  C34. The metrics tell the truth. After any sequence of recordings, interleaved in any way, every counter is the
  sum of what was added to it (modulo its 64 bits), and the latency histogram reports under each bound
  exactly the number of observations up to it, and their number as the total.
\<close>

theorem recorded_metrics_are_exact:
  assumes "int (length es) \<le> max_int64" "foldl (metric_step fadd) (Some (NewRegistry labels)) es = Some r"
  shows "counter_value r name = wrap64 (sum_list (map (added name) es)) \<and>
    (case map_of (rg_histograms r) MetricStorageWriteLatency of
       None \<Rightarrow> latencies es = []
     | Some h \<Rightarrow> hg_total h = int (length (latencies es)) \<and>
         list_all (\<lambda>i. cumulative (hg_counts h) i = int (length (filter (\<lambda>v. v \<le> hg_buckets h ! i) (latencies es))))
           [0..<length (hg_buckets h)])"
proof -
  have small: "int (length (latencies es)) \<le> max_int64" using assms(1) latencies_length [of es] by linarith
  have "sorted DefaultLatencyBuckets" by (simp add: DefaultLatencyBuckets_def)
  from histogram_exact [OF this small, of _ fadd]
  have "list_all (\<lambda>i. cumulative (hg_counts (observed fadd DefaultLatencyBuckets (latencies es))) i =
      int (length (filter (\<lambda>v. v \<le> DefaultLatencyBuckets ! i) (latencies es)))) [0..<length DefaultLatencyBuckets]"
    by (simp add: list_all_iff)
  moreover have "hg_total (observed fadd DefaultLatencyBuckets (latencies es)) = int (length (latencies es))"
    using observed_slots [of fadd DefaultLatencyBuckets "latencies es"] wrap64_nat [OF small] by simp
  ultimately show ?thesis
    using recorded [of fadd labels es] assms(2) observed_slots [of fadd DefaultLatencyBuckets "latencies es"]
    by (auto split: option.split)
qed

subsection \<open>The heartbeat gauge\<close>

definition heartbeat_zero :: "Registry option \<Rightarrow> bool" where
  "heartbeat_zero r =
     (case r of None \<Rightarrow> True | Some r \<Rightarrow> map_of (rg_gauges r) MetricHeartbeatAgeSec \<in> {None, Some 0})"

interpretation heartbeat: stepper "metric_step fadd" heartbeat_zero "\<lambda>e. True" for fadd
proof unfold_locales
  fix r e
  assume "heartbeat_zero r"
  moreover have "MetricOwnedGroups \<noteq> MetricHeartbeatAgeSec" by (simp add: metric_names)
  ultimately show "heartbeat_zero (metric_step fadd r e)"
    by (cases r; cases e) (auto simp: heartbeat_zero_def recording counter_Add_value gauge_Set_value histogram_Observe_value)
qed

text \<open>
  The gauge of the heartbeat age is only ever set to zero: it never grows when heartbeats stop, so it cannot
  show a stale node, which is what its comment promises.
\<close>

lemma heartbeat_age_never_grows:
  "heartbeat_zero (foldl (metric_step fadd) (Some (NewRegistry labels)) es)"
  by (rule heartbeat.run_inv) (simp_all add: heartbeat_zero_def NewRegistry_def list_all_iff)

subsection \<open>Witness\<close>

theorem recorded_metrics_are_exact_witness:
  "\<exists>r h. foldl (metric_step (+)) (Some (NewRegistry [])) [Processed 3, WriteLatency 7, Processed 2] = Some r \<and>
     counter_value r MetricProcessedTotal = 5 \<and> map_of (rg_histograms r) MetricStorageWriteLatency = Some h \<and> hg_total h = 1"
proof -
  let ?es = "[Processed 3, WriteLatency 7, Processed 2]"
  obtain r where r: "foldl (metric_step (+)) (Some (NewRegistry [])) ?es = Some r" using recorded by blast
  have small: "int (length ?es) \<le> max_int64" by (simp add: max_int64_def)
  note exact = recorded_metrics_are_exact [OF small r, of MetricProcessedTotal]
  have "wrap64 5 = 5" by (simp add: wrap64_def)
  then have "counter_value r MetricProcessedTotal = 5" using exact by simp
  moreover obtain h where "map_of (rg_histograms r) MetricStorageWriteLatency = Some h" "hg_total h = 1"
    using exact by (auto split: option.splits)
  ultimately show ?thesis using r by blast
qed

end
