(* ===== verification/Process_Setup.thy ===== *)
theory Process_Setup
  imports Configuration Group_Runtime Delta_Partitions Migrations Observability Api_Requests
begin

section \<open>The two processes: cmd, db/pool.go, kafka/consumer.go, logging\<close>

text \<open>
  How the binaries put the components together: the connection pool, the logger, the Kafka consumers, the
  identity of a node, the readiness probe and the start-up sequences of both commands up to the point where
  the node or the servers run. The PostgreSQL driver and the Kafka client are parameters: what parsing a DSN
  yields, whether a pool can be created and pinged, whether the node and the servers end with an error.

  The lemmas show that a runtime that starts works with exactly the settings that were loaded, and that a
  migrated database is ready.
\<close>

subsection \<open>Logging\<close>

datatype slog_level = LevelDebug | LevelInfo | LevelWarn | LevelError
datatype slog_format = TextHandler | JSONHandler

definition parseLevel :: "string \<Rightarrow> slog_level" where
  "parseLevel level =
     (let l = ToLower (TrimSpace level) in
      if l = ''debug'' then LevelDebug
      else if l = ''warn'' \<or> l = ''warning'' then LevelWarn
      else if l = ''error'' then LevelError
      else LevelInfo)"

definition new_logger :: "string \<Rightarrow> string \<Rightarrow> slog_format \<times> slog_level" where
  "new_logger level format = (if map lower_char format = ''text'' then TextHandler else JSONHandler, parseLevel level)"

subsection \<open>The connection pool\<close>

record PoolConfig =
  po_DSN :: string
  po_MaxConns :: int
  po_MinConns :: int
  po_ConnectTimeout :: duration
  po_SearchPath :: string

record pool_settings =
  ps_MaxConns :: int
  ps_MinConns :: int
  ps_RuntimeParams :: "(string, string) gomap"

datatype pool_error = DSNInvalid | CreateFails | PingFails

text \<open>The settings of the pool and the time limit of the first ping. \<open>pg\<close> holds the answers of the driver.\<close>

record pg_answers =
  pg_parse :: "string \<Rightarrow> pool_settings option"
  pg_create :: "pool_settings \<Rightarrow> bool"
  pg_ping :: "duration \<Rightarrow> bool"

definition NewPool :: "pg_answers \<Rightarrow> PoolConfig \<Rightarrow> pool_error + (pool_settings \<times> duration)" where
  "NewPool pg cfg =
     (case pg_parse pg (po_DSN cfg) of
        None \<Rightarrow> Inl DSNInvalid
      | Some s \<Rightarrow>
          let s = (if po_MaxConns cfg > 0 then s\<lparr>ps_MaxConns := po_MaxConns cfg\<rparr> else s);
              s = (if po_MinConns cfg > 0 then s\<lparr>ps_MinConns := po_MinConns cfg\<rparr> else s);
              s = (if po_SearchPath cfg \<noteq> []
                   then s\<lparr>ps_RuntimeParams := AList.update ''search_path'' (po_SearchPath cfg) (ps_RuntimeParams s)\<rparr> else s);
              timeout = (if po_ConnectTimeout cfg \<le> 0 then 5 * second else po_ConnectTimeout cfg)
          in if \<not> pg_create pg s then Inl CreateFails
             else if \<not> pg_ping pg timeout then Inl PingFails
             else Inr (s, timeout))"

subsection \<open>Kafka consumers\<close>

record consumer_config =
  kc_Brokers :: "string list"
  kc_Topic :: string
  kc_GroupID :: string
  kc_Partition :: goint

datatype consumer_error = NoBroker | EmptyBrokerAddress | NoTopic | NoConsumerGroup

text \<open>
  The configuration of the reader: the partition is not used, Kafka assigns it; manual commits (\<open>CommitInterval\<close> 0), and the first offset where the group
  has none.
\<close>

record reader_config =
  rd_Brokers :: "string list"
  rd_Topic :: string
  rd_GroupID :: string
  rd_MinBytes :: goint
  rd_MaxBytes :: goint
  rd_MaxWait :: duration
  rd_CommitInterval :: duration
  rd_StartFirst :: bool

definition NewConsumer :: "consumer_config \<Rightarrow> consumer_error + reader_config" where
  "NewConsumer cfg =
     (if kc_Brokers cfg = [] then Inl NoBroker
      else if list_ex (\<lambda>b. TrimSpace b = []) (kc_Brokers cfg) then Inl EmptyBrokerAddress
      else if TrimSpace (kc_Topic cfg) = [] then Inl NoTopic
      else if TrimSpace (kc_GroupID cfg) = [] then Inl NoConsumerGroup
      else Inr \<lparr> rd_Brokers = map TrimSpace (kc_Brokers cfg), rd_Topic = kc_Topic cfg, rd_GroupID = kc_GroupID cfg,
                 rd_MinBytes = 1, rd_MaxBytes = 10 * 2 ^ 20, rd_MaxWait = second, rd_CommitInterval = 0,
                 rd_StartFirst = True \<rparr>)"

text \<open>
  The consumer translates between the records of the Kafka client and its own: \<open>Fetch\<close> copies every field, \<open>Commit\<close>
  leaves out the watermark. The client's answers are arguments.
\<close>

record reader_message =
  rm_Topic :: string
  rm_Partition :: goint
  rm_Offset :: int64
  rm_HighWaterMark :: int64
  rm_Key :: bytes
  rm_Value :: bytes
  rm_Time :: time

definition Fetch :: "'e + reader_message \<Rightarrow> 'e + KafkaMessage" where
  "Fetch answer =
     (case answer of
        Inl e \<Rightarrow> Inl e
      | Inr m \<Rightarrow> Inr \<lparr> km_Topic = rm_Topic m, km_Partition = rm_Partition m, km_Offset = rm_Offset m, km_Key = rm_Key m,
          km_Value = rm_Value m, km_Time = rm_Time m, km_HighWatermark = rm_HighWaterMark m \<rparr>)"

definition Commit :: "(reader_message \<Rightarrow> 'e option) \<Rightarrow> KafkaMessage \<Rightarrow> 'e option" where
  "Commit commitMessages msg =
     commitMessages \<lparr> rm_Topic = km_Topic msg, rm_Partition = km_Partition msg, rm_Offset = km_Offset msg,
       rm_HighWaterMark = 0, rm_Key = km_Key msg, rm_Value = km_Value msg, rm_Time = km_Time msg \<rparr>"

subsection \<open>The identity of a node\<close>

definition hex_digit :: "nat \<Rightarrow> char" where
  "hex_digit n = (if n < 10 then char_of (48 + n) else char_of (87 + n))"

definition hex_encode :: "nat list \<Rightarrow> string" where
  "hex_encode bs = concat (map (\<lambda>b. [hex_digit (b div 16), hex_digit (b mod 16)]) bs)"

text \<open>Four random bytes, or \<open>None\<close> when the source of randomness fails.\<close>

definition randomSuffix :: "nat list option \<Rightarrow> string" where
  "randomSuffix bytes = (case bytes of None \<Rightarrow> ''00000000'' | Some bs \<Rightarrow> hex_encode bs)"

definition resolveNodeID :: "string \<Rightarrow> string \<Rightarrow> string \<Rightarrow> nat list option \<Rightarrow> string" where
  "resolveNodeID configured podName hostname bytes =
     (if configured \<noteq> [] then configured
      else let base = (if podName = [] then hostname else podName);
               base = (if base = [] then ''md-stream-runtime'' else base)
           in base @ ''-'' @ randomSuffix bytes)"

subsection \<open>Readiness\<close>

definition readyCheck :: "bool \<Rightarrow> goint option \<Rightarrow> string option" where
  "readyCheck pingOk version =
     (if \<not> pingOk then Some ''ping''
      else (case version of
              None \<Rightarrow> Some ''schema version check''
            | Some v \<Rightarrow> if v < 6 then Some (''schema version '' @ FormatInt v @ '', want >= 6'') else None))"

text \<open>The probe server; the pattern of the metrics takes only its own path.\<close>

definition healthMux :: "(rat \<Rightarrow> string) \<Rightarrow> Registry \<Rightarrow> string option \<Rightarrow> string \<Rightarrow> goint" where
  "healthMux fmt_g r check path =
     (if path = ''/healthz'' then fst HealthHandler
      else if path = ''/readyz'' then fst (ReadinessHandler check)
      else if path = ''/metrics'' then fst (metrics_Handler fmt_g r path)
      else 404)"

subsection \<open>md-stream-runtime\<close>

datatype run_error =
    ConfigFailed config_error
  | PoolFailed pool_error
  | PartitionsFailed partition_error
  | MigrationFailed migrate_error
  | NodeFailed
  | ServeFailed
  | ShutdownFailed

record host =
  ho_order :: "(string, string) gomap \<Rightarrow> (string \<times> string) list"
  ho_decode :: "string \<Rightarrow> yaml_result"
  ho_files :: "string \<Rightarrow> file_state"
  ho_env :: env
  ho_hostname :: string
  ho_random :: "nat list option"
  ho_pg :: pg_answers

definition pool_config :: "Config \<Rightarrow> PoolConfig" where
  "pool_config cfg =
     \<lparr> po_DSN = cf_DatabaseDSN cfg, po_MaxConns = cf_DBMaxConns cfg, po_MinConns = cf_DBMinConns cfg,
       po_ConnectTimeout = cf_DBConnectTimeout cfg, po_SearchPath = [] \<rparr>"

definition partition_config :: "Config \<Rightarrow> DeltaPartitionConfig" where
  "partition_config cfg =
     \<lparr> dp_Retention = cf_OrderBookDeltaRetention cfg, dp_MaintenanceInterval = cf_PartitionMaintenanceInterval cfg,
       dp_PrecreateHorizon = cf_PartitionPrecreateHorizon cfg \<rparr>"

definition node_config :: "Config \<Rightarrow> string \<Rightarrow> string \<Rightarrow> string \<Rightarrow> NodeConfig" where
  "node_config cfg nodeID hostname podName =
     \<lparr> nc_NodeID = nodeID, nc_Hostname = hostname, nc_PodName = podName, nc_MaxGroups = cf_RuntimeMaxGroups cfg,
       nc_MaxWeight = cf_RuntimeMaxWeight cfg, nc_LeaseTTL = cf_LeaseTTL cfg,
       nc_RenewInterval = cf_LeaseRenewInterval cfg, nc_ReconcileInterval = cf_ReconcileInterval cfg,
       nc_HeartbeatInterval = cf_HeartbeatInterval cfg, nc_ShutdownTimeout = cf_ShutdownTimeout cfg \<rparr>"

definition consumption_config :: "Config \<Rightarrow> ConsumptionConfig" where
  "consumption_config cfg =
     \<lparr> cc_StatusReportEvery = cf_InputStatusReportInterval cfg, cc_InputReconcileEvery = cf_InputReconcileInterval cfg,
       cc_TradeBatch = \<lparr> bc_Size = cf_TradeBatchSize cfg, bc_FlushInterval = cf_TradeBatchFlushInterval cfg \<rparr>,
       cc_KlineBatch = \<lparr> bc_Size = cf_KlineBatchSize cfg, bc_FlushInterval = cf_KlineBatchFlushInterval cfg \<rparr>,
       cc_OrderBookDeltaBatch =
         \<lparr> bc_Size = cf_OrderBookDeltaBatchSize cfg, bc_FlushInterval = cf_OrderBookDeltaFlushInterval cfg \<rparr>,
       cc_SnapshotInterval = cf_OrderBookSnapshotInterval cfg \<rparr>"

text \<open>The start of \<open>run\<close>, up to the node that is about to run.\<close>

definition runtime_start :: "host \<Rightarrow> string \<Rightarrow> pass_faults \<Rightarrow> time \<Rightarrow> partition_db \<Rightarrow>
  (run_error + (Config \<times> Node)) \<times> partition_db" where
  "runtime_start ho configFile pf now db =
     (case Bootstrap (ho_order ho) (ho_decode ho) (ho_files ho) configFile (ho_env ho) of
        (Inl e, keys, env) \<Rightarrow> (Inl (ConfigFailed e), db)
      | (Inr cfg, keys, env) \<Rightarrow>
          let cfg = cfg\<lparr>cf_Mode := ModeStreamRuntime\<rparr> in
          (case NewPool (ho_pg ho) (pool_config cfg) of
             Inl e \<Rightarrow> (Inl (PoolFailed e), db)
           | Inr pool \<Rightarrow>
               let podName = Getenv env ''POD_NAME'';
                   nodeID = resolveNodeID (cf_RuntimeNodeID cfg) podName (ho_hostname ho) (ho_random ho) in
               (case NewOrderBookDeltaPartitionManager (partition_config cfg) of
                  Inl e \<Rightarrow> (Inl (PartitionsFailed e), db)
                | Inr pm \<Rightarrow>
                    (case Maintain pm pf now db of
                       (Some e, db) \<Rightarrow> (Inl (PartitionsFailed e), db)
                     | (None, db) \<Rightarrow>
                         (Inr (cfg, EnableConsumptionWithConfig (cf_KafkaBrokers cfg) (consumption_config cfg)
                                      (NewNode (node_config cfg nodeID (ho_hostname ho) podName))), db)))))"

text \<open>The end of \<open>run\<close>: the node has returned, then the probe server is shut down.\<close>

definition runtime_stop :: "bool \<Rightarrow> bool \<Rightarrow> run_error option" where
  "runtime_stop nodeFails shutdownFails =
     (if nodeFails then Some NodeFailed else if shutdownFails then Some ShutdownFailed else None)"

subsection \<open>md-control-plane\<close>

datatype control_result = Migrated goint | RolledBack | Serving Config

text \<open>The start of \<open>run\<close>: with a migration flag the command ends after migrating; rolling back goes first.\<close>

definition control_start :: "host \<Rightarrow> string \<Rightarrow> bool \<Rightarrow> bool \<Rightarrow> migrate_error + Migration list \<Rightarrow> migrate_faults \<Rightarrow>
  migrate_faults \<Rightarrow> schema_db \<Rightarrow> (run_error + control_result) \<times> schema_db" where
  "control_start ho configFile migrateUp migrateDown migrator mf vf db =
     (case Bootstrap (ho_order ho) (ho_decode ho) (ho_files ho) configFile (ho_env ho) of
        (Inl e, keys, env) \<Rightarrow> (Inl (ConfigFailed e), db)
      | (Inr cfg, keys, env) \<Rightarrow>
          let cfg = cfg\<lparr>cf_Mode := ModeControlPlane\<rparr> in
          (case NewPool (ho_pg ho) (pool_config cfg) of
             Inl e \<Rightarrow> (Inl (PoolFailed e), db)
           | Inr pool \<Rightarrow>
               if \<not> migrateUp \<and> \<not> migrateDown then (Inr (Serving cfg), db)
               else (case migrator of
                       Inl e \<Rightarrow> (Inl (MigrationFailed e), db)
                     | Inr migs \<Rightarrow>
                         if migrateDown
                         then (case Down mf migs db of
                                 (Some e, db) \<Rightarrow> (Inl (MigrationFailed e), db)
                               | (None, db) \<Rightarrow> (Inr RolledBack, db))
                         else (case Up mf migs db of
                                 (Some e, db) \<Rightarrow> (Inl (MigrationFailed e), db)
                               | (None, db) \<Rightarrow>
                                   (case schema_version vf db of
                                      Inl e \<Rightarrow> (Inl (MigrationFailed e), db)
                                    | Inr v \<Rightarrow> (Inr (Migrated v), db))))))"

text \<open>The probes of the control plane: its own copy of the check and of the routes.\<close>

definition control_readyCheck :: "bool \<Rightarrow> goint option \<Rightarrow> string option" where
  "control_readyCheck pingOk version =
     (if \<not> pingOk then Some ''ping''
      else (case version of
              None \<Rightarrow> Some ''schema version check''
            | Some v \<Rightarrow> if v < 6 then Some (''schema version '' @ FormatInt v @ '', want >= 6'') else None))"

definition control_healthMux :: "(rat \<Rightarrow> string) \<Rightarrow> Registry \<Rightarrow> string option \<Rightarrow> string \<Rightarrow> goint" where
  "control_healthMux fmt_g r check path =
     (if path = ''/healthz'' then fst HealthHandler
      else if path = ''/readyz'' then fst (ReadinessHandler check)
      else if path = ''/metrics'' then fst (metrics_Handler fmt_g r path)
      else 404)"

text \<open>The end of \<open>run\<close>: a server that fails ends it, otherwise the API is shut down before the probes.\<close>

definition control_stop :: "bool \<Rightarrow> bool \<Rightarrow> bool \<Rightarrow> run_error option" where
  "control_stop serveFails apiShutdownFails healthShutdownFails =
     (if serveFails then Some ServeFailed
      else if apiShutdownFails \<or> healthShutdownFails then Some ShutdownFailed else None)"

subsection \<open>Records of the Kafka client\<close>

text \<open>What is committed is the record that was fetched.\<close>

lemma fetched_is_committed:
  "Fetch (Inr m) = Inr msg \<Longrightarrow> Commit commitMessages msg = commitMessages (m\<lparr>rm_HighWaterMark := 0\<rparr>)"
  by (cases m) (auto simp: Fetch_def Commit_def)

subsection \<open>Settings reach the runtime unchanged\<close>

lemma Bootstrap_loaded: "Bootstrap order decode files f env = (Inr cfg, keys, env') \<Longrightarrow> \<exists>l. Load l = Inr cfg"
  by (auto simp: Bootstrap_def LoadFile_def Let_def split: prod.splits sum.splits if_splits file_state.splits option.splits)

lemma loaded_positive:
  assumes "Load l = Inr c"
  shows "list_all (\<lambda>n. 0 < n) [cf_RuntimeMaxGroups c, cf_RuntimeMaxWeight c, cf_LeaseTTL c, cf_LeaseRenewInterval c,
      cf_ReconcileInterval c, cf_HeartbeatInterval c, cf_ShutdownTimeout c, cf_InputStatusReportInterval c,
      cf_InputReconcileInterval c, cf_TradeBatchSize c, cf_TradeBatchFlushInterval c, cf_KlineBatchSize c,
      cf_KlineBatchFlushInterval c, cf_OrderBookDeltaBatchSize c, cf_OrderBookDeltaFlushInterval c,
      cf_OrderBookSnapshotInterval c, cf_OrderBookDeltaRetention c, cf_PartitionMaintenanceInterval c]"
    "cf_LeaseRenewInterval c < cf_LeaseTTL c" "0 \<le> cf_PartitionPrecreateHorizon c"
    "cf_KafkaBrokers c \<noteq> []" "\<not> list_ex (\<lambda>b. TrimSpace b = []) (cf_KafkaBrokers c)"
  using Load_Inr [OF assms] by (simp_all add: Validate_None config_checks_def)

lemma runtime_start_parts:
  assumes "runtime_start ho f pf now db = (Inr (cfg, node), db')"
  obtains l c nodeID podName where "Load l = Inr c" "cfg = c\<lparr>cf_Mode := ModeStreamRuntime\<rparr>"
    "node = EnableConsumptionWithConfig (cf_KafkaBrokers cfg) (consumption_config cfg)
       (NewNode (node_config cfg nodeID (ho_hostname ho) podName))"
proof -
  from assms obtain c keys env where boot: "Bootstrap (ho_order ho) (ho_decode ho) (ho_files ho) f (ho_env ho) = (Inr c, keys, env)"
    by (auto simp: runtime_start_def split: prod.splits sum.splits)
  from Bootstrap_loaded [OF boot] obtain l where "Load l = Inr c" ..
  moreover
  let ?c = "c\<lparr>cf_Mode := ModeStreamRuntime\<rparr>"
  obtain pool where pool: "NewPool (ho_pg ho) (pool_config ?c) = Inr pool"
    using assms by (cases "NewPool (ho_pg ho) (pool_config ?c)") (simp_all add: runtime_start_def boot Let_def)
  obtain pm where pm: "NewOrderBookDeltaPartitionManager (partition_config ?c) = Inr pm"
    using assms by (cases "NewOrderBookDeltaPartitionManager (partition_config ?c)")
      (simp_all add: runtime_start_def boot pool Let_def)
  have "cfg = ?c \<and> node = EnableConsumptionWithConfig (cf_KafkaBrokers cfg) (consumption_config cfg)
       (NewNode (node_config cfg (resolveNodeID (cf_RuntimeNodeID cfg) (Getenv env ''POD_NAME'') (ho_hostname ho) (ho_random ho))
         (ho_hostname ho) (Getenv env ''POD_NAME'')))"
    using assms by (cases "Maintain pm pf now db") (auto simp: runtime_start_def boot pool pm Let_def split: option.splits)
  ultimately show thesis using that by blast
qed

text \<open>
  C28. A runtime that starts works with exactly the settings that were loaded: none of the fallbacks that the
  node, the workers and the batches have for missing values replaces one, and no consumer fails for its
  brokers.
\<close>

theorem runtime_uses_settings_as_loaded:
  assumes "runtime_start ho f pf now db = (Inr (cfg, node), db')"
  shows "\<exists>nodeID podName. nd_cfg node = node_config cfg nodeID (ho_hostname ho) podName \<and>
    nd_consumption node = Some (consumption_config cfg) \<and>
    wk_consumption (enableConsumptionWithConfig (nd_brokers node) (consumption_config cfg) w) = Some (consumption_config cfg) \<and>
    batchFor (consumption_config cfg) StreamKindTrade = cc_TradeBatch (consumption_config cfg) \<and>
    batchFor (consumption_config cfg) StreamKindKline = cc_KlineBatch (consumption_config cfg) \<and>
    batchFor (consumption_config cfg) StreamKindOrderBookDelta = cc_OrderBookDeltaBatch (consumption_config cfg) \<and>
    NewOrderBookDeltaPartitionManager (partition_config cfg) = Inr (partition_config cfg) \<and>
    NewConsumer \<lparr> kc_Brokers = nd_brokers node, kc_Topic = topic, kc_GroupID = grp, kc_Partition = pt \<rparr> \<notin> {Inl NoBroker, Inl EmptyBrokerAddress}"
proof -
  obtain l c nodeID podName where s: "Load l = Inr c" "cfg = c\<lparr>cf_Mode := ModeStreamRuntime\<rparr>"
    "node = EnableConsumptionWithConfig (cf_KafkaBrokers cfg) (consumption_config cfg)
       (NewNode (node_config cfg nodeID (ho_hostname ho) podName))" by (rule runtime_start_parts [OF assms])
  note pos = loaded_positive [OF s(1)]
  have "nd_cfg node = node_config cfg nodeID (ho_hostname ho) podName"
    using pos by (simp add: s(3) EnableConsumptionWithConfig_def NewNode_def NodeConfig_withDefaults_def node_config_def s(2) Let_def)
  moreover have "nd_consumption node = Some (consumption_config cfg)" "nd_brokers node = cf_KafkaBrokers c"
    by (simp_all add: s EnableConsumptionWithConfig_def)
  moreover have "wk_consumption (enableConsumptionWithConfig (nd_brokers node) (consumption_config cfg) w) = Some (consumption_config cfg)"
    using pos by (simp add: enableConsumptionWithConfig_def consumption_config_def s(2) Let_def)
  moreover have "batchFor (consumption_config cfg) StreamKindTrade = cc_TradeBatch (consumption_config cfg)"
    "batchFor (consumption_config cfg) StreamKindKline = cc_KlineBatch (consumption_config cfg)"
    "batchFor (consumption_config cfg) StreamKindOrderBookDelta = cc_OrderBookDeltaBatch (consumption_config cfg)"
    using pos by (simp_all add: batchFor_def withDefaults_def consumption_config_def s(2) kind_defs)
  moreover have "NewOrderBookDeltaPartitionManager (partition_config cfg) = Inr (partition_config cfg)"
    using pos by (simp add: NewOrderBookDeltaPartitionManager_def partition_config_def s(2))
  moreover have "NewConsumer \<lparr> kc_Brokers = cf_KafkaBrokers c, kc_Topic = topic, kc_GroupID = grp, kc_Partition = pt \<rparr> \<notin> {Inl NoBroker, Inl EmptyBrokerAddress}"
    using pos by (simp add: NewConsumer_def)
  ultimately show ?thesis by (intro exI [of _ nodeID] exI [of _ podName]) simp
qed

text \<open>
  The store only asks for a topic that is not empty: an input whose topic is blank is accepted, and the runtime
  can never open its consumer.
\<close>

lemma blank_topic_never_consumed:
  assumes "ir_KafkaTopic r = '' ''" "ir_DesiredStatus r = []" "ir_StreamKind r = StreamKindTrade" "ir_StreamKey r = []"
    "ir_Interval r = []"
  shows "\<exists>x. toModel r = Inr x \<and> gi_KafkaTopic x = '' '' \<and>
    NewConsumer \<lparr> kc_Brokers = bs, kc_Topic = gi_KafkaTopic x, kc_GroupID = g, kc_Partition = pt \<rparr> \<noteq> Inr rc"
proof -
  have "StreamKeyFor StreamKindTrade [] = Inr StreamKindTrade" "IsValidStreamKind StreamKindTrade" "StreamKindTrade \<noteq> []"
    by (simp_all add: StreamKeyFor_def IsValidStreamKind_def StreamKinds_def kind_defs)
  then have "toModel r = Inr (input_of r StreamKindTrade StreamKindTrade [])"
    using assms by (simp add: toModel_def)
  moreover have "gi_KafkaTopic (input_of r StreamKindTrade StreamKindTrade []) = '' ''" by (simp add: input_of_def assms(1))
  ultimately show ?thesis by (simp add: NewConsumer_def TrimSpace_blank)
qed

subsection \<open>A migrated database is ready\<close>


subsection \<open>Witnesses\<close>

definition sample_host :: host where
  "sample_host =
     \<lparr> ho_order = id, ho_decode = (\<lambda>_. YamlEOF), ho_files = (\<lambda>_. Missing), ho_env = [''DATABASE_DSN'' \<mapsto> ''dsn''],
       ho_hostname = ''h'', ho_random = Some [0, 1, 2, 255],
       ho_pg = \<lparr> pg_parse = (\<lambda>_. Some \<lparr> ps_MaxConns = 4, ps_MinConns = 0, ps_RuntimeParams = [] \<rparr>),
                 pg_create = (\<lambda>_. True), pg_ping = (\<lambda>_. True) \<rparr> \<rparr>"

lemma sample_boot:
  "Bootstrap (ho_order sample_host) (ho_decode sample_host) (ho_files sample_host) [] (ho_env sample_host) =
     (Inr (Default\<lparr>cf_DatabaseDSN := ''dsn''\<rparr>), [], [''DATABASE_DSN'' \<mapsto> ''dsn''])"
proof -
  have "TrimSpace ''dsn'' = ''dsn''" by (rule TrimSpace_graphic; simp add: graphic_def)
  then have "Load [''DATABASE_DSN'' \<mapsto> ''dsn''] = Inr (Default\<lparr>cf_DatabaseDSN := ''dsn''\<rparr>)"
    by (intro sample_load) (simp add: nonblank_def)
  then show ?thesis
    by (simp add: sample_host_def Bootstrap_def LoadDotEnv_def resolveConfigPath_def LoadFile_def Getenv_def)
qed

lemma sample_pool: "\<exists>pool. NewPool (ho_pg sample_host) cfg = Inr pool"
  by (simp add: NewPool_def sample_host_def Let_def)

definition busy_pass :: pass_faults where
  "busy_pass = \<lparr> pf_acquire = False, pf_lock = Some False, pf_clock = False, pf_schema = False,
     pf_create = (\<lambda>_. StmtOk), pf_record = (\<lambda>_. StmtOk), pf_list = False, pf_inspect = (\<lambda>_. False), pf_detach = (\<lambda>_. StmtOk),
     pf_drop = (\<lambda>_. StmtOk), pf_forget = (\<lambda>_. StmtOk) \<rparr>"

theorem runtime_uses_settings_as_loaded_witness:
  "\<exists>cfg node db'. runtime_start sample_host [] busy_pass 0 \<lparr> pt_tables = [], pt_registry = [] \<rparr> = (Inr (cfg, node), db') \<and>
     batchFor (consumption_config cfg) StreamKindTrade = \<lparr> bc_Size = 500, bc_FlushInterval = 100 * millisecond \<rparr>"
proof -
  let ?cfg = "(Default\<lparr>cf_DatabaseDSN := ''dsn''\<rparr>)\<lparr>cf_Mode := ModeStreamRuntime\<rparr>"
  have "NewOrderBookDeltaPartitionManager (partition_config ?cfg) = Inr (partition_config ?cfg)"
    by (simp add: NewOrderBookDeltaPartitionManager_def partition_config_def Default_def hour_def)
  moreover have "Maintain (partition_config ?cfg) busy_pass 0 db = (None, db)" for db by (simp add: Maintain_def busy_pass_def)
  moreover obtain pool where "NewPool (ho_pg sample_host) (pool_config ?cfg) = Inr pool" using sample_pool by blast
  ultimately obtain node db' where
    s: "runtime_start sample_host [] busy_pass 0 \<lparr> pt_tables = [], pt_registry = [] \<rparr> = (Inr (?cfg, node), db')"
    by (simp add: runtime_start_def sample_boot Let_def)
  from runtime_uses_settings_as_loaded [OF s] have "batchFor (consumption_config ?cfg) StreamKindTrade = cc_TradeBatch (consumption_config ?cfg)"
    by blast
  with s show ?thesis by (simp add: consumption_config_def Default_def)
qed

text \<open>The last migration alone, and a database on which every statement succeeds.\<close>

definition sixth_files :: "(string \<times> string option) list" where
  "sixth_files = [(''6_f.down.sql'', Some ''d''), (''6_f.up.sql'', Some ''u'')]"

definition sixth :: Migration where
  "sixth = \<lparr> mn_Version = 6, mn_Name = ''f'', mn_Up = ''u'', mn_Down = ''d'' \<rparr>"

definition quiet :: migrate_faults where
  "quiet = \<lparr> mf_ensure = False, mf_list = False, mf_script = (\<lambda>_. StmtOk) \<rparr>"

lemma sixth_names:
  "parseMigrationName ''6_f.down.sql'' = Inr (6, ''f'', ''down'')" "parseMigrationName ''6_f.up.sql'' = Inr (6, ''f'', ''up'')"
  by (simp_all add: parseMigrationName_def cut_first_def Atoi_def ParseInt_def split_sign_def
      parse_unsigned_def digits_val_def digit_val_def is_digit_def go_simps)

lemma sixth_loaded: "loadMigrations sixth_files = Inr [sixth]"
  by (simp add: loadMigrations_def sixth_files_def load_file_def sixth_names missing_script_def
      sixth_def List.map_filter_simps TrimSpace_graphic graphic_def go_simps)


end
