(* ===== verification/Spec2Isabelle.thy ===== *)
theory Spec2Isabelle
  imports Input_Manager Control_Loop Data_Path Row_Codecs Partition_Loop Process_Setup
begin

text \<open>
  \<^bold>\<open>MarketDataBackend\<close> collects market data: adapters publish trades, candles, order-book deltas and
  reference snapshots to Kafka; a control plane with an HTTP API keeps in PostgreSQL which market groups and
  inputs should run; runtime nodes claim groups by lease, consume the inputs of each claimed group, store the facts in
  PostgreSQL and maintain one order book per group; the API also serves the stored facts page by page. This
  development models the Go packages under \<^verbatim>\<open>src/internal\<close> and the two commands under \<^verbatim>\<open>src/cmd\<close>, and proves
  what makes them correct. Every operation is an executable function on explicit states; goroutines are events of a step
  function, so that a list of events is one interleaving; every failure of a database or Kafka call is an
  argument of the operation that makes the call.

  \<^bold>\<open>Theories, in the order of their imports.\<close>

  \<^item> \<^verbatim>\<open>MD_Prelude\<close>: 64-bit wrap-around, Go maps as association lists (\<open>gomap\<close>), results, lemma
    collections, and the locale \<open>stepper\<close> (a step function with an invariant), interpreted by every
    component that runs on events.
  \<^item> \<^verbatim>\<open>Go_Strings\<close>, \<^verbatim>\<open>Go_Time\<close>, \<^verbatim>\<open>Json\<close>, \<^verbatim>\<open>Decimal\<close>: what the code uses of the Go library: string functions
    and integer texts, RFC 3339 times, JSON texts with Go's field matching, \<open>big.Float\<close> parsing at 256 bits
    and its comparison (\<^verbatim>\<open>runtime/decode.go\<close>: the numeric checks).
  \<^item> \<^verbatim>\<open>Domain_Model\<close>: \<^verbatim>\<open>model/model.go\<close> and \<^verbatim>\<open>model/streamkey.go\<close>; the stream keys round-trip.
  \<^item> \<^verbatim>\<open>Message_Decode\<close>: \<^verbatim>\<open>runtime/decode.go\<close>, \<^verbatim>\<open>kline_decode.go\<close>, \<^verbatim>\<open>orderbook_decode.go\<close>,
    \<^verbatim>\<open>orderbook_snapshot_decode.go\<close>: from the bytes of a Kafka value to a fact; what is accepted is valid.
  \<^item> \<^verbatim>\<open>Sequence_Gate\<close>: \<^verbatim>\<open>runtime/sequence.go\<close>; accepted deltas have increasing cursors.
  \<^item> \<^verbatim>\<open>Order_Book\<close>: \<^verbatim>\<open>runtime/orderbook_state.go\<close>; invariant, contiguous replay, transparency of buffering,
    export and reload.
  \<^item> \<^verbatim>\<open>Fact_Store\<close>: the writes of \<^verbatim>\<open>storage/postgres.go\<close> on explicit tables; atomicity, idempotent replay,
    exactly-once deltas as a refinement of the log, deduplication, candle monotonicity.
  \<^item> \<^verbatim>\<open>Query_Pages\<close>: the queries of \<^verbatim>\<open>storage/postgres.go\<close>; cursor round trip and what the pages return. The
    locale \<open>keyset_table\<close> is the contract of a keyset query, interpreted for trades and snapshots.
  \<^item> \<^verbatim>\<open>Metadata_Store\<close>: \<^verbatim>\<open>metadata/postgres.go\<close> with the constraints of the migrations; integrity of the
    tables, leases that never overlap, normalisation of inputs.
  \<^item> \<^verbatim>\<open>Input_Worker\<close>: the first half of \<^verbatim>\<open>runtime/input_worker.go\<close>: the consume loop, batches, progress, dead
    letters; at-least-once under crashes, restarts, reassignments and other writers (the inductive
    \<open>ingest_reach\<close>), and that a flush gets through.
  \<^item> \<^verbatim>\<open>Group_Runtime\<close>: \<^verbatim>\<open>runtime/reconcile.go\<close>, \<^verbatim>\<open>worker.go\<close>, \<^verbatim>\<open>node.go\<close>: the plan, the life cycle of a worker,
    capacity of a node, progress of a scheduling pass.
  \<^item> \<^verbatim>\<open>Snapshot_Feed\<close>: \<^verbatim>\<open>runtime/snapshot_input_worker.go\<close> and the snapshot loops of \<^verbatim>\<open>worker.go\<close>: commits only
    after application, validity of stored snapshots.
  \<^item> \<^verbatim>\<open>Input_Manager\<close>: the second half of \<^verbatim>\<open>input_worker.go\<close>: what a pass over the inputs establishes and how
    consumers stop.
  \<^item> \<^verbatim>\<open>Delta_Partitions\<close>: \<^verbatim>\<open>storage/partitions.go\<close>: consistency of the hourly partitions under faults, the bound of
    the creation loop, and that a pass covers the horizon and keeps the retention. \<^verbatim>\<open>Partition_Loop\<close>: its \<open>Run\<close>, and
    that the horizon bridges an outage.
  \<^item> \<^verbatim>\<open>Migrations\<close>: \<^verbatim>\<open>db/migrate.go\<close>: scripts take effect once each and in order.
  \<^item> \<^verbatim>\<open>Api_Requests\<close>, \<^verbatim>\<open>Control_Api\<close>: \<^verbatim>\<open>api/dto.go\<close> and \<^verbatim>\<open>api/api.go\<close>: from the bytes of a request over the routing
    table to the stores and the reply; API and store apply the same rules, errors leave no trace, a created
    group reads back.
  \<^item> \<^verbatim>\<open>Go_Duration\<close>, \<^verbatim>\<open>Config_Files\<close>, \<^verbatim>\<open>Configuration\<close>: \<^verbatim>\<open>config/dotenv.go\<close>, \<^verbatim>\<open>yaml.go\<close> and \<^verbatim>\<open>config.go\<close>: where settings
    come from and in which order, and that what loads is coherent.
  \<^item> \<^verbatim>\<open>Observability\<close>: \<^verbatim>\<open>observability/metrics.go\<close>: the metrics report what was recorded.
  \<^item> \<^verbatim>\<open>Process_Setup\<close>: \<^verbatim>\<open>logging/logging.go\<close>, \<^verbatim>\<open>db/pool.go\<close>, the consumer factory of \<^verbatim>\<open>kafka/consumer.go\<close> and the two
    \<^verbatim>\<open>cmd\<close> programs: the runtime works with the settings as loaded, a migrated database is ready.
  \<^item> \<^verbatim>\<open>Control_Loop\<close>: \<open>Run\<close> of \<^verbatim>\<open>node.go\<close> composed with the handlers of the API: a new group is started, a paused one
    is stopped, and a node that shuts down hands its groups over to the others.
  \<^item> \<^verbatim>\<open>Data_Path\<close>: decoder, fact store, query and handler composed: a trade from Kafka is served by the API.
  \<^item> \<^verbatim>\<open>Row_Codecs\<close>: the scan functions of \<^verbatim>\<open>metadata/postgres.go\<close> and the JSON text of price levels in
    \<^verbatim>\<open>storage/postgres.go\<close>: what is written to a row is what is scanned.
  \<^item> this theory: the order book under arbitrary bytes from both topics, and its snapshots in the database.

  \<^bold>\<open>Correspondence.\<close> A Go struct is a record with a two-letter prefix per type, an enumeration a datatype, a
  Go map an association list with distinct keys, a method with a mutex an atomic function. Definitions keep
  the Go names; a loop body or a closure that needed a name of its own is explained where it is defined.
  Errors are values of a sum type or of \<open>option\<close>; a panic of the code is \<open>None\<close>. 64-bit integers that are
  added or compared near the bounds use \<open>wrap64\<close>; times and durations are integers of nanoseconds.

  \<^bold>\<open>Faults and loops.\<close> A statement can succeed, fail, or succeed with its answer lost; a transaction can fail
  at every step and at commit. Retry loops take the list of answers they get and stop when it is exhausted,
  as they do when the context is canceled; \<open>flush_gets_through\<close> shows that they succeed as soon as one answer
  is good. All other functions are total, without fuel.

  \<^bold>\<open>Assumptions.\<close> PostgreSQL executes a transaction in isolation from the others on the same stream
  (\<^verbatim>\<open>FOR UPDATE\<close> on the progress row) and keeps the unique keys of the migrations; timestamps are kept to the
  microsecond; the driver returns times in UTC; the collation that orders ids is a parameter, and so is
  what \<^verbatim>\<open>jsonb\<close> prints, of which \<open>jsonb_keeps\<close> says what is used. Kafka delivers a partition in offset order from the
  committed offset on.

  \<^bold>\<open>Not modelled.\<close> What runs outside the repository and is a parameter: the PostgreSQL and Kafka clients, the YAML
  decoder, the HTTP server (listening, URL decoding, signals). The JSON text of replies, the wording of error
  messages and log lines, which no code reads. The loops that only repeat an operation on a ticker (of the
  input manager and of the status reports) appear as sequences of that operation. \<^verbatim>\<open>migrations.go\<close> and
  \<^verbatim>\<open>metadata/store.go\<close> hold an embedded file system and an interface. The row types of derived
  metrics are written nowhere, and \<open>toFloat64Seconds\<close> is called nowhere.
\<close>

section \<open>From Kafka bytes to the order book\<close>

text \<open>
  The messages of the two order-book inputs of a group. What the decoders reject never reaches the
  book.
\<close>

datatype feed_message = DeltaMessage KafkaMessage | SnapshotMessage KafkaMessage

fun feed_event_of :: "GroupInput \<Rightarrow> GroupInput \<Rightarrow> feed_message \<Rightarrow> book_event option" where
  "feed_event_of deltas snapshots (DeltaMessage msg) =
     (case buildOrderBookDelta deltas msg of Inl e \<Rightarrow> None | Inr d \<Rightarrow> Some (BookDelta d))"
| "feed_event_of deltas snapshots (SnapshotMessage msg) =
     (case buildOrderBookSnapshot snapshots msg of Inl e \<Rightarrow> None | Inr s \<Rightarrow> Some (BookSnapshot s))"

lemma feed_message_priced: "feed_event_of deltas snapshots m = Some e \<Longrightarrow> event_priced e"
  by (cases m) (auto split: sum.splits simp del: event_priced.simps dest: built_delta_priced built_snapshot_priced)

text \<open>
  C38. No bytes on the delta and snapshot topics can corrupt or crash the order book: after any
  sequence of messages whatever, decoded and applied the way the runtime does, the book is
  well-formed and a snapshot of it can be taken without the nil-pointer panic of a price comparison.
\<close>

theorem order_book_survives_any_bytes:
  "let book = foldl book_step (newOrderBookState g i) (List.map_filter (feed_event_of deltas snapshots) msgs)
   in book_inv book \<and> generateSnapshot book now \<noteq> None"
proof -
  have "list_all event_priced (List.map_filter (feed_event_of deltas snapshots) msgs)"
    using feed_message_priced by (fastforce simp: list_all_iff List.map_filter_def)
  moreover have "book_inv (newOrderBookState g i)" by (simp add: newOrderBookState_def book_inv_def)
  ultimately have "book_inv (foldl book_step (newOrderBookState g i)
      (List.map_filter (feed_event_of deltas snapshots) msgs))"
    using book.run_inv by blast
  then show ?thesis using generateSnapshot_defined by (simp add: Let_def)
qed

lemma feed_message_ascii: "feed_event_of deltas snapshots m = Some e \<Longrightarrow> ascii_event e"
  by (cases m) (auto split: sum.splits dest: built_delta_ascii built_snapshot_ascii)

text \<open>
  C39. The snapshots of the order book survive the database: after any sequence of messages the book generates a
  snapshot, and the levels of both sides, encoded as JSON for their columns, kept and printed again by PostgreSQL
  and decoded by the query, are the generated ones. Of \<^verbatim>\<open>jsonb\<close> this uses only that it keeps values that are
  in its own form already.
\<close>

theorem generated_levels_survive_column:
  assumes "jsonb_keeps jsonb"
  shows "\<exists>snap. generateSnapshot (foldl book_step (newOrderBookState g i)
      (List.map_filter (feed_event_of deltas snapshots) msgs)) now = Some snap \<and>
    unmarshalLevels (jsonb (marshalLevels (sn_Bids snap))) = Some (sn_Bids snap) \<and>
    unmarshalLevels (jsonb (marshalLevels (sn_Asks snap))) = Some (sn_Asks snap)"
proof -
  let ?es = "List.map_filter (feed_event_of deltas snapshots) msgs" and ?s0 = "newOrderBookState g i"
  have "list_all event_priced ?es" "list_all ascii_event ?es"
    using feed_message_priced feed_message_ascii by (fastforce simp: list_all_iff List.map_filter_def)+
  moreover have "book_inv ?s0" "ascii_book ?s0"
    by (simp_all add: newOrderBookState_def book_inv_def ascii_book_def ascii_side_def)
  ultimately have "book_inv (foldl book_step ?s0 ?es)" "ascii_book (foldl book_step ?s0 ?es)"
    using book.run_inv ascii_run.run_inv by blast+
  then obtain snap where snap: "generateSnapshot (foldl book_step ?s0 ?es) now = Some snap"
    "list_all ascii_level (sn_Bids snap)" "list_all ascii_level (sn_Asks snap)"
    using generateSnapshot_defined generated_ascii by blast
  then show ?thesis using levels_survive_column [OF assms] by blast
qed

abbreviation reference_stream :: GroupInput where
  "reference_stream \<equiv> sample_stream StreamKindOrderBookSnapshot [] StreamKindOrderBookSnapshot"

lemma sample_reference:
  "buildOrderBookSnapshot reference_stream (sample_message 3 sample_delta_payload) =
     Inr \<lparr> sn_SnapshotID = 0, sn_GroupID = ''g'', sn_InputID = ''i'', sn_SnapshotTime = 1000000, sn_Sequence = Some 11,
       sn_Bids = [\<lparr> pl_Price = ''100'', pl_Quantity = ''1'' \<rparr>], sn_Asks = [], sn_CreatedAt = zero_time \<rparr>"
proof -
  have "decodeOrderBookSnapshot sample_delta_payload = Inr (zero_snapshotMessage
     \<lparr> sm_EventTime := \<lparr> ft_t = 1000000, ft_set = True \<rparr>, sm_Sequence := Some 11,
       sm_Bids := [\<lparr> pl_Price = ''100'', pl_Quantity = ''1'' \<rparr>] \<rparr>)"
    by (simp add: decodeOrderBookSnapshot_def sample_delta_parsed put_snapshot_def decode_eval zero_snapshotMessage_def
        TrimSpace_graphic graphic_def del: foldName.simps)
  then show ?thesis
    by (simp add: buildOrderBookSnapshot_def sample_message_def validate_snapshot_def zero_snapshotMessage_def
        negative_id_def decimal_eval toOrderBookSnapshot_def sample_stream_def inputID_def)
qed

theorem generated_levels_survive_column_witness:
  "\<exists>snap. generateSnapshot (foldl book_step (newOrderBookState ''g'' ''i'')
      (List.map_filter (feed_event_of reference_stream reference_stream) [SnapshotMessage (sample_message 3 sample_delta_payload)])) 5 =
      Some snap \<and> sn_Bids snap = [\<lparr> pl_Price = ''100'', pl_Quantity = ''1'' \<rparr>] \<and>
    unmarshalLevels (marshalLevels (sn_Bids snap)) = Some (sn_Bids snap)"
  using generated_levels_survive_column [of "\<lambda>text. text" "''g''" "''i''" reference_stream reference_stream
      "[SnapshotMessage (sample_message 3 sample_delta_payload)]" 5]
  by (auto simp: jsonb_keeps_def List.map_filter_simps sample_reference newOrderBookState_def applySnapshot_def
      validateBidAskOrder_def load_level_def zero_quantity_def drainPending_def generateSnapshot_def exportBids_def
      exportAsks_def exportLevels_def level_of_def)

end
